(* ===== verification/Nemo_Prelude.thy ===== *)
theory Nemo_Prelude
  imports Main "HOL-Library.Word"
begin

text \<open>
  Shared vocabulary of the development: C's machine integers and pointers, the result
  type that turns every failed \<open>assert\<close>, \<open>exit\<close> and blocked lock of the sources into
  a value, the two combinators the operations are composed with, and the generic lemmas
  on words and lists the component theories use.

  A pointer is a 64-bit word and \<open>NULL\<close> is 0, as on the machine the program runs on, so
  that the number of objects on a list is below \<open>2 ^ 64\<close> without any further hypothesis.
\<close>

unbundle bit_operations_syntax

section \<open>Machine types\<close>

type_synonym u64 = "64 word"
type_synonym u32 = "32 word"
type_synonym ptr = "64 word"

abbreviation (input) NULL :: ptr where
  "NULL \<equiv> 0"

section \<open>Results\<close>

text \<open>
  \<open>Assert_Fail\<close> is a failed \<open>assert\<close>, \<open>Exit\<close> a call of \<open>exit\<close>, \<open>Null_Deref\<close> and
  \<open>Dangling\<close> the use of a null and of a freed pointer, \<open>Out_Of_Bounds\<close> an array access
  outside the array, \<open>Deadlock\<close> a lock that its own thread holds already or a wait
  that no other thread can end, \<open>Undefined\<close> any other undefined behaviour of C (an
  oversized shift, the deletion of an element that is not in a hash table), and
  \<open>Out_Of_Fuel\<close> a loop that has not ended after the number of iterations its model allows;
  the theorems show that the fuel the operations are given is enough.
\<close>

datatype fault =
    Assert_Fail
  | Exit
  | Null_Deref
  | Dangling
  | Out_Of_Bounds
  | Deadlock
  | Undefined
  | Out_Of_Fuel

type_synonym 'a result = "fault + 'a"

definition andThen :: "'a result \<Rightarrow> ('a \<Rightarrow> 'b result) \<Rightarrow> 'b result" where
  "andThen m k = (case m of Inl e \<Rightarrow> Inl e | Inr x \<Rightarrow> k x)"

definition check :: "fault \<Rightarrow> bool \<Rightarrow> 'a result \<Rightarrow> 'a result" where
  "check e b k = (if b then k else Inl e)"

abbreviation assertC :: "bool \<Rightarrow> 'a result \<Rightarrow> 'a result" where
  "assertC \<equiv> check Assert_Fail"

named_theorems res_simps \<open>rules that decide the result of a composed operation\<close>

lemma andThen_simps [simp]:
  "andThen (Inl e) k = Inl e"
  "andThen (Inr x) k = k x"
  by (simp_all add: andThen_def)

lemma check_simps [simp]:
  "check e True k = k"
  "check e False k = Inl e"
  by (simp_all add: check_def)

lemma andThen_eq_Inr [res_simps]:
  "andThen m k = Inr y \<longleftrightarrow> (\<exists>x. m = Inr x \<and> k x = Inr y)"
  by (cases m) simp_all

lemma check_eq_Inr [res_simps]:
  "check e b k = Inr y \<longleftrightarrow> b \<and> k = Inr y"
  by (simp add: check_def)

lemma andThen_assoc:
  "andThen (andThen m f) g = andThen m (\<lambda>x. andThen (f x) g)"
  by (cases m) simp_all

lemma andThen_Inr_right [simp]: "andThen m Inr = m"
  by (cases m) simp_all

section \<open>Words\<close>

lemma unat_u64_less: "unat (x :: u64) < 2 ^ 64"
proof -
  have "unat x < 2 ^ LENGTH(64)" by (rule unsigned_less)
  then show ?thesis by simp
qed

text \<open>Pairwise distinct non-null pointers are fewer than \<open>2 ^ 64\<close>.\<close>

lemma distinct_ptrs_length:
  fixes xs :: "ptr list"
  assumes "distinct xs" and "NULL \<notin> set xs"
  shows "length xs < 2 ^ 64"
proof -
  have "set xs \<subset> (UNIV :: ptr set)"
    using assms(2) by blast
  then have "card (set xs) < card (UNIV :: ptr set)"
    by (intro psubset_card_mono) simp_all
  also have "card (UNIV :: ptr set) = 2 ^ 64"
    by (simp add: card_word)
  finally show ?thesis
    using assms(1) by (simp add: distinct_card)
qed

lemma of_nat_length_pos:
  fixes xs :: "ptr list"
  assumes "distinct xs" and "NULL \<notin> set xs" and "xs \<noteq> []"
  shows "(0 :: u64) < of_nat (length xs)"
proof -
  have "unat (of_nat (length xs) :: u64) = length xs"
    using distinct_ptrs_length [OF assms(1,2)] by (simp add: unat_of_nat)
  then show ?thesis
    using assms(3) by (simp add: word_less_nat_alt)
qed

lemma unat_of_nat_length:
  fixes xs :: "ptr list"
  assumes "distinct xs" and "NULL \<notin> set xs"
  shows "unat (of_nat (length xs) :: u64) = length xs"
  using distinct_ptrs_length [OF assms] by (simp add: unat_of_nat)

section \<open>Indices of a circular array\<close>

lemma mod_diff_wrap:
  fixes h n t :: nat
  assumes "t \<le> h" and "h < n"
  shows "(h + n - t) mod n = h - t"
proof -
  have "h + n - t = (h - t) + n"
    using assms by simp
  then show ?thesis
    using assms by (simp only: mod_add_self2) simp
qed

end
