(* ===== verification/Dll.thy ===== *)
theory Dll
  imports Nemo_Prelude
begin

text \<open>
  Doubly linked lists in a heap whose link fields are kept as one function each, as the
  page lists and the process list of \<open>src/ucm/ds/fifo.c\<close> are. A segment is described by
  the sequence of its nodes; the theory gives the effect on that sequence of the four
  pointer manipulations the lists are built from: pushing at the front, appending,
  splicing a node in and splicing a node out. The sequence can also be computed, by
  walking the \<open>next\<close> fields.
\<close>

section \<open>Segments\<close>

definition first_of :: "ptr list \<Rightarrow> ptr \<Rightarrow> ptr" where
  "first_of xs a = (case xs of [] \<Rightarrow> a | x # _ \<Rightarrow> x)"

definition last_of :: "ptr \<Rightarrow> ptr list \<Rightarrow> ptr" where
  "last_of b xs = (if xs = [] then b else last xs)"

fun links :: "(ptr \<Rightarrow> ptr) \<Rightarrow> (ptr \<Rightarrow> ptr) \<Rightarrow> ptr \<Rightarrow> ptr list \<Rightarrow> ptr \<Rightarrow> bool" where
  "links nx pv b [] a \<longleftrightarrow> True"
| "links nx pv b (x # xs) a \<longleftrightarrow> pv x = b \<and> nx x = first_of xs a \<and> links nx pv x xs a"

fun walk :: "(ptr \<Rightarrow> ptr) \<Rightarrow> nat \<Rightarrow> ptr \<Rightarrow> ptr list" where
  "walk nx 0 p = []"
| "walk nx (Suc n) p = p # walk nx n (nx p)"

named_theorems dll_simps \<open>rules that compute the ends of segments\<close>

lemma first_of_simps [simp]:
  "first_of [] a = a"
  "first_of (x # xs) a = x"
  by (simp_all add: first_of_def)

lemma last_of_simps [simp]:
  "last_of b [] = b"
  "last_of b (xs @ [x]) = x"
  "last_of b (x # xs) = last_of x xs"
  by (simp_all add: last_of_def)

lemma first_of_append [dll_simps]: "first_of (xs @ ys) a = first_of xs (first_of ys a)"
  by (cases xs) simp_all

lemma last_of_append [dll_simps]: "last_of b (xs @ ys) = last_of (last_of b xs) ys"
  by (simp add: last_of_def)

lemma last_of_last [dll_simps]: "xs \<noteq> [] \<Longrightarrow> last_of b xs = last xs"
  by (simp add: last_of_def)

lemma first_of_hd [dll_simps]: "xs \<noteq> [] \<Longrightarrow> first_of xs a = hd xs"
  by (cases xs) simp_all

lemma first_of_null [simp]:
  "NULL \<notin> set xs \<Longrightarrow> first_of xs NULL = NULL \<longleftrightarrow> xs = []"
  by (cases xs) auto

lemma last_of_null [simp]:
  assumes "NULL \<notin> set xs"
  shows "last_of NULL xs = NULL \<longleftrightarrow> xs = []"
proof (cases xs rule: rev_cases)
  case (snoc ys y)
  then show ?thesis using assms by auto
qed simp

lemma links_append:
  "links nx pv b (xs @ ys) a \<longleftrightarrow>
     links nx pv b xs (first_of ys a) \<and> links nx pv (last_of b xs) ys a"
  by (induction xs arbitrary: b) (auto simp: dll_simps)

lemma links_cong:
  assumes "\<And>x. x \<in> set xs \<Longrightarrow> nx' x = nx x" and "\<And>x. x \<in> set xs \<Longrightarrow> pv' x = pv x"
  shows "links nx' pv' b xs a = links nx pv b xs a"
  using assms by (induction xs arbitrary: b) simp_all

lemma links_transfer:
  assumes "links nx pv b xs a" and "x \<notin> set xs"
    and "\<And>z. z \<noteq> x \<Longrightarrow> nx' z = nx z" and "\<And>z. z \<noteq> x \<Longrightarrow> pv' z = pv z"
  shows "links nx' pv' b xs a"
proof -
  have "links nx' pv' b xs a = links nx pv b xs a"
    by (rule links_cong) (metis assms(2-4))+
  then show ?thesis using assms(1) by simp
qed

lemma links_upd [simp]:
  "x \<notin> set xs \<Longrightarrow> links (nx(x := v)) pv b xs a = links nx pv b xs a"
  "x \<notin> set xs \<Longrightarrow> links nx (pv(x := v)) b xs a = links nx pv b xs a"
  by (rule links_cong; auto)+

section \<open>Changing the neighbours of a segment\<close>

lemma links_first_change:
  assumes "links nx pv b xs a" and "distinct xs" and "xs \<noteq> []"
  shows "links nx (pv(hd xs := b')) b' xs a"
  using assms by (cases xs) auto

lemma links_last_change:
  assumes "links nx pv b xs a" and "distinct xs" and "xs \<noteq> []"
  shows "links (nx(last xs := a')) pv b xs a'"
proof -
  obtain ys y where xs: "xs = ys @ [y]"
    using assms(3) by (cases xs rule: rev_cases) auto
  then show ?thesis
    using assms by (auto simp: links_append)
qed

lemma links_last_prev:
  "links nx pv b (xs @ [x]) a \<Longrightarrow> pv x = last_of b xs"
  by (simp add: links_append)

lemma links_next:
  "links nx pv b (xs @ x # ys) a \<Longrightarrow> nx x = first_of ys a"
  by (simp add: links_append)

lemma links_prev:
  "links nx pv b (xs @ x # ys) a \<Longrightarrow> pv x = last_of b xs"
  by (simp add: links_append)

section \<open>Walking\<close>

lemma walk_links:
  "links nx pv b xs a \<Longrightarrow> walk nx (length xs) (first_of xs a) = xs"
proof (induction xs arbitrary: b)
  case (Cons x xs)
  then show ?case by (cases xs) auto
qed simp

section \<open>The pointer manipulations\<close>

definition fix_prev :: "ptr list \<Rightarrow> ptr \<Rightarrow> (ptr \<Rightarrow> ptr) \<Rightarrow> ptr \<Rightarrow> ptr" where
  "fix_prev ys b pv = (if ys = [] then pv else pv(hd ys := b))"

definition fix_next :: "ptr list \<Rightarrow> ptr \<Rightarrow> (ptr \<Rightarrow> ptr) \<Rightarrow> ptr \<Rightarrow> ptr" where
  "fix_next xs a nx = (if xs = [] then nx else nx(last xs := a))"

lemma links_splice_out:
  assumes l: "links nx pv b (xs @ x # ys) a" and d: "distinct (xs @ x # ys)"
  shows "links ((fix_next xs (first_of ys a) nx)(x := v))
     ((fix_prev ys (last_of b xs) pv)(x := w)) b (xs @ ys) a"
proof -
  have 1: "links nx pv b xs x" and 2: "links nx pv x ys a"
    using l by (simp_all add: links_append)
  have d': "distinct xs" "distinct ys" "x \<notin> set xs" "x \<notin> set ys" "set xs \<inter> set ys = {}"
    using d by auto
  have e1: "links ((fix_next xs (first_of ys a) nx)(x := v))
      ((fix_prev ys (last_of b xs) pv)(x := w)) b xs (first_of ys a)"
  proof (cases "xs = []")
    case False
    have "links (nx(last xs := first_of ys a)) pv b xs (first_of ys a)"
      using 1 d'(1) False by (rule links_last_change)
    moreover have "ys \<noteq> [] \<Longrightarrow> hd ys \<notin> set xs"
      using d'(5) by (cases ys) auto
    ultimately show ?thesis
      using d' False by (auto simp: fix_next_def fix_prev_def)
  qed simp
  have e2: "links ((fix_next xs (first_of ys a) nx)(x := v))
      ((fix_prev ys (last_of b xs) pv)(x := w)) (last_of b xs) ys a"
  proof (cases "ys = []")
    case False
    have "links nx (pv(hd ys := last_of b xs)) (last_of b xs) ys a"
      using 2 d'(2) False by (rule links_first_change)
    moreover have "xs \<noteq> [] \<Longrightarrow> last xs \<notin> set ys"
      using d'(5) last_in_set by fastforce
    ultimately show ?thesis
      using d' False by (auto simp: fix_next_def fix_prev_def)
  qed simp
  from e1 e2 show ?thesis
    by (simp add: links_append)
qed

lemma links_splice_in:
  assumes l: "links nx pv b (xs @ ys) a" and d: "distinct (xs @ x # ys)"
    and x: "nx' x = first_of ys a" "pv' x = last_of b xs"
    and nx': "\<And>z. z \<noteq> x \<Longrightarrow> nx' z = fix_next xs x nx z"
    and pv': "\<And>z. z \<noteq> x \<Longrightarrow> pv' z = fix_prev ys x pv z"
  shows "links nx' pv' b (xs @ x # ys) a"
proof -
  have 1: "links nx pv b xs (first_of ys a)" and 2: "links nx pv (last_of b xs) ys a"
    using l by (simp_all add: links_append)
  have d': "distinct xs" "distinct ys" "x \<notin> set xs" "x \<notin> set ys" "set xs \<inter> set ys = {}"
    using d by auto
  have hd_ys: "ys \<noteq> [] \<Longrightarrow> hd ys \<notin> set xs" and last_xs: "xs \<noteq> [] \<Longrightarrow> last xs \<notin> set ys"
    using d'(5) hd_in_set last_in_set by fastforce+
  have "links (fix_next xs x nx) (fix_prev ys x pv) b xs x"
    using links_last_change [OF 1 d'(1), of x] hd_ys
    by (cases "xs = []") (simp_all add: fix_next_def fix_prev_def)
  then have e1: "links nx' pv' b xs x"
    using d'(3) nx' pv' by (rule links_transfer)
  have "links (fix_next xs x nx) (fix_prev ys x pv) x ys a"
    using links_first_change [OF 2 d'(2), of x] last_xs
    by (cases "ys = []") (simp_all add: fix_next_def fix_prev_def)
  then have e2: "links nx' pv' x ys a"
    using d'(4) nx' pv' by (rule links_transfer)
  from e1 e2 show ?thesis
    by (simp add: links_append x)
qed

lemma links_push:
  assumes "links nx pv b ys a" and "distinct (x # ys)"
    and "nx' x = first_of ys a" and "pv' x = b"
    and "\<And>z. z \<noteq> x \<Longrightarrow> nx' z = nx z" and "\<And>z. z \<noteq> x \<Longrightarrow> pv' z = fix_prev ys x pv z"
  shows "links nx' pv' b (x # ys) a"
  using links_splice_in [of nx pv b "[]" ys a x nx' pv'] assms
  by (simp add: fix_next_def)

end
