(* ===== verification/Page_Fifo.thy ===== *)
theory Page_Fifo
  imports Dll
begin

text \<open>
  The page lists of \<open>src/ucm/ds/fifo.c\<close>: the two free lists and, for every process, one
  list per hotness level and memory tier. Every operation of the source runs under the
  lock of its list, so it is one step here.

  The link fields of \<open>struct hemem_page\<close> are kept as one function each; the remaining
  fields follow in \<open>Ucm_State\<close>, which extends the record of this theory. A list is named
  by a \<open>list_id\<close>, which stands for the address of its \<open>struct page_list\<close>.
\<close>

section \<open>The lists\<close>

datatype list_id =
    Fastmem_Free
  | Slowmem_Free
  | Fastmem_Bin ptr nat
  | Slowmem_Bin ptr nat

record page_list =
  first :: ptr
  last_page :: ptr
  numentries :: u64

record page_heap =
  pg_next :: "ptr \<Rightarrow> ptr"
  pg_prev :: "ptr \<Rightarrow> ptr"
  pg_list :: "ptr \<Rightarrow> list_id option"
  plists :: "list_id \<Rightarrow> page_list"

definition empty_page_list :: page_list where
  "empty_page_list = \<lparr>first = NULL, last_page = NULL, numentries = 0\<rparr>"

section \<open>The operations\<close>

definition enqueue_page :: "list_id \<Rightarrow> ptr \<Rightarrow> 'z page_heap_scheme \<Rightarrow> 'z page_heap_scheme result" where
  "enqueue_page q entry s =
     check Null_Deref (entry \<noteq> NULL) (
     assertC (pg_prev s entry = NULL) (
     let queue = plists s q;
         s = s\<lparr>pg_next := (pg_next s)(entry := first queue)\<rparr>
     in andThen
          (if first queue \<noteq> NULL
           then assertC (pg_prev s (first queue) = NULL)
                  (Inr (queue, s\<lparr>pg_prev := (pg_prev s)(first queue := entry)\<rparr>))
           else assertC (last_page queue = NULL) (
                assertC (numentries queue = 0)
                  (Inr (queue\<lparr>last_page := entry\<rparr>, s))))
          (\<lambda>(queue, s).
             Inr (s\<lparr>pg_list := (pg_list s)(entry := Some q),
                    plists := (plists s)(q := queue\<lparr>first := entry,
                      numentries := numentries queue + 1\<rparr>)\<rparr>))))"

definition dequeue_page :: "list_id \<Rightarrow> 'z page_heap_scheme \<Rightarrow> (ptr \<times> 'z page_heap_scheme) result" where
  "dequeue_page q s =
     (let queue = plists s q; ret = last_page queue
      in if ret = NULL then Inr (ret, s)
         else
           let queue = queue\<lparr>last_page := pg_prev s ret\<rparr>;
               (queue, s) =
                 (if last_page queue \<noteq> NULL
                  then (queue, s\<lparr>pg_next := (pg_next s)(last_page queue := NULL)\<rparr>)
                  else (queue\<lparr>first := NULL\<rparr>, s));
               s = s\<lparr>pg_prev := (pg_prev s)(ret := NULL), pg_next := (pg_next s)(ret := NULL),
                     pg_list := (pg_list s)(ret := None)\<rparr>
           in assertC (numentries queue > 0)
                (Inr (ret, s\<lparr>plists := (plists s)(q :=
                   queue\<lparr>numentries := numentries queue - 1\<rparr>)\<rparr>)))"

definition page_list_remove :: "list_id \<Rightarrow> ptr \<Rightarrow> 'z page_heap_scheme \<Rightarrow> 'z page_heap_scheme result" where
  "page_list_remove q page s =
     (let l = plists s q
      in if first l = NULL
         then assertC (last_page l = NULL) (assertC (numentries l = 0) (Inr s))
         else
           check Null_Deref (page \<noteq> NULL) (
           let l = (if first l = page then l\<lparr>first := pg_next s page\<rparr> else l);
               l = (if last_page l = page then l\<lparr>last_page := pg_prev s page\<rparr> else l);
               s = (if pg_next s page \<noteq> NULL
                    then s\<lparr>pg_prev := (pg_prev s)(pg_next s page := pg_prev s page)\<rparr> else s);
               s = (if pg_prev s page \<noteq> NULL
                    then s\<lparr>pg_next := (pg_next s)(pg_prev s page := pg_next s page)\<rparr> else s)
           in assertC (numentries l > 0)
                (Inr (s\<lparr>pg_next := (pg_next s)(page := NULL),
                        pg_prev := (pg_prev s)(page := NULL),
                        pg_list := (pg_list s)(page := None),
                        plists := (plists s)(q := l\<lparr>numentries := numentries l - 1\<rparr>)\<rparr>))))"

text \<open>
  The traversal operations. The source re-reads \<open>page->list\<close> after reading the link,
  because another thread may move the page in between; within one step the second read
  gives the first one's value.
\<close>

definition next_page :: "list_id \<Rightarrow> ptr \<Rightarrow> 'z page_heap_scheme \<Rightarrow> ptr" where
  "next_page q page s =
     (if page = NULL then first (plists s q)
      else if pg_list s page \<noteq> Some q then NULL
      else let next_page = pg_next s page
           in if pg_list s page \<noteq> Some q then NULL else next_page)"

definition prev_page :: "list_id \<Rightarrow> ptr \<Rightarrow> 'z page_heap_scheme \<Rightarrow> ptr" where
  "prev_page q page s =
     (if page = NULL then last_page (plists s q)
      else if pg_list s page \<noteq> Some q then NULL
      else let next_page = pg_prev s page
           in if pg_list s page \<noteq> Some q then NULL else next_page)"

section \<open>The sequence a list stands for\<close>

definition page_seq :: "'z page_heap_scheme \<Rightarrow> list_id \<Rightarrow> ptr list" where
  "page_seq s q = walk (pg_next s) (unat (numentries (plists s q))) (first (plists s q))"

definition is_plist :: "'z page_heap_scheme \<Rightarrow> list_id \<Rightarrow> ptr list \<Rightarrow> bool" where
  "is_plist s q xs \<longleftrightarrow>
     links (pg_next s) (pg_prev s) NULL xs NULL \<and>
     first (plists s q) = first_of xs NULL \<and>
     last_page (plists s q) = last_of NULL xs \<and>
     numentries (plists s q) = of_nat (length xs) \<and>
     distinct xs \<and> NULL \<notin> set xs \<and>
     (\<forall>p. pg_list s p = Some q \<longleftrightarrow> p \<in> set xs)"

text \<open>
  A heap is well formed when every list is, and a page that is on no list has no
  neighbours.
\<close>

definition pl_wf :: "'z page_heap_scheme \<Rightarrow> bool" where
  "pl_wf s \<longleftrightarrow> (\<forall>q. is_plist s q (page_seq s q)) \<and>
     (\<forall>p. pg_list s p = None \<longrightarrow> pg_next s p = NULL \<and> pg_prev s p = NULL)"

text \<open>Only the links and the list heads change: every other part of the state is kept.\<close>

definition link_step :: "'z page_heap_scheme \<Rightarrow> 'z page_heap_scheme \<Rightarrow> bool" where
  "link_step s s' \<longleftrightarrow> (\<exists>n p l h. s' = s\<lparr>pg_next := n, pg_prev := p, pg_list := l, plists := h\<rparr>)"

lemma is_plist_page_seq: "is_plist s q xs \<Longrightarrow> page_seq s q = xs"
  unfolding is_plist_def page_seq_def
  by (metis unat_of_nat_length walk_links)

lemma pl_wfI:
  assumes "\<And>q. is_plist s q (L q)"
    and "\<And>p. pg_list s p = None \<Longrightarrow> pg_next s p = NULL \<and> pg_prev s p = NULL"
  shows "pl_wf s" and "page_seq s = L"
proof -
  show L: "page_seq s = L"
    using assms(1) by (auto simp: is_plist_page_seq)
  show "pl_wf s"
    using assms by (simp add: pl_wf_def L)
qed

lemma pl_wf_plist: "pl_wf s \<Longrightarrow> is_plist s q (page_seq s q)"
  by (simp add: pl_wf_def)

lemma pl_wf_mem: "pl_wf s \<Longrightarrow> pg_list s p = Some q \<longleftrightarrow> p \<in> set (page_seq s q)"
  by (auto simp: pl_wf_def is_plist_def)

lemma pl_wf_distinct: "pl_wf s \<Longrightarrow> distinct (page_seq s q)"
  by (auto simp: pl_wf_def is_plist_def)

lemma pl_wf_nonnull: "pl_wf s \<Longrightarrow> NULL \<notin> set (page_seq s q)"
  by (auto simp: pl_wf_def is_plist_def)

lemma pl_wf_disjoint:
  "\<lbrakk>pl_wf s; p \<in> set (page_seq s q); p \<in> set (page_seq s q')\<rbrakk> \<Longrightarrow> q = q'"
  by (metis option.inject pl_wf_mem)

lemma link_step_refl [simp]: "link_step s s"
proof -
  have "s = s\<lparr>pg_next := pg_next s, pg_prev := pg_prev s, pg_list := pg_list s, plists := plists s\<rparr>"
    by simp
  then show ?thesis
    unfolding link_step_def by blast
qed

lemma link_step_trans: "\<lbrakk>link_step s t; link_step t u\<rbrakk> \<Longrightarrow> link_step s u"
  by (clarsimp simp: link_step_def) blast

lemma link_stepI: "link_step s (s\<lparr>pg_next := n, pg_prev := p, pg_list := l, plists := h\<rparr>)"
  unfolding link_step_def by blast

text \<open>A list whose pages and head are untouched is still the same list.\<close>

lemma is_plist_frame:
  assumes "is_plist s q xs"
    and "\<And>p. p \<in> set xs \<Longrightarrow> pg_next s' p = pg_next s p \<and> pg_prev s' p = pg_prev s p"
    and "plists s' q = plists s q"
    and "\<And>p. pg_list s' p = Some q \<longleftrightarrow> pg_list s p = Some q"
  shows "is_plist s' q xs"
proof -
  have "links (pg_next s') (pg_prev s') NULL xs NULL = links (pg_next s) (pg_prev s) NULL xs NULL"
    using assms(2) by (intro links_cong) auto
  then show ?thesis
    using assms by (simp add: is_plist_def)
qed

section \<open>Each operation on the sequences\<close>

lemma enqueue_page_ok:
  assumes wf: "pl_wf s" and p: "p \<noteq> NULL" "pg_list s p = None"
  obtains s' where "enqueue_page q p s = Inr s'" "pl_wf s'" "link_step s s'"
    "page_seq s' = (page_seq s)(q := p # page_seq s q)"
    "pg_list s' = (pg_list s)(p := Some q)"
proof -
  let ?xs = "page_seq s q" and ?l = "plists s q"
  have l: "is_plist s q ?xs" using wf by (rule pl_wf_plist)
  have nolinks: "pg_next s p = NULL" "pg_prev s p = NULL"
    using wf p(2) by (simp_all add: pl_wf_def)
  have fresh: "p \<notin> set (page_seq s q')" for q'
    using p(2) pl_wf_mem [OF wf, of p q'] by simp
  define s' where "s' = s\<lparr>pg_next := (pg_next s)(p := first ?l),
      pg_prev := fix_prev ?xs p (pg_prev s), pg_list := (pg_list s)(p := Some q),
      plists := (plists s)(q := \<lparr>first = p, last_page = last_of p ?xs,
        numentries = numentries ?l + 1\<rparr>)\<rparr>"
  have run: "enqueue_page q p s = Inr s'"
  proof (cases ?xs)
    case Nil
    with l have "first ?l = NULL" "last_page ?l = NULL" "numentries ?l = 0"
      by (simp_all add: is_plist_def)
    then show ?thesis
      using p nolinks Nil
      by (cases "plists s q") (simp add: enqueue_page_def s'_def Let_def fix_prev_def)
  next
    case (Cons x xs')
    with l have "first ?l = x" "x \<noteq> NULL" "pg_prev s x = NULL" "last_page ?l = last_of x xs'"
      by (simp_all add: is_plist_def)
    then show ?thesis
      using p nolinks Cons
      by (cases "plists s q") (simp add: enqueue_page_def s'_def Let_def fix_prev_def)
  qed
  have "is_plist s' q (p # ?xs)"
    unfolding is_plist_def
  proof (intro conjI allI)
    show "links (pg_next s') (pg_prev s') NULL (p # ?xs) NULL"
    proof (rule links_push)
      show "links (pg_next s) (pg_prev s) NULL ?xs NULL" "distinct (p # ?xs)"
        "pg_next s' p = first_of ?xs NULL"
        using l fresh by (simp_all add: s'_def is_plist_def)
      have "?xs \<noteq> [] \<Longrightarrow> hd ?xs \<noteq> p"
        using fresh [of q] hd_in_set [of ?xs] by metis
      then show "pg_prev s' p = NULL"
        using nolinks by (auto simp: s'_def fix_prev_def)
    qed (simp_all add: s'_def)
  qed (use l fresh p in \<open>auto simp: s'_def is_plist_def\<close>)
  moreover have "is_plist s' q' (page_seq s q')" if "q' \<noteq> q" for q'
  proof (rule is_plist_frame [OF pl_wf_plist [OF wf]])
    fix x assume x: "x \<in> set (page_seq s q')"
    then have "x \<noteq> p" "x \<notin> set ?xs"
      using fresh pl_wf_disjoint [OF wf] that by blast+
    then show "pg_next s' x = pg_next s x \<and> pg_prev s' x = pg_prev s x"
      by (cases ?xs) (auto simp: s'_def fix_prev_def)
  qed (use that p in \<open>auto simp: s'_def\<close>)
  ultimately have L: "is_plist s' q' (((page_seq s)(q := p # ?xs)) q')" for q'
    by simp
  have off: "pg_next s' x = NULL \<and> pg_prev s' x = NULL" if "pg_list s' x = None" for x
  proof -
    have "pg_list s x = None" "x \<noteq> p"
      using that by (auto simp: s'_def split: if_splits)
    moreover from this have "x \<notin> set ?xs"
      using pl_wf_mem [OF wf, of x q] by simp
    ultimately show ?thesis
      using wf by (cases ?xs) (auto simp: s'_def pl_wf_def fix_prev_def)
  qed
  show thesis
  proof (rule that [OF run])
    show "pl_wf s'" "page_seq s' = (page_seq s)(q := p # ?xs)"
      using pl_wfI [OF L off] by blast+
    show "link_step s s'"
      unfolding s'_def by (rule link_stepI)
  qed (simp add: s'_def)
qed

text \<open>
  Taking a page out of the middle of its list; \<open>dequeue_page\<close> and \<open>page_list_remove\<close>
  both produce this state.
\<close>

definition unlink_page :: "list_id \<Rightarrow> ptr \<Rightarrow> 'z page_heap_scheme \<Rightarrow> 'z page_heap_scheme" where
  "unlink_page q p s =
     (let xs = takeWhile (\<lambda>x. x \<noteq> p) (page_seq s q);
          ys = tl (dropWhile (\<lambda>x. x \<noteq> p) (page_seq s q))
      in s\<lparr>pg_next := (fix_next xs (first_of ys NULL) (pg_next s))(p := NULL),
           pg_prev := (fix_prev ys (last_of NULL xs) (pg_prev s))(p := NULL),
           pg_list := (pg_list s)(p := None),
           plists := (plists s)(q := \<lparr>first = first_of (xs @ ys) NULL,
             last_page = last_of NULL (xs @ ys),
             numentries = numentries (plists s q) - 1\<rparr>)\<rparr>)"

lemma remove1_split:
  "\<lbrakk>distinct (xs @ p # ys)\<rbrakk> \<Longrightarrow> remove1 p (xs @ p # ys) = xs @ ys"
  by (simp add: remove1_append)

lemma split_at:
  assumes "distinct (xs @ p # ys)"
  shows "takeWhile (\<lambda>x. x \<noteq> p) (xs @ p # ys) = xs"
    and "tl (dropWhile (\<lambda>x. x \<noteq> p) (xs @ p # ys)) = ys"
proof -
  have *: "\<And>x. x \<in> set xs \<Longrightarrow> x \<noteq> p"
    using assms by auto
  show "takeWhile (\<lambda>x. x \<noteq> p) (xs @ p # ys) = xs"
    using * by (simp add: takeWhile_append2)
  show "tl (dropWhile (\<lambda>x. x \<noteq> p) (xs @ p # ys)) = ys"
    using * by (simp add: dropWhile_append2)
qed

lemma unlink_page_split:
  assumes "page_seq s q = xs @ p # ys" and "distinct (xs @ p # ys)"
  shows "unlink_page q p s = s\<lparr>pg_next := (fix_next xs (first_of ys NULL) (pg_next s))(p := NULL),
      pg_prev := (fix_prev ys (last_of NULL xs) (pg_prev s))(p := NULL),
      pg_list := (pg_list s)(p := None),
      plists := (plists s)(q := \<lparr>first = first_of (xs @ ys) NULL,
        last_page = last_of NULL (xs @ ys), numentries = numentries (plists s q) - 1\<rparr>)\<rparr>"
  by (simp add: unlink_page_def Let_def assms(1) split_at [OF assms(2)])

lemma unlink_page_wf:
  assumes wf: "pl_wf s" and p: "p \<in> set (page_seq s q)"
  shows "pl_wf (unlink_page q p s)"
    and "page_seq (unlink_page q p s) = (page_seq s)(q := remove1 p (page_seq s q))"
    and "link_step s (unlink_page q p s)"
    and "pg_list (unlink_page q p s) = (pg_list s)(p := None)"
proof -
  let ?s = "unlink_page q p s"
  have l: "is_plist s q (page_seq s q)" using wf by (rule pl_wf_plist)
  obtain xs ys where sp: "page_seq s q = xs @ p # ys"
    using p by (auto simp: in_set_conv_decomp)
  have d: "distinct (xs @ p # ys)"
    using pl_wf_distinct [OF wf, of q] sp by simp
  note s' = unlink_page_split [OF sp d]
  show "link_step s ?s"
    unfolding s' by (rule link_stepI)
  show "pg_list ?s = (pg_list s)(p := None)"
    by (simp add: s')
  have off_q: "pg_next ?s x = pg_next s x \<and> pg_prev ?s x = pg_prev s x"
    if "x \<notin> set (page_seq s q)" for x
  proof -
    have "x \<noteq> p" "xs \<noteq> [] \<Longrightarrow> x \<noteq> last xs" "ys \<noteq> [] \<Longrightarrow> x \<noteq> hd ys"
      using that sp by auto
    then show ?thesis
      by (simp add: s' fix_next_def fix_prev_def)
  qed
  have "is_plist ?s q (xs @ ys)"
    unfolding is_plist_def
  proof (intro conjI allI)
    show "links (pg_next ?s) (pg_prev ?s) NULL (xs @ ys) NULL"
      using links_splice_out [OF _ d, of "pg_next s" "pg_prev s" NULL NULL NULL NULL] l sp
      by (simp add: s' is_plist_def)
  qed (use l sp d in \<open>auto simp: s' is_plist_def\<close>)
  moreover have "is_plist ?s q' (page_seq s q')" if "q' \<noteq> q" for q'
  proof (rule is_plist_frame [OF pl_wf_plist [OF wf]])
    fix x assume "x \<in> set (page_seq s q')"
    then have "x \<notin> set (page_seq s q)"
      using pl_wf_disjoint [OF wf] that by blast
    then show "pg_next ?s x = pg_next s x \<and> pg_prev ?s x = pg_prev s x"
      by (rule off_q)
  next
    fix x show "pg_list ?s x = Some q' \<longleftrightarrow> pg_list s x = Some q'"
      using that pl_wf_disjoint [OF wf p] pl_wf_mem [OF wf] by (auto simp: s')
  qed (use that in \<open>auto simp: s'\<close>)
  ultimately have L: "is_plist ?s q' (((page_seq s)(q := xs @ ys)) q')" for q'
    by simp
  have off: "pg_next ?s x = NULL \<and> pg_prev ?s x = NULL" if "pg_list ?s x = None" for x
  proof (cases "x = p")
    case False
    then have "pg_list s x = None"
      using that by (simp add: s')
    moreover from this have "x \<notin> set (page_seq s q)"
      using pl_wf_mem [OF wf, of x q] by simp
    ultimately show ?thesis
      using off_q [of x] wf by (simp add: pl_wf_def)
  qed (simp add: s')
  show "pl_wf ?s" "page_seq ?s = (page_seq s)(q := remove1 p (page_seq s q))"
    using pl_wfI [OF L off] by (simp_all only: sp remove1_split [OF d])
qed

lemma page_list_remove_eq:
  assumes wf: "pl_wf s" and p: "p \<in> set (page_seq s q)"
  shows "page_list_remove q p s = Inr (unlink_page q p s)"
proof -
  have l: "is_plist s q (page_seq s q)" using wf by (rule pl_wf_plist)
  obtain xs ys where sp: "page_seq s q = xs @ p # ys"
    using p by (auto simp: in_set_conv_decomp)
  have d: "distinct (xs @ p # ys)" "NULL \<notin> set (xs @ p # ys)"
    using l sp by (simp_all add: is_plist_def)
  have lk: "pg_next s p = first_of ys NULL" "pg_prev s p = last_of NULL xs"
    using l sp by (simp_all add: is_plist_def links_append)
  obtain n where pq: "plists s q = \<lparr>first = first_of xs p, last_page = last_of p ys,
      numentries = n\<rparr>" and num: "n > 0"
    using l sp of_nat_length_pos [OF d]
    by (cases "plists s q") (simp add: is_plist_def dll_simps)
  have fx: "first_of xs p = p \<longleftrightarrow> xs = []"
    using d by (cases xs) auto
  have lx: "last_of p ys = p \<longleftrightarrow> ys = []"
    using d by (cases ys rule: rev_cases) auto
  have nn: "first_of xs p \<noteq> NULL" "p \<noteq> NULL"
    using d by (cases xs; auto)+
  have e: "hd ys \<noteq> NULL \<and> hd ys \<noteq> p" if "ys \<noteq> []"
    using d hd_in_set [OF that] by auto
  have e': "last xs \<noteq> NULL \<and> last xs \<noteq> p" if "xs \<noteq> []"
    using d last_in_set [OF that] by auto
  show ?thesis
    using num nn fx lx e e'
    by (cases "xs = []"; cases "ys = []")
      (simp_all add: page_list_remove_def unlink_page_split [OF sp d(1)] Let_def lk pq
        fix_next_def fix_prev_def dll_simps)
qed

lemma page_list_remove_ok:
  assumes "pl_wf s" and "p \<in> set (page_seq s q)"
  obtains s' where "page_list_remove q p s = Inr s'" "pl_wf s'" "link_step s s'"
    "page_seq s' = (page_seq s)(q := remove1 p (page_seq s q))"
    "pg_list s' = (pg_list s)(p := None)"
  using that page_list_remove_eq [OF assms] unlink_page_wf [OF assms] by blast

lemma dequeue_page_empty:
  assumes "pl_wf s" and "page_seq s q = []"
  shows "dequeue_page q s = Inr (NULL, s)"
  using pl_wf_plist [OF assms(1), of q] assms(2)
  by (simp add: dequeue_page_def is_plist_def)

lemma dequeue_page_eq:
  assumes wf: "pl_wf s" and sp: "page_seq s q = xs @ [p]"
  shows "dequeue_page q s = Inr (p, unlink_page q p s)"
proof -
  have l: "is_plist s q (xs @ [p])" using pl_wf_plist [OF wf, of q] sp by simp
  then have d: "distinct (xs @ [p])" "NULL \<notin> set (xs @ [p])"
    by (simp_all add: is_plist_def)
  have lk: "pg_prev s p = last_of NULL xs" "pg_next s p = NULL"
    using l by (simp_all add: is_plist_def links_append)
  obtain n where pq: "plists s q = \<lparr>first = first_of xs p, last_page = p, numentries = n\<rparr>"
    and num: "n > 0"
    using l of_nat_length_pos [OF d]
    by (cases "plists s q") (simp add: is_plist_def dll_simps)
  have e: "last xs \<noteq> NULL \<and> last xs \<noteq> p" if "xs \<noteq> []"
    using d last_in_set [OF that] by auto
  have un: "unlink_page q p s = s\<lparr>pg_next := (fix_next xs NULL (pg_next s))(p := NULL),
      pg_prev := (pg_prev s)(p := NULL), pg_list := (pg_list s)(p := None),
      plists := (plists s)(q := \<lparr>first = first_of xs NULL, last_page = last_of NULL xs,
        numentries = n - 1\<rparr>)\<rparr>"
    using unlink_page_split [of s q xs p "[]"] sp d by (simp add: pq fix_prev_def)
  show ?thesis
    using num e d
    by (cases "xs = []") (simp_all add: dequeue_page_def un Let_def lk pq fix_next_def dll_simps)
qed

lemma dequeue_page_ok:
  assumes "pl_wf s" and "page_seq s q = xs @ [p]"
  obtains s' where "dequeue_page q s = Inr (p, s')" "pl_wf s'" "link_step s s'"
    "page_seq s' = (page_seq s)(q := xs)" "pg_list s' = (pg_list s)(p := None)"
proof -
  have p: "p \<in> set (page_seq s q)" using assms(2) by simp
  have "remove1 p (xs @ [p]) = xs"
    using pl_wf_distinct [OF assms(1), of q] assms(2) by (simp add: remove1_append)
  then show thesis
    using that [of "unlink_page q p s"] dequeue_page_eq [OF assms] unlink_page_wf [OF assms(1) p]
      assms(2) by simp
qed

lemma next_page_null:
  "pl_wf s \<Longrightarrow> next_page q NULL s = first_of (page_seq s q) NULL"
  using pl_wf_plist [of s q] by (simp add: next_page_def is_plist_def)

lemma prev_page_null:
  "pl_wf s \<Longrightarrow> prev_page q NULL s = last_of NULL (page_seq s q)"
  using pl_wf_plist [of s q] by (simp add: prev_page_def is_plist_def)

lemma page_neighbours:
  assumes "pl_wf s" and "page_seq s q = xs @ p # ys"
  shows "next_page q p s = first_of ys NULL" and "prev_page q p s = last_of NULL xs"
proof -
  have l: "is_plist s q (xs @ p # ys)"
    using pl_wf_plist [OF assms(1), of q] assms(2) by simp
  then have "p \<noteq> NULL" "pg_list s p = Some q"
    by (auto simp: is_plist_def)
  then show "next_page q p s = first_of ys NULL" "prev_page q p s = last_of NULL xs"
    using l by (simp_all add: next_page_def prev_page_def is_plist_def links_append)
qed

section \<open>The contract of a family of lists\<close>

text \<open>
  What the memory manager relies on: a family of sequences, with enqueueing at the
  front, dequeueing at the back and removal anywhere, of which every operation
  succeeds when its argument is where it should be. \<open>loose\<close> says of a page that it is on
  no list and \<open>keeps\<close> that the rest of the state is unchanged.
\<close>

fun enqueue_all :: "('q \<Rightarrow> ptr \<Rightarrow> 's \<Rightarrow> 's result) \<Rightarrow> 'q \<Rightarrow> ptr list \<Rightarrow> 's \<Rightarrow> 's result" where
  "enqueue_all enq q [] s = Inr s"
| "enqueue_all enq q (p # ps) s = andThen (enq q p s) (enqueue_all enq q ps)"

fun dequeue_n :: "('q \<Rightarrow> 's \<Rightarrow> (ptr \<times> 's) result) \<Rightarrow> 'q \<Rightarrow> nat \<Rightarrow> 's \<Rightarrow> (ptr list \<times> 's) result" where
  "dequeue_n deq q 0 s = Inr ([], s)"
| "dequeue_n deq q (Suc n) s =
     andThen (deq q s) (\<lambda>(p, s). andThen (dequeue_n deq q n s) (\<lambda>(ps, s). Inr (p # ps, s)))"

locale list_family =
  fixes seq :: "'s \<Rightarrow> 'q \<Rightarrow> ptr list"
    and wf :: "'s \<Rightarrow> bool"
    and loose :: "'s \<Rightarrow> ptr \<Rightarrow> bool"
    and keeps :: "'s \<Rightarrow> 's \<Rightarrow> bool"
    and enq :: "'q \<Rightarrow> ptr \<Rightarrow> 's \<Rightarrow> 's result"
    and deq :: "'q \<Rightarrow> 's \<Rightarrow> (ptr \<times> 's) result"
    and rem :: "'q \<Rightarrow> ptr \<Rightarrow> 's \<Rightarrow> 's result"
  assumes enq_ok: "\<lbrakk>wf s; loose s p\<rbrakk> \<Longrightarrow> \<exists>s'. enq q p s = Inr s' \<and> wf s' \<and> keeps s s' \<and>
      seq s' = (seq s)(q := p # seq s q) \<and> loose s' = (loose s)(p := False)"
    and deq_ok: "\<lbrakk>wf s; seq s q = xs @ [p]\<rbrakk> \<Longrightarrow> \<exists>s'. deq q s = Inr (p, s') \<and> wf s' \<and> keeps s s' \<and>
      seq s' = (seq s)(q := xs) \<and> loose s' = (loose s)(p := True)"
    and deq_empty: "\<lbrakk>wf s; seq s q = []\<rbrakk> \<Longrightarrow> deq q s = Inr (NULL, s)"
    and rem_ok: "\<lbrakk>wf s; p \<in> set (seq s q)\<rbrakk> \<Longrightarrow> \<exists>s'. rem q p s = Inr s' \<and> wf s' \<and> keeps s s' \<and>
      seq s' = (seq s)(q := remove1 p (seq s q)) \<and> loose s' = (loose s)(p := True)"
    and keeps_refl: "keeps s s"
    and keeps_trans: "\<lbrakk>keeps s t; keeps t u\<rbrakk> \<Longrightarrow> keeps s u"
begin

lemma move_ok:
  assumes "wf s" and "p \<in> set (seq s q)" and "q \<noteq> q'"
  shows "\<exists>s'. andThen (rem q p s) (enq q' p) = Inr s' \<and> wf s' \<and> keeps s s' \<and>
    seq s' = (seq s)(q := remove1 p (seq s q), q' := p # seq s q') \<and>
    loose s' = (loose s)(p := False)"
proof -
  obtain t where t: "rem q p s = Inr t" "wf t" "keeps s t"
    "seq t = (seq s)(q := remove1 p (seq s q))" "loose t = (loose s)(p := True)"
    using rem_ok [OF assms(1,2)] by blast
  then obtain u where "enq q' p t = Inr u" "wf u" "keeps t u"
    "seq u = (seq t)(q' := p # seq t q')" "loose u = (loose t)(p := False)"
    using enq_ok [of t p q'] by auto
  then show ?thesis
    using t assms(3) keeps_trans [of s t u] by auto
qed

lemma enqueue_all_ok:
  assumes "wf s" and "\<forall>p \<in> set ps. loose s p" and "distinct ps"
  shows "\<exists>s'. enqueue_all enq q ps s = Inr s' \<and> wf s' \<and> keeps s s' \<and>
    seq s' = (seq s)(q := rev ps @ seq s q)"
  using assms
proof (induction ps arbitrary: s)
  case Nil
  then show ?case by (auto intro: keeps_refl)
next
  case (Cons p ps)
  obtain t where t: "enq q p s = Inr t" "wf t" "keeps s t"
    "seq t = (seq s)(q := p # seq s q)" "loose t = (loose s)(p := False)"
    using enq_ok [of s p q] Cons.prems by auto
  have "\<forall>x \<in> set ps. loose t x" "distinct ps"
    using Cons.prems t(5) by auto
  from Cons.IH [OF t(2) this]
  obtain u where "enqueue_all enq q ps t = Inr u" "wf u" "keeps t u"
    "seq u = (seq t)(q := rev ps @ seq t q)"
    by blast
  then show ?case
    using t keeps_trans [of s t u] by auto
qed

lemma dequeue_n_ok:
  assumes "wf s" and "seq s q = xs @ rev ps"
  shows "\<exists>s'. dequeue_n deq q (length ps) s = Inr (ps, s') \<and> wf s' \<and> keeps s s' \<and>
    seq s' = (seq s)(q := xs)"
  using assms
proof (induction ps arbitrary: s)
  case Nil
  then show ?case by (auto intro: keeps_refl)
next
  case (Cons p ps)
  have "seq s q = (xs @ rev ps) @ [p]"
    using Cons.prems(2) by simp
  from deq_ok [OF Cons.prems(1) this]
  obtain t where t: "deq q s = Inr (p, t)" "wf t" "keeps s t"
    "seq t = (seq s)(q := xs @ rev ps)"
    by blast
  have "seq t q = xs @ rev ps"
    using t(4) by simp
  from Cons.IH [OF t(2) this]
  obtain u where "dequeue_n deq q (length ps) t = Inr (ps, u)" "wf u" "keeps t u"
    "seq u = (seq t)(q := xs)"
    by blast
  then show ?case
    using t keeps_trans [of s t u] by auto
qed

text \<open>First in, first out: pages come back in the order they were put on an empty list.\<close>

lemma fifo_order:
  assumes "wf s" and "seq s q = []" and "\<forall>p \<in> set ps. loose s p" and "distinct ps"
  shows "\<exists>s'. andThen (enqueue_all enq q ps s) (dequeue_n deq q (length ps)) = Inr (ps, s') \<and>
    wf s' \<and> keeps s s' \<and> seq s' = seq s"
proof -
  obtain t where t: "enqueue_all enq q ps s = Inr t" "wf t" "keeps s t"
    "seq t = (seq s)(q := rev ps)"
    using enqueue_all_ok [OF assms(1,3,4), of q] assms(2) by auto
  then obtain u where "dequeue_n deq q (length ps) t = Inr (ps, u)" "wf u" "keeps t u"
    "seq u = (seq t)(q := [])"
    using dequeue_n_ok [of t q "[]" ps] by auto
  then show ?thesis
    using t keeps_trans [of s t u] assms(2) by (auto simp: fun_upd_idem)
qed

end

definition loose_page :: "'z page_heap_scheme \<Rightarrow> ptr \<Rightarrow> bool" where
  "loose_page s p \<longleftrightarrow> p \<noteq> NULL \<and> pg_list s p = None"

interpretation pl: list_family page_seq pl_wf loose_page link_step
  enqueue_page dequeue_page page_list_remove
proof
  fix s :: "'z page_heap_scheme" and p q
  assume wf: "pl_wf s" and lp: "loose_page s p"
  then obtain s' where "enqueue_page q p s = Inr s'" "pl_wf s'" "link_step s s'"
    "page_seq s' = (page_seq s)(q := p # page_seq s q)"
    "pg_list s' = (pg_list s)(p := Some q)"
    using enqueue_page_ok [of s p q] by (auto simp: loose_page_def)
  then show "\<exists>s'. enqueue_page q p s = Inr s' \<and> pl_wf s' \<and> link_step s s' \<and>
      page_seq s' = (page_seq s)(q := p # page_seq s q) \<and>
      loose_page s' = (loose_page s)(p := False)"
    by (intro exI [of _ s']) (auto simp: loose_page_def fun_eq_iff)
next
  fix s :: "'z page_heap_scheme" and q xs p
  assume wf: "pl_wf s" and sp: "page_seq s q = xs @ [p]"
  then obtain s' where "dequeue_page q s = Inr (p, s')" "pl_wf s'" "link_step s s'"
    "page_seq s' = (page_seq s)(q := xs)" "pg_list s' = (pg_list s)(p := None)"
    by (rule dequeue_page_ok)
  moreover have "p \<noteq> NULL"
    using pl_wf_nonnull [OF wf, of q] sp by auto
  ultimately show "\<exists>s'. dequeue_page q s = Inr (p, s') \<and> pl_wf s' \<and> link_step s s' \<and>
      page_seq s' = (page_seq s)(q := xs) \<and> loose_page s' = (loose_page s)(p := True)"
    by (intro exI [of _ s']) (auto simp: loose_page_def fun_eq_iff)
next
  fix s :: "'z page_heap_scheme" and q p
  assume wf: "pl_wf s" and p: "p \<in> set (page_seq s q)"
  then obtain s' where "page_list_remove q p s = Inr s'" "pl_wf s'" "link_step s s'"
    "page_seq s' = (page_seq s)(q := remove1 p (page_seq s q))"
    "pg_list s' = (pg_list s)(p := None)"
    by (rule page_list_remove_ok)
  moreover have "p \<noteq> NULL"
    using pl_wf_nonnull [OF wf, of q] p by auto
  ultimately show "\<exists>s'. page_list_remove q p s = Inr s' \<and> pl_wf s' \<and> link_step s s' \<and>
      page_seq s' = (page_seq s)(q := remove1 p (page_seq s q)) \<and>
      loose_page s' = (loose_page s)(p := True)"
    by (intro exI [of _ s']) (auto simp: loose_page_def fun_eq_iff)
qed (auto intro: dequeue_page_empty link_step_trans)

end
