(* ===== verification/C_Double.thy ===== *)
theory C_Double
  imports Complex_Main Nemo_Prelude
begin

text \<open>
  C's \<open>double\<close> as the policy code uses it: IEEE 754 binary64 values with the two
  infinities and NaN, every arithmetic result rounded to the nearest representable
  number (ties to even, subnormals included). The sign of zero is not kept: no code of
  the policies divides by a negative zero.
\<close>

section \<open>Values and rounding\<close>

datatype double = Fin real | PosInf | NegInf | NaN

text \<open>
  The exponent of the last place of a number: the least \<open>e\<close> from \<open>-1074\<close> for which 53
  bits of weight \<open>2 ^ e\<close> cover it, \<open>None\<close> when it is beyond the largest double.
\<close>

definition ulp_exp :: "real \<Rightarrow> int option" where
  "ulp_exp x = find (\<lambda>e. \<bar>x\<bar> < 2 powi (e + 53)) [-1074..971]"

definition round_even :: "real \<Rightarrow> int" where
  "round_even x =
     (let f = \<lfloor>x\<rfloor>; d = x - of_int f
      in if d < 1 / 2 then f
         else if d > 1 / 2 then f + 1
         else if even f then f else f + 1)"

definition round_double :: "real \<Rightarrow> double" where
  "round_double x =
     (case ulp_exp x of
        None \<Rightarrow> if 0 < x then PosInf else NegInf
      | Some e \<Rightarrow>
          let r = of_int (round_even (x / 2 powi e)) * 2 powi e
          in if 2 powi 1024 \<le> \<bar>r\<bar> then (if 0 < x then PosInf else NegInf) else Fin r)"

section \<open>Operations\<close>

definition d_of_u64 :: "u64 \<Rightarrow> double" where
  "d_of_u64 n = round_double (real (unat n))"

fun d_add :: "double \<Rightarrow> double \<Rightarrow> double" where
  "d_add NaN b = NaN"
| "d_add a NaN = NaN"
| "d_add PosInf NegInf = NaN"
| "d_add NegInf PosInf = NaN"
| "d_add PosInf b = PosInf"
| "d_add NegInf b = NegInf"
| "d_add (Fin x) PosInf = PosInf"
| "d_add (Fin x) NegInf = NegInf"
| "d_add (Fin x) (Fin y) = round_double (x + y)"

definition d_inf :: "bool \<Rightarrow> double" where
  "d_inf positive = (if positive then PosInf else NegInf)"

fun d_mul :: "double \<Rightarrow> double \<Rightarrow> double" where
  "d_mul NaN b = NaN"
| "d_mul a NaN = NaN"
| "d_mul (Fin x) (Fin y) = round_double (x * y)"
| "d_mul (Fin x) PosInf = (if x = 0 then NaN else d_inf (0 < x))"
| "d_mul (Fin x) NegInf = (if x = 0 then NaN else d_inf (x < 0))"
| "d_mul PosInf (Fin y) = (if y = 0 then NaN else d_inf (0 < y))"
| "d_mul NegInf (Fin y) = (if y = 0 then NaN else d_inf (y < 0))"
| "d_mul PosInf PosInf = PosInf"
| "d_mul PosInf NegInf = NegInf"
| "d_mul NegInf PosInf = NegInf"
| "d_mul NegInf NegInf = PosInf"

fun d_div :: "double \<Rightarrow> double \<Rightarrow> double" where
  "d_div NaN b = NaN"
| "d_div a NaN = NaN"
| "d_div (Fin x) (Fin y) =
     (if y = 0 then if x = 0 then NaN else d_inf (0 < x) else round_double (x / y))"
| "d_div (Fin x) PosInf = Fin 0"
| "d_div (Fin x) NegInf = Fin 0"
| "d_div PosInf (Fin y) = d_inf (0 \<le> y)"
| "d_div NegInf (Fin y) = d_inf (y < 0)"
| "d_div a b = NaN"

fun d_less :: "double \<Rightarrow> double \<Rightarrow> bool" where
  "d_less NaN b = False"
| "d_less a NaN = False"
| "d_less (Fin x) (Fin y) = (x < y)"
| "d_less NegInf b = (b \<noteq> NegInf)"
| "d_less a PosInf = (a \<noteq> PosInf)"
| "d_less a b = False"

fun d_eq :: "double \<Rightarrow> double \<Rightarrow> bool" where
  "d_eq NaN b = False"
| "d_eq a b = (a = b)"

definition d_le :: "double \<Rightarrow> double \<Rightarrow> bool" where
  "d_le a b \<longleftrightarrow> d_less a b \<or> d_eq a b"

text \<open>The macro \<open>min\<close> of \<open>util/compiler.h\<close>: the first argument when it is smaller.\<close>

definition d_min :: "double \<Rightarrow> double \<Rightarrow> double" where
  "d_min a b = (if d_less a b then a else b)"

text \<open>
  Conversion to a 64-bit signed integer: truncation towards zero; a value that does not
  fit is undefined behaviour.
\<close>

fun d_to_int64 :: "double \<Rightarrow> int result" where
  "d_to_int64 (Fin x) =
     (let n = (if 0 \<le> x then \<lfloor>x\<rfloor> else \<lceil>x\<rceil>)
      in check Undefined (- (2 ^ 63) \<le> n \<and> n < 2 ^ 63) (Inr n))"
| "d_to_int64 a = Inl Undefined"

end
