(* ===== verification/Nemo_Shared.thy ===== *)
theory Nemo_Shared
  imports C_Double
begin

text \<open>
  The definitions every component shares: page sizes and alignment
  (\<open>src/shared/hemem-shared.h\<close>), the configuration constants of
  \<open>src/ucm/ucm-config.h\<close> with the build options of \<open>cmake/options.cmake\<close> as a record
  that the operations take as an argument, and the hotness index of
  \<open>src/ucm/core-util.c\<close>, with what the rest of the development uses of them: rounding is
  rounding to a multiple of the page size, and the index is bounded and monotone.
\<close>

section \<open>Page sizes and alignment\<close>

definition BASEPAGE_SIZE :: u64 where "BASEPAGE_SIZE = 4 * 1024"
definition HUGEPAGE_SIZE :: u64 where "HUGEPAGE_SIZE = 2 * 1024 * 1024"

lemma page_size_values:
  "BASEPAGE_SIZE = 4096" "HUGEPAGE_SIZE = 2097152"
  by (simp_all add: BASEPAGE_SIZE_def HUGEPAGE_SIZE_def)

definition PAGE_ROUND_UP :: "u64 \<Rightarrow> u64" where
  "PAGE_ROUND_UP x = (x + HUGEPAGE_SIZE - 1) AND (NOT (HUGEPAGE_SIZE - 1))"

definition PAGE_ROUND_DOWN :: "u64 \<Rightarrow> u64" where
  "PAGE_ROUND_DOWN x = x AND NOT (HUGEPAGE_SIZE - 1)"

definition HUGE_PFN_MASK :: u64 where
  "HUGE_PFN_MASK = (HUGEPAGE_SIZE - 1) XOR (- 1)"

definition CACHELINES_IN_HUGEPAGE :: u64 where
  "CACHELINES_IN_HUGEPAGE = HUGEPAGE_SIZE div 64"
definition CACHELINES_IN_BASEPAGE :: u64 where
  "CACHELINES_IN_BASEPAGE = BASEPAGE_SIZE div 64"

datatype pagetypes = HUGEP | BASEP

fun pt_to_pagesize :: "pagetypes \<Rightarrow> u64" where
  "pt_to_pagesize HUGEP = HUGEPAGE_SIZE"
| "pt_to_pagesize BASEP = BASEPAGE_SIZE"

definition pagesize_to_pt :: "u64 \<Rightarrow> pagetypes result" where
  "pagesize_to_pt pagesize =
     (if pagesize = BASEPAGE_SIZE then Inr BASEP
      else if pagesize = HUGEPAGE_SIZE then Inr HUGEP
      else Inl Assert_Fail)"

fun pt_to_cacheline_count :: "pagetypes \<Rightarrow> u64" where
  "pt_to_cacheline_count HUGEP = CACHELINES_IN_HUGEPAGE"
| "pt_to_cacheline_count BASEP = CACHELINES_IN_BASEPAGE"

text \<open>Clearing the low 21 bits of an address is rounding it down to a multiple of 2 MiB.\<close>

lemma huge_mask_eq: "NOT (HUGEPAGE_SIZE - 1) = NOT (mask 21 :: u64)"
  by (simp add: HUGEPAGE_SIZE_def mask_eq_exp_minus_1)

lemma and_not_mask_unat:
  fixes x :: u64
  shows "unat (x AND NOT (mask 21)) = unat x - unat x mod 2 ^ 21"
proof -
  have "x AND NOT (mask 21) = push_bit 21 (drop_bit 21 x)"
    by (rule bit_word_eqI) (auto simp: bit_simps)
  then have "unat (x AND NOT (mask 21)) = unat (push_bit 21 (drop_bit 21 x))"
    by simp
  also have "\<dots> = (unat x div 2 ^ 21 * 2 ^ 21) mod 2 ^ 64"
    by (simp add: push_bit_eq_mult drop_bit_eq_div unat_word_ariths unat_div unat_mod
        mod_mult_left_eq)
  also have "\<dots> = unat x div 2 ^ 21 * 2 ^ 21"
    using unat_u64_less [of x] by (simp add: order_le_less_trans [OF div_times_less_eq_dividend])
  finally show ?thesis
    by (simp add: minus_mod_eq_div_mult)
qed

lemma PAGE_ROUND_DOWN_unat:
  "unat (PAGE_ROUND_DOWN x) = unat x - unat x mod 2 ^ 21"
  by (simp add: PAGE_ROUND_DOWN_def huge_mask_eq and_not_mask_unat)

lemma HUGE_PFN_MASK_round_down: "x AND HUGE_PFN_MASK = PAGE_ROUND_DOWN x"
proof -
  have "HUGE_PFN_MASK = NOT (HUGEPAGE_SIZE - 1)"
    by (simp add: HUGE_PFN_MASK_def)
  then show ?thesis by (simp add: PAGE_ROUND_DOWN_def)
qed

lemma PAGE_ROUND_UP_unat:
  assumes "unat x \<le> 2 ^ 64 - 2 ^ 21"
  shows "unat (PAGE_ROUND_UP x) = (unat x + (2 ^ 21 - 1)) div 2 ^ 21 * 2 ^ 21"
proof -
  have "unat (2097151 + x) = unat x + 2097151"
    using assms by (simp add: unat_word_ariths)
  then show ?thesis
    unfolding PAGE_ROUND_UP_def huge_mask_eq and_not_mask_unat
    by (simp add: HUGEPAGE_SIZE_def minus_mod_eq_div_mult)
qed

section \<open>Configuration\<close>

text \<open>The build options of \<open>cmake/options.cmake\<close> that the modelled code tests.\<close>

record config =
  CONFIG_PEBS :: bool
  CONFIG_PEBS_SKEWNESS :: bool
  CONFIG_CXL_TELEM :: bool
  CONFIG_POLICY_QOS :: bool
  CONFIG_POLICY_FAIR_SHARE :: bool

datatype pbuftype = FASTMEM | SLOWMEM

definition NUM_HOTNESS_LEVELS :: nat where "NUM_HOTNESS_LEVELS = 12"
definition COLD :: nat where "COLD = 0"

definition PEBS_SAMPLE_PERIOD :: u64 where "PEBS_SAMPLE_PERIOD = push_bit 14 1"
definition PEBS_MIGRATE_RATE :: u64 where "PEBS_MIGRATE_RATE = 256 * 1024 * 1024"

section \<open>The hotness index\<close>

text \<open>
  \<open>__builtin_clzll\<close> counts the leading zeros of a non-zero 64-bit number: 64 minus its
  bit length.
\<close>

fun bit_length :: "nat \<Rightarrow> nat" where
  "bit_length n = (if n = 0 then 0 else Suc (bit_length (n div 2)))"

declare bit_length.simps [simp del]

definition builtin_clzll :: "u64 \<Rightarrow> u64" where
  "builtin_clzll num = of_nat (64 - bit_length (unat num))"

definition access_to_index_raw :: "u64 \<Rightarrow> nat" where
  "access_to_index_raw num =
     (if num \<le> 0 then 0
      else let ret = 64 - builtin_clzll num
           in if ret > of_nat (NUM_HOTNESS_LEVELS - 1)
              then NUM_HOTNESS_LEVELS - 1 else unat ret)"

definition access_to_index :: "config \<Rightarrow> u64 \<Rightarrow> u64 \<Rightarrow> nat" where
  "access_to_index cfg dram_access cxl_access =
     (let cxl_access = (if CONFIG_CXL_TELEM cfg then cxl_access div PEBS_SAMPLE_PERIOD
                        else cxl_access)
      in access_to_index_raw (dram_access + cxl_access))"

lemma bit_length_le: "n < 2 ^ k \<Longrightarrow> bit_length n \<le> k"
proof (induction k arbitrary: n)
  case 0
  then show ?case by (simp add: bit_length.simps)
next
  case (Suc k)
  then have "n div 2 < 2 ^ k" by auto
  then show ?case
    using Suc.IH by (simp add: bit_length.simps [of n])
qed

lemma bit_length_iff: "bit_length n \<le> k \<longleftrightarrow> n < 2 ^ k"
proof (induction k arbitrary: n)
  case 0
  then show ?case by (simp add: bit_length.simps)
next
  case (Suc k)
  show ?case
    using Suc.IH [of "n div 2"] by (auto simp: bit_length.simps [of n])
qed

lemma access_to_index_raw_eq:
  "access_to_index_raw num = min (bit_length (unat num)) (NUM_HOTNESS_LEVELS - 1)"
proof (cases "num = 0")
  case True
  then show ?thesis by (simp add: access_to_index_raw_def bit_length.simps)
next
  case False
  have b: "bit_length (unat num) \<le> 64"
    using bit_length_iff [of "unat num" 64] unat_u64_less [of num] by simp
  have "(64 :: u64) - of_nat (64 - bit_length (unat num)) = of_nat (bit_length (unat num))"
    using b by (simp add: of_nat_diff)
  moreover have "unat (of_nat (bit_length (unat num)) :: u64) = bit_length (unat num)"
    using b by (simp add: unat_of_nat)
  ultimately show ?thesis
    using False b
    by (simp add: access_to_index_raw_def builtin_clzll_def word_less_nat_alt
        NUM_HOTNESS_LEVELS_def Let_def min_def)
qed

lemma access_to_index_bound: "access_to_index cfg a b < NUM_HOTNESS_LEVELS"
  by (simp add: access_to_index_def access_to_index_raw_eq NUM_HOTNESS_LEVELS_def)

lemma bit_length_mono: "m \<le> n \<Longrightarrow> bit_length m \<le> bit_length n"
  using bit_length_iff [of n "bit_length n"] bit_length_iff [of m "bit_length n"] by simp

lemma access_to_index_raw_mono: "m \<le> n \<Longrightarrow> access_to_index_raw m \<le> access_to_index_raw n"
  by (auto simp: access_to_index_raw_eq word_le_nat_alt min_def dest: bit_length_mono)

end
