(* ===== verification/Process_Fifo.thy ===== *)
theory Process_Fifo
  imports Page_Fifo C_Double Nemo_Shared
begin

text \<open>
  The process list of \<open>src/ucm/ds/fifo.c\<close>. Under the QoS and fair-share policies the list
  is kept ordered by the processes' target miss ratio and is walked with hand-over-hand
  locking; the locks of the processes are part of the state (the set of processes whose
  \<open>process_lock\<close> is held), so that the theorems show that every lock taken is released.
  Under the other policies the list is a plain queue.
\<close>

section \<open>The list\<close>

record process_list =
  pl_first :: ptr
  pl_last :: ptr
  pl_numentries :: u64

record proc_heap = page_heap +
  pr_next :: "ptr \<Rightarrow> ptr"
  pr_prev :: "ptr \<Rightarrow> ptr"
  pr_list :: "ptr \<Rightarrow> bool"
  held :: "ptr set"
  target_miss_ratio :: "ptr \<Rightarrow> double"
  processes_list :: process_list

definition ordered_processes :: "config \<Rightarrow> bool" where
  "ordered_processes cfg \<longleftrightarrow> CONFIG_POLICY_QOS cfg \<or> CONFIG_POLICY_FAIR_SHARE cfg"

section \<open>Locks\<close>

definition lock_process :: "ptr \<Rightarrow> 'z proc_heap_scheme \<Rightarrow> 'z proc_heap_scheme result" where
  "lock_process p s =
     check Deadlock (p \<notin> held s) (Inr (s\<lparr>held := insert p (held s)\<rparr>))"

definition unlock_process :: "ptr \<Rightarrow> 'z proc_heap_scheme \<Rightarrow> 'z proc_heap_scheme result" where
  "unlock_process p s =
     check Undefined (p \<in> held s) (Inr (s\<lparr>held := held s - {p}\<rparr>))"

definition lock_if :: "ptr \<Rightarrow> 'z proc_heap_scheme \<Rightarrow> 'z proc_heap_scheme result" where
  "lock_if p s = (if p \<noteq> NULL then lock_process p s else Inr s)"

section \<open>Insertion\<close>

text \<open>
  The loop that walks the list to find where to insert. It holds the locks of the entry,
  of \<open>prev\<close> and of \<open>current\<close>.
\<close>

fun find_insert_pos :: "nat \<Rightarrow> ptr \<Rightarrow> ptr \<Rightarrow> ptr \<Rightarrow> 'z proc_heap_scheme \<Rightarrow>
    (ptr \<times> ptr \<times> 'z proc_heap_scheme) result" where
  "find_insert_pos 0 entry prev current s = Inl Out_Of_Fuel"
| "find_insert_pos (Suc fuel) entry prev current s =
     (if current = NULL then Inr (prev, current, s)
      else if d_less (target_miss_ratio s entry) (target_miss_ratio s current)
      then Inr (prev, current, s)
      else let old_prev = prev; prev = current; current = pr_next s current
           in andThen (unlock_process old_prev s) (\<lambda>s.
              andThen (lock_if current s) (find_insert_pos fuel entry prev current)))"

definition enqueue_process_ordered :: "ptr \<Rightarrow> 'z proc_heap_scheme \<Rightarrow> 'z proc_heap_scheme result" where
  "enqueue_process_ordered entry s =
     check Null_Deref (entry \<noteq> NULL) (
     andThen (lock_process entry s) (\<lambda>s.
     let queue = processes_list s
     in if pl_first queue = NULL
        then assertC (pl_last queue = NULL) (
             assertC (pl_numentries queue = 0) (
             unlock_process entry (s\<lparr>
               pr_next := (pr_next s)(entry := NULL), pr_prev := (pr_prev s)(entry := NULL),
               pr_list := (pr_list s)(entry := True),
               processes_list := \<lparr>pl_first = entry, pl_last = entry,
                 pl_numentries = pl_numentries queue + 1\<rparr>\<rparr>)))
        else
          andThen (lock_process (pl_first queue) s) (\<lambda>s.
          if d_less (target_miss_ratio s entry) (target_miss_ratio s (pl_first queue))
          then andThen (unlock_process entry (s\<lparr>
                 pr_next := (pr_next s)(entry := pl_first queue),
                 pr_prev := (pr_prev s)(entry := NULL, pl_first queue := entry),
                 pr_list := (pr_list s)(entry := True),
                 processes_list := queue\<lparr>pl_first := entry,
                   pl_numentries := pl_numentries queue + 1\<rparr>\<rparr>))
                 (\<lambda>s. unlock_process (pr_next s entry) s)
          else
            let current = pr_next s (pl_first queue)
            in andThen (lock_if current s) (\<lambda>s.
               andThen (find_insert_pos (Suc (unat (pl_numentries queue))) entry
                          (pl_first queue) current s) (\<lambda>(prev, current, s).
               andThen
                 (if current \<noteq> NULL
                  then let s = s\<lparr>pr_next := (pr_next s)(entry := current),
                                 pr_prev := (pr_prev s)(entry := pr_prev s current),
                                 pr_list := (pr_list s)(entry := True)\<rparr>;
                           s = s\<lparr>pr_prev := (pr_prev s)(current := entry)\<rparr>;
                           s = s\<lparr>pr_next := (pr_next s)(pr_prev s entry := entry)\<rparr>
                       in andThen (unlock_process prev s) (\<lambda>s.
                          andThen (unlock_process entry s) (unlock_process current))
                  else let s = s\<lparr>pr_next := (pr_next s)(entry := NULL, prev := entry),
                                 pr_prev := (pr_prev s)(entry := prev),
                                 pr_list := (pr_list s)(entry := True),
                                 processes_list := (processes_list s)\<lparr>pl_last := entry\<rparr>\<rparr>
                       in andThen (unlock_process prev s) (unlock_process entry))
                 (\<lambda>s. Inr (s\<lparr>processes_list := (processes_list s)\<lparr>
                    pl_numentries := pl_numentries (processes_list s) + 1\<rparr>\<rparr>)))))))"

definition enqueue_process_fifo :: "ptr \<Rightarrow> 'z proc_heap_scheme \<Rightarrow> 'z proc_heap_scheme result" where
  "enqueue_process_fifo entry s =
     check Null_Deref (entry \<noteq> NULL) (
     assertC (pr_prev s entry = NULL) (
     let queue = processes_list s;
         s = s\<lparr>pr_next := (pr_next s)(entry := pl_first queue)\<rparr>
     in andThen
          (if pl_first queue \<noteq> NULL
           then assertC (pr_prev s (pl_first queue) = NULL)
                  (Inr (queue, s\<lparr>pr_prev := (pr_prev s)(pl_first queue := entry)\<rparr>))
           else assertC (pl_last queue = NULL) (
                assertC (pl_numentries queue = 0)
                  (Inr (queue\<lparr>pl_last := entry\<rparr>, s))))
          (\<lambda>(queue, s).
             Inr (s\<lparr>pr_list := (pr_list s)(entry := True),
                    processes_list := queue\<lparr>pl_first := entry,
                      pl_numentries := pl_numentries queue + 1\<rparr>\<rparr>))))"

definition enqueue_process :: "config \<Rightarrow> ptr \<Rightarrow> 'z proc_heap_scheme \<Rightarrow> 'z proc_heap_scheme result" where
  "enqueue_process cfg entry s =
     (if ordered_processes cfg then enqueue_process_ordered entry s
      else enqueue_process_fifo entry s)"

section \<open>Removal\<close>

fun find_process_pos :: "nat \<Rightarrow> ptr \<Rightarrow> ptr \<Rightarrow> ptr \<Rightarrow> 'z proc_heap_scheme \<Rightarrow>
    (ptr \<times> ptr \<times> 'z proc_heap_scheme) result" where
  "find_process_pos 0 process prev current s = Inl Out_Of_Fuel"
| "find_process_pos (Suc fuel) process prev current s =
     (if current = NULL then Inr (prev, current, s)
      else if current = process then Inr (prev, current, s)
      else let old_prev = prev; prev = current; current = pr_next s current
           in andThen (unlock_process old_prev s) (\<lambda>s.
              andThen (lock_if current s) (find_process_pos fuel process prev current)))"

definition detach_process :: "ptr \<Rightarrow> 'z proc_heap_scheme \<Rightarrow> 'z proc_heap_scheme" where
  "detach_process p s =
     s\<lparr>pr_prev := (pr_prev s)(p := NULL), pr_next := (pr_next s)(p := NULL),
       pr_list := (pr_list s)(p := False)\<rparr>"

definition dec_numentries :: "'z proc_heap_scheme \<Rightarrow> 'z proc_heap_scheme" where
  "dec_numentries s = s\<lparr>processes_list := (processes_list s)\<lparr>
     pl_numentries := pl_numentries (processes_list s) - 1\<rparr>\<rparr>"

definition process_list_remove_ordered :: "ptr \<Rightarrow> 'z proc_heap_scheme \<Rightarrow> 'z proc_heap_scheme result" where
  "process_list_remove_ordered process s =
     (let l = processes_list s
      in if pl_first l = NULL
         then assertC (pl_last l = NULL) (assertC (pl_numentries l = 0) (Inr s))
         else andThen (lock_process (pl_first l) s) (\<lambda>s.
           if pl_first l = process
           then let tmp = pl_first l; nxt = pr_next s tmp;
                    s = s\<lparr>processes_list := l\<lparr>pl_first := nxt\<rparr>\<rparr>
                in andThen
                     (if nxt = NULL
                      then unlock_process process (detach_process process
                             (s\<lparr>processes_list := (processes_list s)\<lparr>pl_last := nxt\<rparr>\<rparr>))
                      else andThen (lock_process nxt s) (\<lambda>s.
                           andThen (unlock_process tmp (detach_process process
                                      (s\<lparr>pr_prev := (pr_prev s)(nxt := NULL)\<rparr>)))
                                   (unlock_process nxt)))
                     (\<lambda>s. Inr (dec_numentries s))
           else
             let current = pr_next s (pl_first l)
             in andThen (lock_if current s) (\<lambda>s.
                andThen (find_process_pos (Suc (unat (pl_numentries l))) process
                           (pl_first l) current s) (\<lambda>(prev, current, s).
                if current = process
                then check Null_Deref (current \<noteq> NULL) (
                  andThen
                  (if pr_next s current \<noteq> NULL
                   then let nxt = pr_next s current
                        in andThen (lock_process nxt s) (\<lambda>s.
                           andThen (unlock_process prev (detach_process current
                             (s\<lparr>pr_next := (pr_next s)(prev := nxt),
                                pr_prev := (pr_prev s)(nxt := prev)\<rparr>))) (\<lambda>s.
                           andThen (unlock_process current s) (unlock_process nxt)))
                   else let s = detach_process current (s\<lparr>pr_next := (pr_next s)(prev := NULL)\<rparr>);
                            s = s\<lparr>processes_list := (processes_list s)\<lparr>pl_last := prev\<rparr>\<rparr>
                        in andThen (unlock_process prev s) (unlock_process current))
                  (\<lambda>s. Inr (dec_numentries s)))
                else Inr s))))"

definition process_list_remove_fifo :: "ptr \<Rightarrow> 'z proc_heap_scheme \<Rightarrow> 'z proc_heap_scheme result" where
  "process_list_remove_fifo process s =
     (let l = processes_list s
      in if pl_first l = NULL
         then assertC (pl_last l = NULL) (assertC (pl_numentries l = 0) (Inr s))
         else
           check Null_Deref (process \<noteq> NULL) (
           let l = (if pl_first l = process then l\<lparr>pl_first := pr_next s process\<rparr> else l);
               l = (if pl_last l = process then l\<lparr>pl_last := pr_prev s process\<rparr> else l);
               s = (if pr_next s process \<noteq> NULL
                    then s\<lparr>pr_prev := (pr_prev s)(pr_next s process := pr_prev s process)\<rparr> else s);
               s = (if pr_prev s process \<noteq> NULL
                    then s\<lparr>pr_next := (pr_next s)(pr_prev s process := pr_next s process)\<rparr> else s)
           in assertC (pl_numentries l > 0)
                (Inr (detach_process process
                   (s\<lparr>processes_list := l\<lparr>pl_numentries := pl_numentries l - 1\<rparr>\<rparr>)))))"

definition process_list_remove :: "config \<Rightarrow> ptr \<Rightarrow> 'z proc_heap_scheme \<Rightarrow> 'z proc_heap_scheme result" where
  "process_list_remove cfg process s =
     (if ordered_processes cfg then process_list_remove_ordered process s
      else process_list_remove_fifo process s)"

definition peek_process :: "'z proc_heap_scheme \<Rightarrow> ptr" where
  "peek_process s = pl_first (processes_list s)"

section \<open>The sequence of processes\<close>

definition proc_seq :: "'z proc_heap_scheme \<Rightarrow> ptr list" where
  "proc_seq s = walk (pr_next s) (unat (pl_numentries (processes_list s)))
     (pl_first (processes_list s))"

definition is_proclist :: "'z proc_heap_scheme \<Rightarrow> ptr list \<Rightarrow> bool" where
  "is_proclist s xs \<longleftrightarrow>
     links (pr_next s) (pr_prev s) NULL xs NULL \<and>
     processes_list s = \<lparr>pl_first = first_of xs NULL, pl_last = last_of NULL xs,
       pl_numentries = of_nat (length xs)\<rparr> \<and>
     distinct xs \<and> NULL \<notin> set xs \<and> (\<forall>p. pr_list s p \<longleftrightarrow> p \<in> set xs)"

definition pr_wf :: "'z proc_heap_scheme \<Rightarrow> bool" where
  "pr_wf s \<longleftrightarrow> is_proclist s (proc_seq s) \<and>
     (\<forall>p. \<not> pr_list s p \<longrightarrow> pr_next s p = NULL \<and> pr_prev s p = NULL)"

text \<open>Only the links, the locks and the head of the process list change.\<close>

definition proc_link_step :: "'z proc_heap_scheme \<Rightarrow> 'z proc_heap_scheme \<Rightarrow> bool" where
  "proc_link_step s s' \<longleftrightarrow>
     (\<exists>n p l h. s' = s\<lparr>pr_next := n, pr_prev := p, pr_list := l, processes_list := h\<rparr>)"

text \<open>
  The abstract insertion: after the processes whose target is not larger than the entry's.
\<close>

definition before :: "'z proc_heap_scheme \<Rightarrow> ptr \<Rightarrow> ptr \<Rightarrow> bool" where
  "before s e x \<longleftrightarrow> \<not> d_less (target_miss_ratio s e) (target_miss_ratio s x)"

definition insert_proc :: "'z proc_heap_scheme \<Rightarrow> ptr \<Rightarrow> ptr list \<Rightarrow> ptr list" where
  "insert_proc s e xs = takeWhile (before s e) xs @ e # dropWhile (before s e) xs"

definition by_target :: "'z proc_heap_scheme \<Rightarrow> ptr list \<Rightarrow> bool" where
  "by_target s xs \<longleftrightarrow>
     sorted_wrt (\<lambda>x y. \<not> d_less (target_miss_ratio s y) (target_miss_ratio s x)) xs"

lemma is_proclist_proc_seq: "is_proclist s xs \<Longrightarrow> proc_seq s = xs"
proof -
  assume l: "is_proclist s xs"
  then have "unat (pl_numentries (processes_list s)) = length xs"
    by (simp add: is_proclist_def unat_of_nat_length)
  then show ?thesis
    using l by (auto simp: is_proclist_def proc_seq_def intro: walk_links)
qed

lemma pr_wfI:
  assumes "is_proclist s xs"
    and "\<And>p. p \<notin> set xs \<Longrightarrow> pr_next s p = NULL \<and> pr_prev s p = NULL"
  shows "pr_wf s" and "proc_seq s = xs"
  using assms is_proclist_proc_seq [OF assms(1)] by (auto simp: pr_wf_def is_proclist_def)

lemma pr_wfD:
  assumes "pr_wf s"
  shows "is_proclist s (proc_seq s)"
    and "p \<notin> set (proc_seq s) \<Longrightarrow> pr_next s p = NULL \<and> pr_prev s p = NULL"
    and "pr_list s p \<longleftrightarrow> p \<in> set (proc_seq s)"
    and "distinct (proc_seq s)" and "NULL \<notin> set (proc_seq s)"
  using assms by (auto simp: pr_wf_def is_proclist_def)

lemma proc_link_stepI:
  "proc_link_step s (s\<lparr>pr_next := n, pr_prev := p, pr_list := l, processes_list := h\<rparr>)"
  unfolding proc_link_step_def by blast

lemma by_target_insert:
  assumes "by_target s xs" and "\<forall>x \<in> set (e # xs). target_miss_ratio s x \<noteq> NaN"
  shows "by_target s (insert_proc s e xs)"
  using assms
proof (induction xs)
  case Nil
  then show ?case by (simp add: by_target_def insert_proc_def)
next
  case (Cons x xs)
  have trans: "\<not> d_less c a" if "\<not> d_less b a" "\<not> d_less c b" "b \<noteq> NaN" for a b c
    using that by (cases a; cases b; cases c) auto
  have asym: "d_less a b \<Longrightarrow> \<not> d_less b a" for a b
    by (cases a; cases b) auto
  show ?case
  proof (cases "before s e x")
    case True
    have sub: "set (insert_proc s e xs) = insert e (set xs)"
      unfolding insert_proc_def
      by (metis Un_insert_right list.simps(15) set_append takeWhile_dropWhile_id)
    have "insert_proc s e (x # xs) = x # insert_proc s e xs"
      using True by (simp add: insert_proc_def)
    moreover have "by_target s (insert_proc s e xs)"
      using Cons by (simp add: by_target_def)
    ultimately show ?thesis
      using Cons.prems True sub by (auto simp: by_target_def before_def)
  next
    case False
    then have "d_less (target_miss_ratio s e) (target_miss_ratio s x)"
      by (simp add: before_def)
    then have ex: "\<not> d_less (target_miss_ratio s x) (target_miss_ratio s e)"
      by (rule asym)
    have "\<not> d_less (target_miss_ratio s y) (target_miss_ratio s e)" if "y \<in> set xs" for y
    proof (rule trans [OF ex])
      show "\<not> d_less (target_miss_ratio s y) (target_miss_ratio s x)"
        using Cons.prems(1) that by (simp add: by_target_def)
    qed (use Cons.prems in auto)
    then show ?thesis
      using False ex Cons.prems by (simp add: insert_proc_def by_target_def)
  qed
qed

section \<open>The walks\<close>

lemma held_simps [simp]:
  "before (s\<lparr>held := h\<rparr>) = before s"
  "proc_seq (s\<lparr>held := h\<rparr>) = proc_seq s"
  "pr_wf (s\<lparr>held := h\<rparr>) = pr_wf s"
  by (simp_all add: before_def fun_eq_iff proc_seq_def pr_wf_def is_proclist_def)

lemma lock_simps [simp]:
  "lock_process p s = (if p \<in> held s then Inl Deadlock else Inr (s\<lparr>held := insert p (held s)\<rparr>))"
  "unlock_process p s = (if p \<in> held s then Inr (s\<lparr>held := held s - {p}\<rparr>) else Inl Undefined)"
  "lock_if NULL s = Inr s"
  "p \<noteq> NULL \<Longrightarrow> lock_if p s = lock_process p s"
  by (simp_all add: lock_process_def unlock_process_def lock_if_def check_def)

lemma find_insert_pos_ok:
  assumes "links (pr_next s) pv b ys NULL" and "distinct (e # prev # ys)" and "NULL \<notin> set ys"
    and "held s = insert e (insert prev (set (take 1 ys)))" and "length ys < n"
  shows "find_insert_pos n e prev (first_of ys NULL) s =
    Inr (last_of prev (takeWhile (before s e) ys), first_of (dropWhile (before s e) ys) NULL,
      s\<lparr>held := insert e (insert (last_of prev (takeWhile (before s e) ys))
        (set (take 1 (dropWhile (before s e) ys))))\<rparr>)"
  using assms
proof (induction ys arbitrary: s b prev n)
  case Nil
  then show ?case by (cases n) auto
next
  case (Cons y ys)
  then obtain m where n: "n = Suc m" "length ys < m" by (cases n) auto
  show ?case
  proof (cases "before s e y")
    case False
    then show ?thesis
      using n Cons.prems by (auto simp: before_def)
  next
    case True
    let ?s = "s\<lparr>held := insert e (insert y (set (take 1 ys)))\<rparr>"
    have "find_insert_pos n e prev (first_of (y # ys) NULL) s =
        find_insert_pos m e y (first_of ys NULL) ?s"
    proof -
      have h: "held s - {prev} = {e, y}"
        using Cons.prems by auto
      have nx: "pr_next s y = first_of ys NULL" "y \<noteq> NULL" "prev \<in> held s"
        using Cons.prems by auto
      show ?thesis
      proof (cases ys)
        case Nil
        then show ?thesis
          using n True nx by (simp add: before_def h)
      next
        case (Cons z zs)
        then have z: "z \<noteq> NULL" "z \<notin> {e, y}" "insert z {e, y} = {e, y, z}"
          using Cons.prems by auto
        show ?thesis
          using n True nx z Cons by (simp add: before_def h)
      qed
    qed
    also have "\<dots> = Inr (last_of y (takeWhile (before ?s e) ys), first_of (dropWhile (before ?s e) ys) NULL,
      ?s\<lparr>held := insert e (insert (last_of y (takeWhile (before ?s e) ys))
        (set (take 1 (dropWhile (before ?s e) ys))))\<rparr>)"
      using Cons.prems n by (intro Cons.IH [of _ y]) auto
    finally show ?thesis
      using True by simp
  qed
qed

declare find_insert_pos.simps [simp del]

section \<open>Insertion keeps the order and releases every lock\<close>

definition link_process :: "ptr list \<Rightarrow> ptr \<Rightarrow> ptr list \<Rightarrow> 'z proc_heap_scheme \<Rightarrow> 'z proc_heap_scheme" where
  "link_process xs e ys s =
     s\<lparr>pr_next := (fix_next xs e (pr_next s))(e := first_of ys NULL),
       pr_prev := (fix_prev ys e (pr_prev s))(e := last_of NULL xs),
       pr_list := (pr_list s)(e := True),
       processes_list := \<lparr>pl_first = first_of xs e, pl_last = last_of e ys,
         pl_numentries = pl_numentries (processes_list s) + 1\<rparr>\<rparr>"

lemma link_process_wf:
  assumes wf: "pr_wf s" and sp: "proc_seq s = xs @ ys" and e: "e \<noteq> NULL" "e \<notin> set (proc_seq s)"
  shows "pr_wf (link_process xs e ys s)"
    and "proc_seq (link_process xs e ys s) = xs @ e # ys"
proof -
  let ?s = "link_process xs e ys s"
  have l: "is_proclist s (xs @ ys)"
    using pr_wfD(1) [OF wf] sp by simp
  have d: "distinct (xs @ e # ys)"
    using pr_wfD(4) [OF wf] sp e by auto
  have "links (pr_next ?s) (pr_prev ?s) NULL (xs @ e # ys) NULL"
    using l d by (intro links_splice_in [of "pr_next s" "pr_prev s"])
      (simp_all add: is_proclist_def link_process_def)
  then have L: "is_proclist ?s (xs @ e # ys)"
    using l d e by (auto simp: is_proclist_def link_process_def dll_simps)
  have off: "pr_next ?s x = NULL \<and> pr_prev ?s x = NULL" if "x \<notin> set (xs @ e # ys)" for x
  proof -
    have "x \<noteq> e" "xs \<noteq> [] \<Longrightarrow> x \<noteq> last xs" "ys \<noteq> [] \<Longrightarrow> x \<noteq> hd ys"
      using that by auto
    moreover have "pr_next s x = NULL \<and> pr_prev s x = NULL"
      using pr_wfD(2) [OF wf, of x] that sp by simp
    ultimately show ?thesis
      by (simp add: link_process_def fix_next_def fix_prev_def)
  qed
  show "pr_wf ?s" "proc_seq ?s = xs @ e # ys"
    using pr_wfI [OF L off] by blast+
qed

lemma enqueue_process_ordered_eq:
  assumes wf: "pr_wf s" and e: "e \<noteq> NULL" "e \<notin> set (proc_seq s)" and h: "held s = {}"
  shows "enqueue_process_ordered e s =
    Inr ((link_process (takeWhile (before s e) (proc_seq s)) e
      (dropWhile (before s e) (proc_seq s)) s)\<lparr>held := {}\<rparr>)"
proof -
  have l: "is_proclist s (proc_seq s)" using wf by (rule pr_wfD)
  have off: "pr_next s e = NULL" "pr_prev s e = NULL"
    using pr_wfD(2) [OF wf e(2)] by simp_all
  show ?thesis
  proof (cases "proc_seq s")
    case Nil
    then show ?thesis
      using l e h by (simp add: enqueue_process_ordered_def is_proclist_def link_process_def
          fix_next_def fix_prev_def)
  next
    case (Cons x xs)
    have x: "x \<noteq> NULL" "x \<noteq> e" "x \<notin> set xs" "e \<notin> set xs" "NULL \<notin> set xs" "distinct xs"
      using l e Cons by (auto simp: is_proclist_def)
    obtain m where pl: "processes_list s = \<lparr>pl_first = x, pl_last = last_of x xs,
        pl_numentries = m\<rparr>" and m: "unat m = Suc (length xs)"
      using l Cons unat_of_nat_length [of "proc_seq s"] by (simp add: is_proclist_def)
    have lx: "pr_next s x = first_of xs NULL" "pr_prev s x = NULL"
        "links (pr_next s) (pr_prev s) x xs NULL"
      using l Cons by (simp_all add: is_proclist_def)
    show ?thesis
    proof (cases "before s e x")
      case False
      have "{x, e} - {e} - {x} = {}" by auto
      with False show ?thesis
        using x h e by (simp add: enqueue_process_ordered_def before_def Cons pl link_process_def
            fix_next_def fix_prev_def fun_upd_twist)
    next
      case True
      define as where "as = takeWhile (before s e) xs"
      define bs where "bs = dropWhile (before s e) xs"
      have xs: "xs = as @ bs" by (simp add: as_def bs_def)
      define pr where "pr = last_of x as"
      have lst: "last (x # as) = pr" and "pr \<in> set (x # as)"
        by (simp_all add: pr_def last_of_def)
      then have pre: "pr \<noteq> e" "pr \<noteq> NULL"
        using x xs by auto
      let ?h = "insert e (insert x (set (take (Suc 0) xs)))"
      have lk: "lock_if (first_of xs NULL) (s\<lparr>held := {x, e}\<rparr>) = Inr (s\<lparr>held := ?h\<rparr>)"
        using x by (cases xs) (auto simp: insert_commute)
      have fi: "find_insert_pos (Suc (Suc (length xs))) e x (first_of xs NULL) (s\<lparr>held := ?h\<rparr>) =
          Inr (pr, first_of bs NULL, s\<lparr>held := insert e (insert pr (set (take (Suc 0) bs)))\<rparr>)"
        using find_insert_pos_ok [of "s\<lparr>held := ?h\<rparr>" "pr_prev s" x xs e x "Suc (Suc (length xs))"] lx x
        by (simp add: as_def bs_def pr_def)
      have fn: "fix_next (x # as) e (pr_next s) = (pr_next s)(pr := e)"
        unfolding fix_next_def lst by simp
      have seqs: "takeWhile (before s e) (proc_seq s) = x # as"
        "dropWhile (before s e) (proc_seq s) = bs"
        using True by (simp_all add: Cons as_def bs_def)
      show ?thesis
      proof (cases bs)
        case Nil
        have hs: "{e, pr} - {pr} - {e} = {}" by auto
        show ?thesis
          using True x h e pre Nil
          by (simp add: enqueue_process_ordered_def before_def pl lx lk fi m Let_def
             link_process_def seqs fn fix_prev_def fun_upd_twist hs pr_def [symmetric])
      next
        case b: (Cons y ys)
        have hs: "{e, pr, y} - {pr} - {e} - {y} = {}" by auto
        have "pr_prev s y = pr" "y \<noteq> NULL" "y \<noteq> e" "y \<noteq> pr" "last_of x xs = last_of y ys"
          using lx(3) x xs b \<open>pr \<in> set (x # as)\<close> by (auto simp: links_append pr_def dll_simps)
        then show ?thesis
          using True x h e pre b
          by (simp add: enqueue_process_ordered_def before_def pl lx lk fi m Let_def
             link_process_def seqs fn fix_prev_def fun_upd_twist hs pr_def [symmetric])
      qed
    qed
  qed
qed

section \<open>Removal\<close>

lemma find_process_pos_ok:
  assumes "links (pr_next s) pv b ys NULL" and "distinct (prev # ys)" and "NULL \<notin> set ys"
    and "held s = insert prev (set (take 1 ys))" and "length ys < n"
  shows "find_process_pos n q prev (first_of ys NULL) s =
    Inr (last_of prev (takeWhile (\<lambda>x. x \<noteq> q) ys), first_of (dropWhile (\<lambda>x. x \<noteq> q) ys) NULL,
      s\<lparr>held := insert (last_of prev (takeWhile (\<lambda>x. x \<noteq> q) ys))
        (set (take 1 (dropWhile (\<lambda>x. x \<noteq> q) ys)))\<rparr>)"
  using assms
proof (induction ys arbitrary: s b prev n)
  case Nil
  then show ?case by (cases n) auto
next
  case (Cons y ys)
  then obtain m where n: "n = Suc m" "length ys < m" by (cases n) auto
  show ?case
  proof (cases "y = q")
    case True
    then show ?thesis
      using n Cons.prems by auto
  next
    case False
    let ?s = "s\<lparr>held := insert y (set (take 1 ys))\<rparr>"
    have "find_process_pos n q prev (first_of (y # ys) NULL) s =
        find_process_pos m q y (first_of ys NULL) ?s"
    proof -
      have h: "held s - {prev} = {y}"
        using Cons.prems by auto
      have nx: "pr_next s y = first_of ys NULL" "y \<noteq> NULL" "prev \<in> held s"
        using Cons.prems by auto
      show ?thesis
      proof (cases ys)
        case Nil
        then show ?thesis
          using n False nx by (simp add: h)
      next
        case (Cons z zs)
        then have z: "z \<noteq> NULL" "z \<notin> {y}" "insert z {y} = {y, z}"
          using Cons.prems by auto
        show ?thesis
          using n False nx z Cons by (simp add: h)
      qed
    qed
    also have "\<dots> = Inr (last_of y (takeWhile (\<lambda>x. x \<noteq> q) ys), first_of (dropWhile (\<lambda>x. x \<noteq> q) ys) NULL,
      ?s\<lparr>held := insert (last_of y (takeWhile (\<lambda>x. x \<noteq> q) ys))
        (set (take 1 (dropWhile (\<lambda>x. x \<noteq> q) ys)))\<rparr>)"
      using Cons.prems n by (intro Cons.IH [of _ y]) auto
    finally show ?thesis
      using False by simp
  qed
qed

declare find_process_pos.simps [simp del]

definition unlink_process :: "ptr list \<Rightarrow> ptr \<Rightarrow> ptr list \<Rightarrow> 'z proc_heap_scheme \<Rightarrow> 'z proc_heap_scheme" where
  "unlink_process xs p ys s =
     s\<lparr>pr_next := (fix_next xs (first_of ys NULL) (pr_next s))(p := NULL),
       pr_prev := (fix_prev ys (last_of NULL xs) (pr_prev s))(p := NULL),
       pr_list := (pr_list s)(p := False),
       processes_list := \<lparr>pl_first = first_of (xs @ ys) NULL, pl_last = last_of NULL (xs @ ys),
         pl_numentries = pl_numentries (processes_list s) - 1\<rparr>\<rparr>"

lemma unlink_process_wf:
  assumes wf: "pr_wf s" and sp: "proc_seq s = xs @ p # ys"
  shows "pr_wf (unlink_process xs p ys s)"
    and "proc_seq (unlink_process xs p ys s) = xs @ ys"
proof -
  let ?s = "unlink_process xs p ys s"
  have l: "is_proclist s (xs @ p # ys)" and d: "distinct (xs @ p # ys)"
    using pr_wfD(1,4) [OF wf] sp by simp_all
  have "links (pr_next ?s) (pr_prev ?s) NULL (xs @ ys) NULL"
    using links_splice_out [OF _ d, of "pr_next s" "pr_prev s" NULL NULL NULL NULL] l
    by (simp add: unlink_process_def is_proclist_def)
  then have L: "is_proclist ?s (xs @ ys)"
    using l d by (auto simp: is_proclist_def unlink_process_def)
  have off: "pr_next ?s x = NULL \<and> pr_prev ?s x = NULL" if "x \<notin> set (xs @ ys)" for x
  proof (cases "x = p")
    case False
    have "xs \<noteq> [] \<Longrightarrow> x \<noteq> last xs" "ys \<noteq> [] \<Longrightarrow> x \<noteq> hd ys"
      using that by auto
    moreover have "pr_next s x = NULL \<and> pr_prev s x = NULL"
      using pr_wfD(2) [OF wf, of x] that sp False by simp
    ultimately show ?thesis
      using False by (simp add: unlink_process_def fix_next_def fix_prev_def)
  qed (simp add: unlink_process_def)
  show "pr_wf ?s" "proc_seq ?s = xs @ ys"
    using pr_wfI [OF L off] by blast+
qed

lemma process_list_remove_ordered_eq:
  assumes wf: "pr_wf s" and sp: "proc_seq s = xs @ p # ys" and h: "held s = {}"
  shows "process_list_remove_ordered p s = Inr ((unlink_process xs p ys s)\<lparr>held := {}\<rparr>)"
proof -
  have l: "is_proclist s (xs @ p # ys)" using pr_wfD(1) [OF wf] sp by simp
  have d: "distinct (xs @ p # ys)" "NULL \<notin> set (xs @ p # ys)"
    using l by (simp_all add: is_proclist_def)
  have lk: "pr_next s p = first_of ys NULL" "pr_prev s p = last_of NULL xs"
    using l by (simp_all add: is_proclist_def links_append)
  obtain m where pl: "processes_list s = \<lparr>pl_first = first_of xs p, pl_last = last_of p ys,
      pl_numentries = m\<rparr>" and m: "unat m = Suc (length xs + length ys)"
    using l unat_of_nat_length [OF d] by (simp add: is_proclist_def dll_simps)
  show ?thesis
  proof (cases xs)
    case Nil
    show ?thesis
    proof (cases ys)
      case n: Nil
      then show ?thesis
        using Nil d h lk by (simp add: process_list_remove_ordered_def pl unlink_process_def
            detach_process_def dec_numentries_def fix_next_def fix_prev_def)
    next
      case (Cons y zs)
      have hs: "{y, p} - {p} - {y} = {}" and "y \<noteq> p"
        using Cons d by auto
      then show ?thesis
        using Nil Cons d h lk by (simp add: process_list_remove_ordered_def pl unlink_process_def
            detach_process_def dec_numentries_def fix_next_def fix_prev_def hs dll_simps Let_def)
    qed
  next
    case (Cons x as)
    define pr where "pr = last_of x as"
    have lst: "last (x # as) = pr" and "pr \<in> set (x # as)"
      by (simp_all add: pr_def last_of_def)
    then have pre: "pr \<noteq> p" "pr \<noteq> NULL" "x \<noteq> p" "x \<noteq> NULL" "p \<noteq> NULL"
      using d Cons by auto
    have lx: "pr_next s x = first_of (as @ p # ys) NULL"
      "links (pr_next s) (pr_prev s) x (as @ p # ys) NULL"
      using l Cons by (simp_all add: is_proclist_def)
    let ?h = "insert x (set (take (Suc 0) (as @ p # ys)))"
    have k: "lock_if (first_of (as @ p # ys) NULL) (s\<lparr>held := {x}\<rparr>) = Inr (s\<lparr>held := ?h\<rparr>)"
      using d Cons by (cases as) (auto simp: insert_commute)
    have np: "\<And>z. z \<in> set as \<Longrightarrow> z \<noteq> p" using d Cons by auto
    have fi: "find_process_pos (Suc (Suc (length xs + length ys))) p x (first_of (as @ p # ys) NULL)
        (s\<lparr>held := ?h\<rparr>) = Inr (pr, p, s\<lparr>held := {pr, p}\<rparr>)"
      using find_process_pos_ok [of "s\<lparr>held := ?h\<rparr>" "pr_prev s" x "as @ p # ys" x
          "Suc (Suc (length xs + length ys))" p] lx d Cons np
      by (simp add: pr_def takeWhile_append2 dropWhile_append2)
    have fn: "fix_next (x # as) v (pr_next s) = (pr_next s)(pr := v)" for v
      unfolding fix_next_def lst by simp
    have lo: "last_of x as = pr"
      by (simp add: pr_def)
    show ?thesis
    proof (cases ys)
      case Nil
      have hs: "{pr, p} - {pr} - {p} = {}" by auto
      show ?thesis
        using Nil pre h lk fi k lx m
        by (simp add: process_list_remove_ordered_def pl unlink_process_def detach_process_def
            dec_numentries_def fn fix_prev_def hs dll_simps Let_def lo first_of_def [of xs] Cons)
    next
      case c: (Cons y zs)
      have hs: "{y, pr, p} - {pr} - {p} - {y} = {}" and y: "y \<noteq> p" "y \<noteq> pr" "y \<noteq> NULL"
        using c d Cons \<open>pr \<in> set (x # as)\<close> by auto
      then show ?thesis
        using c pre h lk fi k lx m
        by (simp add: process_list_remove_ordered_def pl unlink_process_def detach_process_def
            dec_numentries_def fn fix_prev_def hs dll_simps Let_def lo first_of_def [of xs] Cons)
    qed
  qed
qed

text \<open>
  When the process is not on the list, the walk reaches the end and the function returns
  without releasing the lock of the last process.
\<close>

lemma process_list_remove_ordered_absent:
  assumes wf: "pr_wf s" and sp: "proc_seq s = x # xs" and p: "p \<noteq> NULL" "p \<notin> set (proc_seq s)"
    and h: "held s = {}"
  shows "process_list_remove_ordered p s = Inr (s\<lparr>held := {last_of x xs}\<rparr>)"
proof -
  have l: "is_proclist s (x # xs)" using pr_wfD(1) [OF wf] sp by simp
  have d: "distinct (x # xs)" "NULL \<notin> set (x # xs)"
    using l by (simp_all add: is_proclist_def)
  obtain m where pl: "processes_list s = \<lparr>pl_first = x, pl_last = last_of x xs,
      pl_numentries = m\<rparr>" and m: "unat m = Suc (length xs)"
    using l unat_of_nat_length [OF d] by (simp add: is_proclist_def)
  have lx: "pr_next s x = first_of xs NULL" "links (pr_next s) (pr_prev s) x xs NULL"
    using l by (simp_all add: is_proclist_def)
  let ?h = "insert x (set (take (Suc 0) xs))"
  have k: "lock_if (first_of xs NULL) (s\<lparr>held := {x}\<rparr>) = Inr (s\<lparr>held := ?h\<rparr>)"
    using d by (cases xs) (auto simp: insert_commute)
  have np: "\<And>z. z \<in> set xs \<Longrightarrow> z \<noteq> p" "x \<noteq> p" using p sp by auto
  then have tw: "takeWhile (\<lambda>x. x \<noteq> p) xs = xs" "dropWhile (\<lambda>x. x \<noteq> p) xs = []"
    by (simp_all add: takeWhile_eq_all_conv)
  have "find_process_pos (Suc (Suc (length xs))) p x (first_of xs NULL) (s\<lparr>held := ?h\<rparr>)
      = Inr (last_of x xs, NULL, s\<lparr>held := {last_of x xs}\<rparr>)"
    using find_process_pos_ok [of "s\<lparr>held := ?h\<rparr>" "pr_prev s" x xs x
        "Suc (Suc (length xs))" p] lx d by (simp add: tw)
  then show ?thesis
    using d h np p by (simp add: process_list_remove_ordered_def pl m lx k Let_def)
qed

lemma process_list_remove_empty:
  assumes "pr_wf s" and "proc_seq s = []"
  shows "process_list_remove cfg p s = Inr s"
  using pr_wfD(1) [OF assms(1)] assms(2)
  by (simp add: process_list_remove_def process_list_remove_ordered_def
      process_list_remove_fifo_def is_proclist_def)

section \<open>The plain queue\<close>

lemma enqueue_process_fifo_eq:
  assumes wf: "pr_wf s" and e: "e \<noteq> NULL" "e \<notin> set (proc_seq s)"
  shows "enqueue_process_fifo e s = Inr (link_process [] e (proc_seq s) s)"
proof -
  have l: "is_proclist s (proc_seq s)" using wf by (rule pr_wfD)
  have off: "pr_next s e = NULL" "pr_prev s e = NULL"
    using pr_wfD(2) [OF wf e(2)] by simp_all
  show ?thesis
  proof (cases "proc_seq s")
    case Nil
    then show ?thesis
      using l e off by (simp add: enqueue_process_fifo_def is_proclist_def link_process_def
          fix_next_def fix_prev_def Let_def fun_upd_idem)
  next
    case (Cons x xs)
    then have "x \<noteq> e" "x \<noteq> NULL" using e l by (auto simp: is_proclist_def)
    then show ?thesis
      using l e off Cons by (simp add: enqueue_process_fifo_def is_proclist_def link_process_def
          fix_next_def fix_prev_def Let_def fun_upd_idem)
  qed
qed

lemma process_list_remove_fifo_eq:
  assumes wf: "pr_wf s" and sp: "proc_seq s = xs @ p # ys"
  shows "process_list_remove_fifo p s = Inr (unlink_process xs p ys s)"
proof -
  have l: "is_proclist s (xs @ p # ys)" using pr_wfD(1) [OF wf] sp by simp
  have d: "distinct (xs @ p # ys)" "NULL \<notin> set (xs @ p # ys)"
    using l by (simp_all add: is_proclist_def)
  have lk: "pr_next s p = first_of ys NULL" "pr_prev s p = last_of NULL xs"
    using l by (simp_all add: is_proclist_def links_append)
  obtain n where pl: "processes_list s = \<lparr>pl_first = first_of xs p, pl_last = last_of p ys,
      pl_numentries = n\<rparr>" and num: "n > 0"
    using l of_nat_length_pos [OF d] by (simp add: is_proclist_def dll_simps)
  have fx: "first_of xs p = p \<longleftrightarrow> xs = []"
    using d by (cases xs) auto
  have lx: "last_of p ys = p \<longleftrightarrow> ys = []"
    using d by (cases ys rule: rev_cases) auto
  have nn: "first_of xs p \<noteq> NULL" "p \<noteq> NULL"
    using d by (cases xs; auto)+
  have e: "hd ys \<noteq> NULL \<and> hd ys \<noteq> p" if "ys \<noteq> []"
    using d hd_in_set [OF that] by auto
  have e': "last xs \<noteq> NULL \<and> last xs \<noteq> p" if "xs \<noteq> []"
    using d last_in_set [OF that] by auto
  show ?thesis
    using num nn fx lx e e'
    by (cases "xs = []"; cases "ys = []")
      (simp_all add: process_list_remove_fifo_def unlink_process_def detach_process_def Let_def
        lk pl fix_next_def fix_prev_def dll_simps)
qed

section \<open>The contract of the process list\<close>

locale process_registry =
  fixes seq :: "'s \<Rightarrow> ptr list"
    and idle :: "'s \<Rightarrow> bool"
    and keeps :: "'s \<Rightarrow> 's \<Rightarrow> bool"
    and add :: "ptr \<Rightarrow> 's \<Rightarrow> 's result"
    and rem :: "ptr \<Rightarrow> 's \<Rightarrow> 's result"
  assumes add_ok: "\<lbrakk>idle s; e \<noteq> NULL; e \<notin> set (seq s)\<rbrakk> \<Longrightarrow>
      \<exists>s' xs ys. add e s = Inr s' \<and> idle s' \<and> keeps s s' \<and> seq s = xs @ ys \<and> seq s' = xs @ e # ys"
    and rem_ok: "\<lbrakk>idle s; seq s = xs @ p # ys\<rbrakk> \<Longrightarrow>
      \<exists>s'. rem p s = Inr s' \<and> idle s' \<and> keeps s s' \<and> seq s' = xs @ ys"
    and keeps_trans: "\<lbrakk>keeps s t; keeps t u\<rbrakk> \<Longrightarrow> keeps s u"
begin

lemma add_then_remove:
  assumes "idle s" and "e \<noteq> NULL" and "e \<notin> set (seq s)"
  shows "\<exists>s'. andThen (add e s) (rem e) = Inr s' \<and> idle s' \<and> keeps s s' \<and> seq s' = seq s"
proof -
  obtain t xs ys where t: "add e s = Inr t" "idle t" "keeps s t" "seq s = xs @ ys"
    "seq t = xs @ e # ys"
    using add_ok [OF assms] by blast
  moreover obtain u where "rem e t = Inr u" "idle u" "keeps t u" "seq u = xs @ ys"
    using rem_ok [OF t(2,5)] by blast
  ultimately show ?thesis
    using keeps_trans [of s t u] by auto
qed

lemma add_keeps_others:
  assumes "idle s" and "e \<noteq> NULL" and "e \<notin> set (seq s)"
  shows "\<exists>s'. add e s = Inr s' \<and> idle s' \<and> remove1 e (seq s') = seq s \<and> set (seq s') = insert e (set (seq s))"
proof -
  obtain t xs ys where t: "add e s = Inr t" "idle t" "seq s = xs @ ys" "seq t = xs @ e # ys"
    using add_ok [OF assms] by blast
  then show ?thesis
    using assms(3) by (auto simp: remove1_append)
qed

end

definition pr_idle :: "'z proc_heap_scheme \<Rightarrow> bool" where
  "pr_idle s \<longleftrightarrow> pr_wf s \<and> held s = {}"

lemma proc_link_step_trans: "\<lbrakk>proc_link_step s t; proc_link_step t u\<rbrakk> \<Longrightarrow> proc_link_step s u"
  by (clarsimp simp: proc_link_step_def) blast

lemma held_idem: "held s = {} \<Longrightarrow> s\<lparr>held := {}\<rparr> = s"
  by (cases s) simp

lemma link_process_held [simp]:
  "held (link_process xs e ys s) = held s"
  "held (unlink_process xs e ys s) = held s"
  "proc_link_step s (link_process xs e ys s)"
  "proc_link_step s (unlink_process xs e ys s)"
  by (auto simp: link_process_def unlink_process_def intro: proc_link_stepI)

lemma enqueue_process_ok:
  assumes "pr_idle s" and "e \<noteq> NULL" and "e \<notin> set (proc_seq s)"
  obtains s' xs ys where "enqueue_process cfg e s = Inr s'" "pr_idle s'" "proc_link_step s s'"
    "proc_seq s = xs @ ys" "proc_seq s' = xs @ e # ys"
    "ordered_processes cfg \<Longrightarrow> proc_seq s' = insert_proc s e (proc_seq s)"
    "\<not> ordered_processes cfg \<Longrightarrow> proc_seq s' = e # proc_seq s"
proof (cases "ordered_processes cfg")
  case True
  let ?xs = "takeWhile (before s e) (proc_seq s)" and ?ys = "dropWhile (before s e) (proc_seq s)"
  have "enqueue_process cfg e s = Inr (link_process ?xs e ?ys s)"
    using enqueue_process_ordered_eq [of s e] assms True
    by (simp add: pr_idle_def enqueue_process_def held_idem)
  moreover have sp: "proc_seq s = ?xs @ ?ys" by simp
  ultimately show thesis
    using that [of "link_process ?xs e ?ys s" ?xs ?ys]
      link_process_wf [OF _ sp assms(2,3)] assms(1) True
    by (simp add: pr_idle_def insert_proc_def)
next
  case False
  then show thesis
    using that [of "link_process [] e (proc_seq s) s" "[]" "proc_seq s"]
      enqueue_process_fifo_eq [OF _ assms(2,3)] link_process_wf [OF _ _ assms(2,3), of "[]"] assms(1)
    by (simp add: pr_idle_def enqueue_process_def)
qed

lemma process_list_remove_ok:
  assumes "pr_idle s" and "proc_seq s = xs @ p # ys"
  obtains s' where "process_list_remove cfg p s = Inr s'" "pr_idle s'" "proc_link_step s s'"
    "proc_seq s' = xs @ ys"
  using that [of "unlink_process xs p ys s"] process_list_remove_ordered_eq [OF _ assms(2)]
    process_list_remove_fifo_eq [OF _ assms(2)] unlink_process_wf [OF _ assms(2)] assms(1)
  by (cases "ordered_processes cfg") (simp_all add: pr_idle_def process_list_remove_def held_idem)

interpretation pr: process_registry proc_seq pr_idle proc_link_step
  "enqueue_process cfg" "process_list_remove cfg" for cfg
proof
  fix s :: "'z proc_heap_scheme" and e
  assume "pr_idle s" "e \<noteq> NULL" "e \<notin> set (proc_seq s)"
  then show "\<exists>s' xs ys. enqueue_process cfg e s = Inr s' \<and> pr_idle s' \<and> proc_link_step s s' \<and>
      proc_seq s = xs @ ys \<and> proc_seq s' = xs @ e # ys"
    by (rule enqueue_process_ok [of s e cfg]) blast
next
  fix s :: "'z proc_heap_scheme" and xs p ys
  assume "pr_idle s" "proc_seq s = xs @ p # ys"
  then show "\<exists>s'. process_list_remove cfg p s = Inr s' \<and> pr_idle s' \<and> proc_link_step s s' \<and>
      proc_seq s' = xs @ ys"
    by (rule process_list_remove_ok [of s xs p ys cfg]) blast
qed (rule proc_link_step_trans)

end
