(* ===== verification/Spsc_Ring.thy ===== *)
theory Spsc_Ring
  imports Nemo_Prelude
begin

text \<open>
  The single-producer single-consumer ring buffer of \<open>src/ucm/ds/spsc-ring.c\<close>, which
  carries the hot, cold and free requests from the telemetry and request threads to the
  policy thread. The ring keeps one slot unused to tell full from empty. The theory
  proves that under the well-formedness invariant the ring is a bounded FIFO queue, and
  states that contract as a locale whose client lemmas (draining, sequences of requests)
  are interpreted on the ring.
\<close>

section \<open>The data structure\<close>

record ring_buf_t =
  rb_buffer :: "ptr list"
  rb_head :: u64
  rb_tail :: u64
  rb_capacity :: u64

definition ring_buf_full :: "ring_buf_t \<Rightarrow> bool" where
  "ring_buf_full rbuf =
     (let head = rb_head rbuf + 1;
          head = (if head = rb_capacity rbuf then 0 else head)
      in head = rb_tail rbuf)"

definition ring_buf_empty :: "ring_buf_t \<Rightarrow> bool" where
  "ring_buf_empty rbuf \<longleftrightarrow> \<not> ring_buf_full rbuf \<and> rb_head rbuf = rb_tail rbuf"

definition retreat_pointer :: "ring_buf_t \<Rightarrow> ring_buf_t" where
  "retreat_pointer rbuf =
     (let tail = rb_tail rbuf + 1
      in rbuf\<lparr>rb_tail := (if tail = rb_capacity rbuf then 0 else tail)\<rparr>)"

definition advance_pointer :: "ring_buf_t \<Rightarrow> ring_buf_t" where
  "advance_pointer rbuf =
     (let rbuf = (if ring_buf_full rbuf
                  then let tail = rb_tail rbuf + 1
                       in rbuf\<lparr>rb_tail := (if tail = rb_capacity rbuf then 0 else tail)\<rparr>
                  else rbuf);
          head = rb_head rbuf + 1
      in rbuf\<lparr>rb_head := (if head = rb_capacity rbuf then 0 else head)\<rparr>)"

definition ring_buf_reset :: "ring_buf_t \<Rightarrow> ring_buf_t" where
  "ring_buf_reset rbuf = rbuf\<lparr>rb_head := 0, rb_tail := 0\<rparr>"

text \<open>
  The buffer is the memory the caller allocated (\<open>None\<close> is a null pointer);
  \<open>malloc_ok\<close> is whether the allocation of the ring structure itself succeeds.
\<close>

definition ring_buf_init :: "bool \<Rightarrow> ptr list option \<Rightarrow> u64 \<Rightarrow> ring_buf_t result" where
  "ring_buf_init malloc_ok buffer sz =
     (case buffer of
        None \<Rightarrow> Inl Assert_Fail
      | Some buf \<Rightarrow>
          assertC (sz \<noteq> 0) (
          assertC malloc_ok (
          let rbuf = ring_buf_reset
                \<lparr>rb_buffer = buf, rb_head = 0, rb_tail = 0, rb_capacity = sz\<rparr>
          in assertC (ring_buf_empty rbuf) (Inr rbuf))))"

definition ring_buf_size :: "ring_buf_t \<Rightarrow> u64" where
  "ring_buf_size rbuf =
     (if \<not> ring_buf_full rbuf
      then if rb_head rbuf \<ge> rb_tail rbuf
           then rb_head rbuf - rb_tail rbuf
           else rb_capacity rbuf + rb_head rbuf - rb_tail rbuf
      else rb_capacity rbuf)"

definition ring_buf_capacity :: "ring_buf_t \<Rightarrow> u64" where
  "ring_buf_capacity rbuf = rb_capacity rbuf"

definition ring_store :: "ring_buf_t \<Rightarrow> ptr \<Rightarrow> ring_buf_t result" where
  "ring_store rbuf data =
     check Out_Of_Bounds (unat (rb_head rbuf) < length (rb_buffer rbuf))
       (Inr (rbuf\<lparr>rb_buffer := (rb_buffer rbuf)[unat (rb_head rbuf) := data]\<rparr>))"

definition ring_buf_put :: "ring_buf_t \<Rightarrow> ptr \<Rightarrow> ring_buf_t result" where
  "ring_buf_put rbuf data =
     andThen (ring_store rbuf data) (\<lambda>rbuf. Inr (advance_pointer rbuf))"

definition ring_buf_put2 :: "ring_buf_t \<Rightarrow> ptr \<Rightarrow> (int \<times> ring_buf_t) result" where
  "ring_buf_put2 rbuf data =
     (if \<not> ring_buf_full rbuf
      then andThen (ring_store rbuf data) (\<lambda>rbuf. Inr (0, advance_pointer rbuf))
      else Inr (-1, rbuf))"

definition ring_buf_get :: "ring_buf_t \<Rightarrow> (ptr \<times> ring_buf_t) result" where
  "ring_buf_get rbuf =
     (if \<not> ring_buf_empty rbuf
      then check Out_Of_Bounds (unat (rb_tail rbuf) < length (rb_buffer rbuf))
             (Inr (rb_buffer rbuf ! unat (rb_tail rbuf), retreat_pointer rbuf))
      else Inr (NULL, rbuf))"

section \<open>The invariant and the queue a ring stands for\<close>

abbreviation ring_cap :: "ring_buf_t \<Rightarrow> nat" where
  "ring_cap r \<equiv> unat (rb_capacity r)"

definition ring_wf :: "ring_buf_t \<Rightarrow> bool" where
  "ring_wf r \<longleftrightarrow> 2 \<le> ring_cap r \<and> length (rb_buffer r) = ring_cap r
     \<and> unat (rb_head r) < ring_cap r \<and> unat (rb_tail r) < ring_cap r"

definition ring_count :: "ring_buf_t \<Rightarrow> nat" where
  "ring_count r = (unat (rb_head r) + ring_cap r - unat (rb_tail r)) mod ring_cap r"

definition ring_list :: "ring_buf_t \<Rightarrow> ptr list" where
  "ring_list r =
     map (\<lambda>i. rb_buffer r ! ((unat (rb_tail r) + i) mod ring_cap r)) [0..<ring_count r]"

definition ring_bound :: "ring_buf_t \<Rightarrow> nat" where
  "ring_bound r = ring_cap r - 1"

lemma length_ring_list [simp]: "length (ring_list r) = ring_count r"
  by (simp add: ring_list_def)

text \<open>The wrapping increment of an index is the successor modulo the capacity.\<close>

lemma wrap_succ:
  fixes i c :: u64
  assumes "unat i < unat c"
  shows "unat (if i + 1 = c then 0 else i + 1) = Suc (unat i) mod unat c"
proof -
  have "Suc (unat i) < 2 ^ 64 \<or> Suc (unat i) = 2 ^ 64"
    using unat_u64_less [of i] by auto
  moreover have "unat c < 2 ^ 64"
    by (rule unat_u64_less)
  ultimately have "Suc (unat i) < 2 ^ 64"
    using assms by auto
  then have s: "unat (i + 1) = Suc (unat i)"
    by (simp add: unat_word_ariths)
  show ?thesis
  proof (cases "i + 1 = c")
    case True
    with s show ?thesis by auto
  next
    case False
    then have "unat (i + 1) \<noteq> unat c" by (simp add: word_unat_eq_iff)
    with s assms False show ?thesis by auto
  qed
qed

lemma ring_full_iff:
  assumes "ring_wf r"
  shows "ring_buf_full r \<longleftrightarrow> Suc (unat (rb_head r)) mod ring_cap r = unat (rb_tail r)"
  using wrap_succ [of "rb_head r" "rb_capacity r"] assms
  by (simp add: ring_buf_full_def ring_wf_def Let_def word_unat_eq_iff)

lemma ring_full_count:
  assumes "ring_wf r"
  shows "ring_buf_full r \<longleftrightarrow> ring_count r = ring_bound r"
proof -
  let ?h = "unat (rb_head r)" and ?t = "unat (rb_tail r)" and ?n = "ring_cap r"
  have b: "2 \<le> ?n" "?h < ?n" "?t < ?n"
    using assms by (simp_all add: ring_wf_def)
  have "Suc ?h mod ?n = ?t \<longleftrightarrow> (?h + ?n - ?t) mod ?n = ?n - 1"
  proof (cases "?t \<le> ?h")
    case True
    then have c: "(?h + ?n - ?t) mod ?n = ?h - ?t"
      using b by (simp add: mod_diff_wrap)
    show ?thesis
      using b True by (cases "Suc ?h = ?n") (auto simp: c)
  next
    case False
    then have c: "(?h + ?n - ?t) mod ?n = ?h + ?n - ?t"
      using b by simp
    show ?thesis
      using b False by (cases "Suc ?h = ?n") (auto simp: c)
  qed
  then show ?thesis
    by (simp add: ring_full_iff [OF assms] ring_count_def ring_bound_def)
qed

lemma ring_count_bound:
  assumes "ring_wf r"
  shows "ring_count r \<le> ring_bound r"
proof -
  have "ring_count r < ring_cap r"
    using assms by (simp add: ring_count_def ring_wf_def)
  then show ?thesis by (simp add: ring_bound_def)
qed

lemma ring_count_zero:
  assumes "ring_wf r"
  shows "ring_count r = 0 \<longleftrightarrow> rb_head r = rb_tail r"
proof -
  let ?h = "unat (rb_head r)" and ?t = "unat (rb_tail r)" and ?n = "ring_cap r"
  have b: "2 \<le> ?n" "?h < ?n" "?t < ?n"
    using assms by (simp_all add: ring_wf_def)
  have "(?h + ?n - ?t) mod ?n = 0 \<longleftrightarrow> ?h = ?t"
  proof (cases "?t \<le> ?h")
    case True
    then have "(?h + ?n - ?t) mod ?n = ?h - ?t"
      using b by (simp add: mod_diff_wrap)
    with True show ?thesis by auto
  next
    case False
    with b show ?thesis by simp
  qed
  then show ?thesis by (simp add: ring_count_def word_unat_eq_iff)
qed

lemma ring_empty_iff:
  assumes "ring_wf r"
  shows "ring_buf_empty r \<longleftrightarrow> ring_list r = []"
proof -
  have "ring_bound r \<noteq> 0"
    using assms by (simp add: ring_bound_def ring_wf_def)
  then have "ring_buf_empty r \<longleftrightarrow> ring_count r = 0"
    using ring_full_count [OF assms] ring_count_zero [OF assms]
    by (auto simp: ring_buf_empty_def)
  then show ?thesis by (simp flip: length_0_conv)
qed

section \<open>Each operation on the invariant\<close>

lemma ring_list_nth:
  "i < ring_count r \<Longrightarrow>
   ring_list r ! i = rb_buffer r ! ((unat (rb_tail r) + i) mod ring_cap r)"
  by (simp add: ring_list_def)

lemma ring_list_eqI:
  assumes "length xs = ring_count r"
    and "\<And>i. i < ring_count r \<Longrightarrow>
           rb_buffer r ! ((unat (rb_tail r) + i) mod ring_cap r) = xs ! i"
  shows "ring_list r = xs"
  using assms by (intro nth_equalityI) (simp_all add: ring_list_nth)

lemma ring_count_tail_step:
  assumes wf: "ring_wf r" and ne: "ring_count r \<noteq> 0"
  shows "(unat (rb_head r) + ring_cap r - Suc (unat (rb_tail r)) mod ring_cap r) mod ring_cap r
           = ring_count r - 1"
proof -
  let ?h = "unat (rb_head r)" and ?t = "unat (rb_tail r)" and ?n = "ring_cap r"
  have b: "2 \<le> ?n" "?h < ?n" "?t < ?n" and d: "?h \<noteq> ?t"
    using wf ne ring_count_zero [OF wf] by (simp_all add: ring_wf_def word_unat_eq_iff)
  show ?thesis
  proof (cases "?t \<le> ?h")
    case True
    with d b have "Suc ?t \<le> ?h" "Suc ?t mod ?n = Suc ?t" by simp_all
    with True b show ?thesis by (simp add: ring_count_def mod_diff_wrap)
  next
    case False
    with b show ?thesis
      by (cases "Suc ?t = ?n") (simp_all add: ring_count_def)
  qed
qed

lemma ring_head_slot:
  assumes "ring_wf r"
  shows "(unat (rb_tail r) + ring_count r) mod ring_cap r = unat (rb_head r)"
proof -
  let ?h = "unat (rb_head r)" and ?t = "unat (rb_tail r)" and ?n = "ring_cap r"
  have b: "2 \<le> ?n" "?h < ?n" "?t < ?n"
    using assms by (simp_all add: ring_wf_def)
  have "(?t + (?h + ?n - ?t) mod ?n) mod ?n = (?t + (?h + ?n - ?t)) mod ?n"
    by (simp add: mod_add_right_eq)
  also have "?t + (?h + ?n - ?t) = ?h + ?n"
    using b by simp
  finally show ?thesis
    using b by (simp add: ring_count_def)
qed

lemma ring_slot_neq_head:
  assumes wf: "ring_wf r" and i: "i < ring_count r"
  shows "(unat (rb_tail r) + i) mod ring_cap r \<noteq> unat (rb_head r)"
proof
  let ?t = "unat (rb_tail r)" and ?n = "ring_cap r"
  assume "(?t + i) mod ?n = unat (rb_head r)"
  then have "(?t + i) mod ?n = (?t + ring_count r) mod ?n"
    by (simp add: ring_head_slot [OF wf])
  then have "i mod ?n = ring_count r mod ?n"
    by (simp add: nat_mod_eq_iff)
  moreover have "ring_count r < ?n"
    using wf by (simp add: ring_count_def ring_wf_def)
  ultimately show False
    using i by simp
qed

lemma ring_get_refines:
  assumes wf: "ring_wf r" and l: "ring_list r = x # xs"
  obtains r' where "ring_buf_get r = Inr (x, r')" "ring_wf r'" "ring_list r' = xs"
    "rb_capacity r' = rb_capacity r"
proof -
  let ?n = "ring_cap r" and ?t = "unat (rb_tail r)"
  define r' where "r' = retreat_pointer r"
  have c: "ring_count r = Suc (length xs)"
    using arg_cong [OF l, of length] by simp
  have b: "2 \<le> ?n" "?t < ?n" "length (rb_buffer r) = ?n"
    using wf by (simp_all add: ring_wf_def)
  have t': "unat (rb_tail r') = Suc ?t mod ?n"
    using wrap_succ [of "rb_tail r" "rb_capacity r"] b
    by (simp add: r'_def retreat_pointer_def Let_def)
  have same: "rb_head r' = rb_head r" "rb_buffer r' = rb_buffer r"
    "rb_capacity r' = rb_capacity r"
    by (simp_all add: r'_def retreat_pointer_def Let_def)
  have wf': "ring_wf r'"
    using wf by (simp add: ring_wf_def same t')
  have "ring_count r' = ring_count r - 1"
    using ring_count_tail_step [OF wf] c by (simp add: ring_count_def [of r'] same t')
  then have c': "ring_count r' = length xs"
    using c by simp
  have "ring_list r' = xs"
  proof (rule ring_list_eqI)
    fix i assume i: "i < ring_count r'"
    have "(Suc ?t mod ?n + i) mod ?n = (?t + Suc i) mod ?n"
      by (simp add: mod_add_left_eq)
    moreover have "ring_list r ! Suc i = xs ! i"
      by (simp add: l)
    ultimately show "rb_buffer r' ! ((unat (rb_tail r') + i) mod ring_cap r') = xs ! i"
      using i c c' by (simp add: ring_list_nth same t')
  qed (simp add: c')
  moreover have "rb_buffer r ! ?t = x"
    using ring_list_nth [of 0 r] c l b by simp
  moreover have "\<not> ring_buf_empty r"
    using l by (simp add: ring_empty_iff [OF wf])
  ultimately show thesis
    using that [of r'] b wf' same by (simp add: ring_buf_get_def r'_def)
qed

lemma ring_get_empty:
  assumes "ring_wf r" and "ring_list r = []"
  shows "ring_buf_get r = Inr (NULL, r)"
  using assms by (simp add: ring_buf_get_def ring_empty_iff)

lemma ring_put_refines:
  assumes wf: "ring_wf r" and room: "length (ring_list r) < ring_bound r"
  obtains r' where "ring_buf_put r x = Inr r'" "ring_buf_put2 r x = Inr (0, r')"
    "ring_wf r'" "ring_list r' = ring_list r @ [x]" "rb_capacity r' = rb_capacity r"
proof -
  let ?n = "ring_cap r" and ?h = "unat (rb_head r)"
  define r1 where "r1 = r\<lparr>rb_buffer := (rb_buffer r)[?h := x]\<rparr>"
  define r' where "r' = advance_pointer r1"
  have b: "2 \<le> ?n" "?h < ?n" "unat (rb_tail r) < ?n" "length (rb_buffer r) = ?n"
    using wf by (simp_all add: ring_wf_def)
  have nf: "\<not> ring_buf_full r"
    using room by (simp add: ring_full_count [OF wf])
  then have nf1: "\<not> ring_buf_full r1"
    by (simp add: r1_def ring_buf_full_def)
  have h': "unat (rb_head r') = Suc ?h mod ?n"
    using wrap_succ [of "rb_head r" "rb_capacity r"] b nf1
    by (simp add: r'_def r1_def advance_pointer_def Let_def split: if_splits)
  have same: "rb_tail r' = rb_tail r" "rb_buffer r' = (rb_buffer r)[?h := x]"
    "rb_capacity r' = rb_capacity r"
    using nf1 by (simp_all add: r'_def r1_def advance_pointer_def Let_def)
  have wf': "ring_wf r'"
    using wf by (simp add: ring_wf_def same h')
  have "Suc (ring_count r) mod ?n = Suc (ring_count r)"
    using room by (simp add: ring_bound_def)
  moreover have e1: "Suc ?h mod ?n + ?n - unat (rb_tail r)
      = Suc ?h mod ?n + (?n - unat (rb_tail r))"
    and e2: "Suc (?h + ?n - unat (rb_tail r)) = Suc ?h + (?n - unat (rb_tail r))"
    using b by simp_all
  have "(Suc ?h mod ?n + ?n - unat (rb_tail r)) mod ?n
      = Suc (?h + ?n - unat (rb_tail r)) mod ?n"
    by (simp only: e1 e2 mod_add_left_eq)
  then have "ring_count r' = Suc (ring_count r) mod ?n"
    by (simp add: ring_count_def same h' mod_Suc_eq)
  ultimately have c': "ring_count r' = Suc (ring_count r)"
    by simp
  have "ring_list r' = ring_list r @ [x]"
  proof (rule ring_list_eqI)
    fix i assume "i < ring_count r'"
    then consider "i < ring_count r" | "i = ring_count r"
      using c' by force
    then show "rb_buffer r' ! ((unat (rb_tail r') + i) mod ring_cap r')
        = (ring_list r @ [x]) ! i"
      using b by cases
        (simp_all add: same nth_append ring_list_nth ring_slot_neq_head [OF wf, symmetric]
           ring_head_slot [OF wf])
  qed (simp add: c')
  then show thesis
    using that [of r'] b wf' same nf
    by (simp add: ring_buf_put_def ring_buf_put2_def ring_store_def r'_def r1_def)
qed

lemma ring_buffer_frame [simp]:
  "ring_buf_full (r\<lparr>rb_buffer := b\<rparr>) = ring_buf_full r"
  "retreat_pointer (r\<lparr>rb_buffer := b\<rparr>) = (retreat_pointer r)\<lparr>rb_buffer := b\<rparr>"
  "rb_buffer (retreat_pointer r) = rb_buffer r"
  "rb_head (retreat_pointer r) = rb_head r"
  by (simp_all add: ring_buf_full_def retreat_pointer_def Let_def)

lemma advance_pointer_retreat:
  assumes "ring_buf_full r" and "\<not> ring_buf_full (retreat_pointer r)"
  shows "advance_pointer r = advance_pointer (retreat_pointer r)"
proof -
  have "advance_pointer r = (let r' = retreat_pointer r; h = rb_head r' + 1
      in r'\<lparr>rb_head := (if h = rb_capacity r' then 0 else h)\<rparr>)"
    using assms(1) by (simp add: advance_pointer_def retreat_pointer_def Let_def)
  moreover have "advance_pointer (retreat_pointer r) = (let r' = retreat_pointer r; h = rb_head r' + 1
      in r'\<lparr>rb_head := (if h = rb_capacity r' then 0 else h)\<rparr>)"
    using assms(2) by (simp only: advance_pointer_def Let_def if_False)
  ultimately show ?thesis by simp
qed

text \<open>
  A put into a full ring is not refused: \<open>ring_buf_put\<close> overwrites, and the oldest
  element is lost. \<open>ring_buf_put2\<close> refuses.
\<close>

lemma ring_put_full:
  assumes wf: "ring_wf r" and full: "length (ring_list r) = ring_bound r"
  obtains r' where "ring_buf_put r x = Inr r'" "ring_buf_put2 r x = Inr (-1, r)"
    "ring_wf r'" "ring_list r' = tl (ring_list r) @ [x]" "rb_capacity r' = rb_capacity r"
proof -
  obtain y ys where l: "ring_list r = y # ys"
    using full wf by (cases "ring_list r") (simp_all add: ring_bound_def ring_wf_def)
  obtain r0 where g: "ring_buf_get r = Inr (y, r0)" and wf0: "ring_wf r0"
    and l0: "ring_list r0 = ys" and c0: "rb_capacity r0 = rb_capacity r"
    using ring_get_refines [OF wf l] by blast
  have r0: "r0 = retreat_pointer r"
    using g l wf by (simp add: ring_buf_get_def ring_empty_iff check_def split: if_splits)
  have "length (ring_list r0) < ring_bound r0"
    using full l l0 c0 by (simp add: ring_bound_def)
  then obtain r' where p: "ring_buf_put r0 x = Inr r'" and wf': "ring_wf r'"
    and l': "ring_list r' = ring_list r0 @ [x]" and c': "rb_capacity r' = rb_capacity r0"
    using ring_put_refines [OF wf0] by blast
  have f: "ring_buf_full r"
    using full by (simp add: ring_full_count [OF wf])
  have nf0: "\<not> ring_buf_full r0"
    using \<open>length (ring_list r0) < ring_bound r0\<close> by (simp add: ring_full_count [OF wf0])
  have "ring_buf_put r x = ring_buf_put r0 x"
    using f nf0 unfolding r0
    by (simp add: ring_buf_put_def ring_store_def check_def advance_pointer_retreat)
  then show thesis
    using that [of r'] p wf' l' l0 l c' c0 f by (simp add: ring_buf_put2_def)
qed

lemma ring_init_refines:
  assumes "2 \<le> unat n" and "length buf = unat n"
  obtains r where "ring_buf_init True (Some buf) n = Inr r" "ring_wf r" "ring_list r = []"
    "rb_capacity r = n"
proof -
  define r where "r = \<lparr>rb_buffer = buf, rb_head = 0, rb_tail = 0, rb_capacity = n\<rparr>"
  have wf: "ring_wf r"
    using assms by (simp add: ring_wf_def r_def)
  have l: "ring_list r = []"
    by (simp add: ring_list_def ring_count_def r_def)
  have "n \<noteq> 0"
    using assms by auto
  moreover have "ring_buf_reset r = r"
    by (simp add: ring_buf_reset_def r_def)
  ultimately have "ring_buf_init True (Some buf) n = Inr r"
    using wf l by (simp add: ring_buf_init_def Let_def ring_empty_iff flip: r_def)
  then show thesis
    using that [of r] wf l by (simp add: r_def)
qed

lemma ring_init_capacity_one: "ring_buf_init True (Some [x]) 1 = Inl Assert_Fail"
  by (simp add: ring_buf_init_def ring_buf_reset_def ring_buf_empty_def ring_buf_full_def)

lemma ring_size_count:
  assumes "ring_wf r"
  shows "unat (ring_buf_size r) =
           (if ring_buf_full r then ring_cap r else length (ring_list r))"
proof -
  let ?h = "unat (rb_head r)" and ?t = "unat (rb_tail r)" and ?n = "ring_cap r"
  have b: "2 \<le> ?n" "?h < ?n" "?t < ?n"
    using assms by (simp_all add: ring_wf_def)
  show ?thesis
  proof (cases "rb_tail r \<le> rb_head r")
    case True
    then have le: "?t \<le> ?h" by (simp add: word_le_nat_alt)
    with True b show ?thesis
      by (simp add: ring_buf_size_def ring_count_def mod_diff_wrap unat_sub)
  next
    case False
    then have lt: "?h < ?t" by (simp add: word_le_nat_alt)
    have "unat (rb_capacity r - rb_tail r) = ?n - ?t"
      using b by (intro unat_sub) (simp add: word_le_nat_alt)
    moreover have "rb_capacity r + rb_head r - rb_tail r
        = rb_head r + (rb_capacity r - rb_tail r)"
      by simp
    ultimately have "unat (rb_capacity r + rb_head r - rb_tail r) = (?h + (?n - ?t)) mod 2 ^ 64"
      by (simp only: unat_word_ariths) simp
    also have "\<dots> = ?h + (?n - ?t)"
      using b lt unat_u64_less [of "rb_capacity r"] by simp
    finally show ?thesis
      using False b lt by (simp add: ring_buf_size_def ring_count_def)
  qed
qed

section \<open>The interface: a bounded FIFO queue\<close>

locale bounded_fifo =
  fixes put :: "'q \<Rightarrow> ptr \<Rightarrow> 'q result"
    and get :: "'q \<Rightarrow> (ptr \<times> 'q) result"
    and is_empty :: "'q \<Rightarrow> bool"
    and is_full :: "'q \<Rightarrow> bool"
    and elems :: "'q \<Rightarrow> ptr list"
    and bound :: "'q \<Rightarrow> nat"
    and invar :: "'q \<Rightarrow> bool"
  assumes empty_law: "invar q \<Longrightarrow> is_empty q \<longleftrightarrow> elems q = []"
    and full_law: "invar q \<Longrightarrow> is_full q \<longleftrightarrow> length (elems q) = bound q"
    and bound_law: "invar q \<Longrightarrow> length (elems q) \<le> bound q"
    and put_law: "invar q \<Longrightarrow> length (elems q) < bound q \<Longrightarrow>
      \<exists>q'. put q x = Inr q' \<and> invar q' \<and> elems q' = elems q @ [x] \<and> bound q' = bound q"
    and get_law: "invar q \<Longrightarrow> elems q = x # xs \<Longrightarrow>
      \<exists>q'. get q = Inr (x, q') \<and> invar q' \<and> elems q' = xs \<and> bound q' = bound q"

text \<open>
  The two ways the clients use a queue: a producer that puts requests one after another,
  and the consumer loop \<open>while (!ring_buf_empty(r)) x = ring_buf_get(r)\<close> of the drain
  functions of \<open>mm-async.c\<close>, with a bound on the number of iterations.
\<close>

fun put_all :: "('q \<Rightarrow> ptr \<Rightarrow> 'q result) \<Rightarrow> ptr list \<Rightarrow> 'q \<Rightarrow> 'q result" where
  "put_all put [] q = Inr q"
| "put_all put (x # xs) q = andThen (put q x) (put_all put xs)"

fun drain ::
  "('q \<Rightarrow> (ptr \<times> 'q) result) \<Rightarrow> ('q \<Rightarrow> bool) \<Rightarrow> nat \<Rightarrow> 'q \<Rightarrow> (ptr list \<times> 'q) result" where
  "drain get is_empty 0 q = Inr ([], q)"
| "drain get is_empty (Suc n) q =
     (if is_empty q then Inr ([], q)
      else andThen (get q) (\<lambda>(x, q).
             andThen (drain get is_empty n q) (\<lambda>(xs, q). Inr (x # xs, q))))"

context bounded_fifo
begin

lemma put_all_elems:
  assumes "invar q" and "length (elems q) + length xs \<le> bound q"
  shows "\<exists>q'. put_all put xs q = Inr q' \<and> invar q' \<and> elems q' = elems q @ xs
            \<and> bound q' = bound q"
  using assms
proof (induction xs arbitrary: q)
  case Nil
  then show ?case by simp
next
  case (Cons x xs)
  then have "length (elems q) < bound q" by simp
  then obtain q1 where q1: "put q x = Inr q1" "invar q1" "elems q1 = elems q @ [x]"
    "bound q1 = bound q"
    using put_law Cons.prems(1) by blast
  then show ?case
    using Cons.IH [of q1] Cons.prems(2) by simp
qed

lemma drain_elems:
  assumes "invar q" and "length (elems q) \<le> n"
  shows "\<exists>q'. drain get is_empty n q = Inr (elems q, q') \<and> invar q' \<and> elems q' = []
            \<and> bound q' = bound q"
  using assms
proof (induction n arbitrary: q)
  case 0
  then show ?case by simp
next
  case (Suc n)
  show ?case
  proof (cases "elems q")
    case Nil
    with Suc.prems show ?thesis by (simp add: empty_law)
  next
    case (Cons x xs)
    then obtain q1 where q1: "get q = Inr (x, q1)" "invar q1" "elems q1 = xs"
      "bound q1 = bound q"
      using get_law Suc.prems(1) by blast
    then show ?thesis
      using Suc.IH [of q1] Suc.prems Cons by (auto simp: empty_law)
  qed
qed

lemma put_then_drain:
  assumes "invar q" and "length (elems q) + length xs \<le> bound q"
  shows "\<exists>q1 q2. put_all put xs q = Inr q1
           \<and> drain get is_empty (bound q) q1 = Inr (elems q @ xs, q2)
           \<and> invar q2 \<and> is_empty q2"
proof -
  obtain q1 where q1: "put_all put xs q = Inr q1" "invar q1" "elems q1 = elems q @ xs"
    using put_all_elems [OF assms] by blast
  moreover obtain q2 where "drain get is_empty (bound q) q1 = Inr (elems q1, q2)"
    "invar q2" "elems q2 = []"
    using drain_elems [of q1 "bound q"] q1 assms by auto
  ultimately show ?thesis
    by (auto simp: empty_law)
qed

end

interpretation ring: bounded_fifo ring_buf_put ring_buf_get ring_buf_empty ring_buf_full
  ring_list ring_bound ring_wf
proof
  fix q x xs
  assume wf: "ring_wf q"
  show "ring_buf_empty q \<longleftrightarrow> ring_list q = []"
    by (rule ring_empty_iff [OF wf])
  show "ring_buf_full q \<longleftrightarrow> length (ring_list q) = ring_bound q"
    by (simp add: ring_full_count [OF wf])
  show "length (ring_list q) \<le> ring_bound q"
    by (simp add: ring_count_bound [OF wf])
  show "\<exists>q'. ring_buf_put q x = Inr q' \<and> ring_wf q' \<and> ring_list q' = ring_list q @ [x]
          \<and> ring_bound q' = ring_bound q"
    if "length (ring_list q) < ring_bound q"
    by (rule ring_put_refines [OF wf that, of x]) (auto simp: ring_bound_def)
  show "\<exists>q'. ring_buf_get q = Inr (x, q') \<and> ring_wf q' \<and> ring_list q' = xs
          \<and> ring_bound q' = ring_bound q"
    if "ring_list q = x # xs"
    by (rule ring_get_refines [OF wf that]) (auto simp: ring_bound_def)
qed

end
