(* ===== verification/Ucm_State.thy ===== *)
theory Ucm_State
  imports Process_Fifo Spsc_Ring
begin

text \<open>
  The state of the user-level memory manager (\<open>src/ucm\<close>): the pages, the processes with
  their per-process memory management and policy state, the hash tables that find them,
  and the global counters. The record extends the list heaps of \<open>Page_Fifo\<close> and
  \<open>Process_Fifo\<close>; the link fields, the process locks and the target miss ratios live
  there.

  Pages are allocated once, when the free lists are set up, and are never freed, so the
  page heap is a total function. A process is freed when it is removed; a freed process
  is \<open>None\<close> and using it is the fault \<open>Dangling\<close>.
\<close>

section \<open>Hash tables\<close>

text \<open>
  The tables of \<open>uthash\<close> are intrusive: an element carries its handle, and the handle
  points at the key field inside the element. An entry of the model holds the key at the
  time of insertion, which decides the bucket, and the element; a lookup finds the newest
  entry of the bucket whose element still has the key. Adding an element twice and
  deleting an element that is not in the table corrupt the table.
\<close>

type_synonym 'k htab = "('k \<times> ptr) list"

definition HASH_FIND :: "(ptr \<Rightarrow> 'k) \<Rightarrow> 'k htab \<Rightarrow> 'k \<Rightarrow> ptr" where
  "HASH_FIND key_of t k =
     (case find (\<lambda>(k', e). k' = k \<and> key_of e = k) t of None \<Rightarrow> NULL | Some (_, e) \<Rightarrow> e)"

definition HASH_ADD :: "'k \<Rightarrow> ptr \<Rightarrow> 'k htab \<Rightarrow> 'k htab result" where
  "HASH_ADD k e t = check Undefined (e \<notin> snd ` set t) (Inr ((k, e) # t))"

definition HASH_DELETE :: "ptr \<Rightarrow> 'k htab \<Rightarrow> 'k htab result" where
  "HASH_DELETE e t =
     check Undefined (e \<in> snd ` set t) (Inr (filter (\<lambda>(k, e'). e' \<noteq> e) t))"

section \<open>Pages\<close>

record pa_proc_map_entry =
  ppe_pa :: u64
  ppe_proc :: ptr
  ppe_used :: bool

record hemem_page =
  va :: u64
  pg_pid :: int
  devdax_offset :: u64
  in_dram :: bool
  pg_uffd :: int
  pt :: pagetypes
  migrating :: bool
  migration_uffd_unmap_pending :: bool
  map_fixed_uffd_unmap_pending :: bool
  present :: bool
  hot :: nat
  migrations_up :: u64
  migrations_down :: u64
  last_migrated_epoch :: u64
  migration_access_comp :: u64
  local_clock :: "pbuftype \<Rightarrow> u64"
  ring_present :: bool
  in_free_ring :: bool
  accesses :: "pbuftype \<Rightarrow> u64"
  tot_accesses :: "pbuftype \<Rightarrow> u64"
  subpage_skewness :: "u32 list"
  pa_proc_entry :: pa_proc_map_entry
  remap_lock :: bool

definition N_BASEPAGES_IN_HUGEPAGE :: nat where "N_BASEPAGES_IN_HUGEPAGE = 512"

definition zero_entry :: pa_proc_map_entry where
  "zero_entry = \<lparr>ppe_pa = 0, ppe_proc = NULL, ppe_used = False\<rparr>"

text \<open>\<open>calloc\<close> gives zeroes, then three fields are set.\<close>

definition hemem_page_alloc :: hemem_page where
  "hemem_page_alloc =
     \<lparr>va = 0, pg_pid = -1, devdax_offset = -1, in_dram = False, pg_uffd = 0, pt = HUGEP,
      migrating = False, migration_uffd_unmap_pending = False,
      map_fixed_uffd_unmap_pending = False, present = False, hot = 0, migrations_up = 0,
      migrations_down = 0, last_migrated_epoch = 0, migration_access_comp = 0,
      local_clock = (\<lambda>_. 0), ring_present = False, in_free_ring = False,
      accesses = (\<lambda>_. 0), tot_accesses = (\<lambda>_. 0),
      subpage_skewness = replicate N_BASEPAGES_IN_HUGEPAGE 0,
      pa_proc_entry = zero_entry, remap_lock = False\<rparr>"

section \<open>Processes\<close>

record process_mem =
  mem_allocated :: u64
  current_fastmem :: u64
  current_slowmem :: u64
  max_fastmem :: u64
  cur_cool_in_fastmem_list :: nat
  cur_cool_in_slowmem_list :: nat
  cur_cool_in_fastmem :: ptr
  cur_cool_in_slowmem :: ptr
  epoch_did_cool :: bool
  need_cool_fastmem :: bool
  need_cool_slowmem :: bool
  cools :: u64
  hot_ring :: ring_buf_t
  cold_ring :: ring_buf_t
  free_page_ring :: ring_buf_t
  pages_table :: "u64 htab"
  cxl_offset_to_page :: "u64 htab"

record process_policy =
  access_count :: "pbuftype \<Rightarrow> u64"
  sample_count :: "nat \<Rightarrow> u64"
  current_miss_ratio :: double
  fastmem_delta :: int
  deviation_ratio :: double
  migration_up_bytes :: u64
  migration_down_bytes :: u64

record process_stats =
  miss_faults :: u64
  miss_but_allocated_faults :: u64
  up_count :: u64
  down_count :: u64
  wp_wait_count :: u64
  wp_wait_us :: u64
  unknown_page_count :: u64

record hemem_process =
  pid :: int
  uffd :: int
  exited :: bool
  valid_uffd :: bool
  remap_fd :: int
  zero_pages :: bool
  still_migrating :: bool
  process_clock :: "pbuftype \<Rightarrow> u64"
  mm :: process_mem
  policy :: process_policy
  pstats :: process_stats

section \<open>Global state\<close>

record ucm_stats =
  st_mem_allocated :: u64
  st_pages_allocated :: u64
  st_pages_freed :: u64
  st_memsets :: u64
  st_wp_faults_handled :: u64
  st_missing_faults_handled :: u64
  st_migration_waits :: u64
  st_migrations_up :: u64
  st_migrations_down :: u64
  st_bytes_migrated :: u64

record pebs_stats =
  total_samples_cnt :: u64
  non_hemem_proc_samples_cnt :: u64
  non_hemem_page_samples_cnt :: u64
  valid_samples_cnt :: u64
  cxl_samples_cnt :: u64
  zero_pages_cnt :: u64
  throttle_cnt :: u64
  unthrottle_cnt :: u64
  lost_samples :: u64

datatype physmem_mode = USE_DAX | USE_SHM

text \<open>
  \<open>ucm_mem\<close> is the memory of the two tiers as the manager's address space maps it, from
  \<open>fastmem_ptr\<close> and \<open>slowmem_ptr\<close> on.
\<close>

record ucm_state = proc_heap +
  pages :: "ptr \<Rightarrow> hemem_page"
  procs :: "ptr \<Rightarrow> hemem_process option"
  pa_to_proc_map :: "u64 htab"
  proc_map :: "int htab"
  stats :: ucm_stats
  cools_started :: "pbuftype \<Rightarrow> u64"
  cools_completed :: "pbuftype \<Rightarrow> u64"
  free_ring_requests :: u64
  hot_ring_requests :: u64
  cold_ring_requests :: u64
  free_ring_requests_handled :: u64
  hot_ring_requests_handled :: u64
  cold_ring_requests_handled :: u64
  scan_epoch :: u64
  cxl_unknown_proc_sample_cnt :: u64
  g_pebs_stats :: pebs_stats
  physmem_mode :: physmem_mode
  fastmem_sz :: u64
  slowmem_sz :: u64
  fastmem_ptr :: u64
  slowmem_ptr :: u64
  ucm_mem :: "u64 \<Rightarrow> 8 word"

section \<open>Access to the heap\<close>

definition upd_page :: "ptr \<Rightarrow> (hemem_page \<Rightarrow> hemem_page) \<Rightarrow> ucm_state \<Rightarrow> ucm_state" where
  "upd_page p f s = s\<lparr>pages := (pages s)(p := f (pages s p))\<rparr>"

definition get_proc :: "ptr \<Rightarrow> ucm_state \<Rightarrow> hemem_process result" where
  "get_proc p s = (case procs s p of None \<Rightarrow> Inl Dangling | Some pr \<Rightarrow> Inr pr)"

definition upd_proc :: "ptr \<Rightarrow> (hemem_process \<Rightarrow> hemem_process) \<Rightarrow> ucm_state \<Rightarrow> ucm_state result" where
  "upd_proc p f s =
     andThen (get_proc p s) (\<lambda>pr. Inr (s\<lparr>procs := (procs s)(p := Some (f pr))\<rparr>))"

abbreviation upd_mm :: "ptr \<Rightarrow> (process_mem \<Rightarrow> process_mem) \<Rightarrow> ucm_state \<Rightarrow> ucm_state result" where
  "upd_mm p f \<equiv> upd_proc p (mm_update f)"

abbreviation upd_policy :: "ptr \<Rightarrow> (process_policy \<Rightarrow> process_policy) \<Rightarrow> ucm_state \<Rightarrow> ucm_state result" where
  "upd_policy p f \<equiv> upd_proc p (policy_update f)"

text \<open>The level lists of a process; level \<open>NUM_HOTNESS_LEVELS\<close> is in the array but unused.\<close>

definition bin :: "bool \<Rightarrow> ptr \<Rightarrow> nat \<Rightarrow> list_id" where
  "bin fastmem p i = (if fastmem then Fastmem_Bin p i else Slowmem_Bin p i)"

abbreviation fastmem_lists :: "ptr \<Rightarrow> nat \<Rightarrow> list_id" where
  "fastmem_lists \<equiv> Fastmem_Bin"

abbreviation slowmem_lists :: "ptr \<Rightarrow> nat \<Rightarrow> list_id" where
  "slowmem_lists \<equiv> Slowmem_Bin"

text \<open>Shifting a 64-bit number by 64 or more is undefined.\<close>

definition shiftr_c :: "u64 \<Rightarrow> u64 \<Rightarrow> u64 result" where
  "shiftr_c x n = check Undefined (n < 64) (Inr (drop_bit (unat n) x))"

section \<open>Rules\<close>

lemma get_proc_simps [simp]:
  "procs s p = Some pr \<Longrightarrow> get_proc p s = Inr pr"
  "procs s p = None \<Longrightarrow> get_proc p s = Inl Dangling"
  by (simp_all add: get_proc_def)

lemma upd_proc_simps [simp]:
  "procs s p = Some pr \<Longrightarrow> upd_proc p f s = Inr (s\<lparr>procs := (procs s)(p \<mapsto> f pr)\<rparr>)"
  "procs s p = None \<Longrightarrow> upd_proc p f s = Inl Dangling"
  by (simp_all add: upd_proc_def)

lemma upd_page_simps [simp]:
  "pages (upd_page p f s) = (pages s)(p := f (pages s p))"
  "procs (upd_page p f s) = procs s"
  "pg_next (upd_page p f s) = pg_next s"
  "pg_prev (upd_page p f s) = pg_prev s"
  "pg_list (upd_page p f s) = pg_list s"
  "plists (upd_page p f s) = plists s"
  "page_seq (upd_page p f s) = page_seq s"
  "pl_wf (upd_page p f s) = pl_wf s"
  by (simp_all add: upd_page_def fun_eq_iff page_seq_def pl_wf_def is_plist_def)

lemma page_seq_frame [simp]:
  "page_seq (s\<lparr>pages := pgs\<rparr>) = page_seq s"
  "page_seq (s\<lparr>procs := prs\<rparr>) = page_seq s"
  "pl_wf (s\<lparr>pages := pgs\<rparr>) = pl_wf s"
  "pl_wf (s\<lparr>procs := prs\<rparr>) = pl_wf s"
  by (simp_all add: fun_eq_iff page_seq_def pl_wf_def is_plist_def)

text \<open>A step on the page lists keeps every other part of the state.\<close>

lemma link_step_frame:
  fixes s s' :: ucm_state
  assumes "link_step s s'"
  shows "pages s' = pages s" and "procs s' = procs s" and "pa_to_proc_map s' = pa_to_proc_map s"
    and "proc_map s' = proc_map s" and "stats s' = stats s" and "scan_epoch s' = scan_epoch s"
    and "ucm_mem s' = ucm_mem s" and "held s' = held s" and "processes_list s' = processes_list s"
    and "fastmem_sz s' = fastmem_sz s" and "slowmem_sz s' = slowmem_sz s"
    and "fastmem_ptr s' = fastmem_ptr s" and "slowmem_ptr s' = slowmem_ptr s"
  using assms by (auto simp: link_step_def)

lemma HASH_FIND_simps [simp]:
  "HASH_FIND key_of [] k = NULL"
  "HASH_FIND key_of ((k', e) # t) k =
     (if k' = k \<and> key_of e = k then e else HASH_FIND key_of t k)"
  by (auto simp: HASH_FIND_def)

lemma HASH_FIND_mem:
  "HASH_FIND key_of t k \<noteq> NULL \<Longrightarrow>
     (k, HASH_FIND key_of t k) \<in> set t \<and> key_of (HASH_FIND key_of t k) = k"
proof (induction t)
  case (Cons x t)
  then show ?case by (cases x) (auto split: if_splits)
qed simp

end
