(* ===== verification/Mm_Requests.thy ===== *)
theory Mm_Requests
  imports Ucm_State
begin

text \<open>
  The producer half of \<open>src/ucm/mm-async.c\<close>: the requests the telemetry and request
  threads hand to the policy thread. A page marked hot or cold goes through the hot or
  cold ring, at most once at a time (the flag \<open>ring_present\<close>); a page to free goes through
  the free ring (the flag \<open>in_free_ring\<close>); a request to cool a tier advances the clock of
  the process.
\<close>

section \<open>Cooling requests\<close>

definition proc_cool_slowmem_async :: "ptr \<Rightarrow> bool \<Rightarrow> ucm_state \<Rightarrow> ucm_state result" where
  "proc_cool_slowmem_async proc force s =
     andThen (get_proc proc s) (\<lambda>pr.
     if force \<or> \<not> need_cool_slowmem (mm pr)
     then andThen (upd_proc proc (\<lambda>pr. pr\<lparr>
            process_clock := (process_clock pr)(SLOWMEM := process_clock pr SLOWMEM + 1),
            mm := (mm pr)\<lparr>need_cool_slowmem := True, cools := cools (mm pr) + 1\<rparr>\<rparr>) s)
          (\<lambda>s. Inr (s\<lparr>cools_started :=
             (cools_started s)(SLOWMEM := cools_started s SLOWMEM + 1)\<rparr>))
     else Inr s)"

definition mm_request_soft_cool_slowmem :: "ptr \<Rightarrow> ucm_state \<Rightarrow> ucm_state result" where
  "mm_request_soft_cool_slowmem proc s = proc_cool_slowmem_async proc False s"

definition mm_request_cool_slowmem :: "ptr \<Rightarrow> ucm_state \<Rightarrow> ucm_state result" where
  "mm_request_cool_slowmem proc s = proc_cool_slowmem_async proc True s"

definition proc_cool_fastmem_async :: "ptr \<Rightarrow> bool \<Rightarrow> ucm_state \<Rightarrow> ucm_state result" where
  "proc_cool_fastmem_async proc force s =
     andThen (get_proc proc s) (\<lambda>pr.
     if force \<or> \<not> need_cool_fastmem (mm pr)
     then andThen (upd_proc proc (\<lambda>pr. pr\<lparr>
            process_clock := (process_clock pr)(FASTMEM := process_clock pr FASTMEM + 1),
            mm := (mm pr)\<lparr>need_cool_fastmem := True, cools := cools (mm pr) + 1\<rparr>\<rparr>) s)
          (\<lambda>s. Inr (s\<lparr>cools_started :=
             (cools_started s)(FASTMEM := cools_started s FASTMEM + 1)\<rparr>))
     else Inr s)"

definition mm_request_soft_cool_fastmem :: "ptr \<Rightarrow> ucm_state \<Rightarrow> ucm_state result" where
  "mm_request_soft_cool_fastmem proc s = proc_cool_fastmem_async proc False s"

definition mm_request_cool_fastmem :: "ptr \<Rightarrow> ucm_state \<Rightarrow> ucm_state result" where
  "mm_request_cool_fastmem proc s = proc_cool_fastmem_async proc True s"

section \<open>Hot and cold requests\<close>

definition mm_mark_page_hot_async :: "ptr \<Rightarrow> ptr \<Rightarrow> ucm_state \<Rightarrow> (bool \<times> ucm_state) result" where
  "mm_mark_page_hot_async process page s =
     (if ring_present (pages s page) then Inr (False, s)
      else let s = upd_page page (ring_present_update (\<lambda>_. True)) s
           in andThen (get_proc process s) (\<lambda>pr.
              andThen (ring_buf_put (hot_ring (mm pr)) page) (\<lambda>ring.
              andThen (upd_mm process (hot_ring_update (\<lambda>_. ring)) s) (\<lambda>s.
              Inr (True, s\<lparr>hot_ring_requests := hot_ring_requests s + 1\<rparr>)))))"

definition mm_mark_page_cold_async :: "ptr \<Rightarrow> ptr \<Rightarrow> ucm_state \<Rightarrow> (bool \<times> ucm_state) result" where
  "mm_mark_page_cold_async process page s =
     (if ring_present (pages s page) then Inr (False, s)
      else let s = upd_page page (ring_present_update (\<lambda>_. True)) s
           in andThen (get_proc process s) (\<lambda>pr.
              andThen (ring_buf_put (cold_ring (mm pr)) page) (\<lambda>ring.
              andThen (upd_mm process (cold_ring_update (\<lambda>_. ring)) s) (\<lambda>s.
              Inr (True, s\<lparr>cold_ring_requests := cold_ring_requests s + 1\<rparr>)))))"

section \<open>Free requests\<close>

text \<open>
  The producer spins while the ring is full; only the policy thread can end that wait, so
  in a sequential execution a full ring is a deadlock.
\<close>

definition mm_internal_enqueue_page_removal :: "ptr \<Rightarrow> ptr \<Rightarrow> ucm_state \<Rightarrow> ucm_state result" where
  "mm_internal_enqueue_page_removal process page s =
     assertC (page \<noteq> NULL) (
     if in_free_ring (pages s page) then Inr s
     else let s = upd_page page (in_free_ring_update (\<lambda>_. True)) s
          in andThen (get_proc process s) (\<lambda>pr.
             check Deadlock (\<not> ring_buf_full (free_page_ring (mm pr))) (
             andThen (ring_buf_put (free_page_ring (mm pr)) page) (\<lambda>ring.
             andThen (upd_mm process (free_page_ring_update (\<lambda>_. ring)) s) (\<lambda>s.
             Inr (s\<lparr>free_ring_requests := free_ring_requests s + 1\<rparr>))))))"

end
