(* ===== verification/Mm.thy ===== *)
theory Mm
  imports Mm_Requests
begin

text \<open>
  Memory management: the map from slow-tier addresses to processes
  (\<open>src/ucm/ds/pa-proc-map.c\<close>), the per-process page tables and the global free lists
  (\<open>src/ucm/mm.c\<close>), the address translation of \<open>src/ucm/physmem/physmem.c\<close>, the memory
  operations of \<open>src/ucm/support/memops.c\<close> and the counters of \<open>src/ucm/stats/stats.c\<close>.
\<close>

section \<open>From slow-tier addresses to processes\<close>

definition pa_key :: "ucm_state \<Rightarrow> ptr \<Rightarrow> u64" where
  "pa_key s page = ppe_pa (pa_proc_entry (pages s page))"

definition pa_proc_map_add :: "ptr \<Rightarrow> ptr \<Rightarrow> ucm_state \<Rightarrow> ucm_state result" where
  "pa_proc_map_add page proc s =
     assertC (page \<noteq> NULL) (
     assertC (proc \<noteq> NULL) (
     assertC (\<not> in_dram (pages s page)) (
     assertC (\<not> ppe_used (pa_proc_entry (pages s page))) (
     let s = upd_page page (\<lambda>p. p\<lparr>pa_proc_entry :=
               \<lparr>ppe_pa = devdax_offset p, ppe_proc = proc, ppe_used = True\<rparr>\<rparr>) s
     in andThen (HASH_ADD (pa_key s page) page (pa_to_proc_map s)) (\<lambda>t.
        Inr (s\<lparr>pa_to_proc_map := t\<rparr>))))))"

definition pa_proc_map_remove :: "ptr \<Rightarrow> ucm_state \<Rightarrow> ucm_state result" where
  "pa_proc_map_remove page s =
     (if \<not> ppe_used (pa_proc_entry (pages s page)) then Inr s
      else andThen (HASH_DELETE page (pa_to_proc_map s)) (\<lambda>t.
           Inr (upd_page page (pa_proc_entry_update (\<lambda>_. zero_entry))
             (s\<lparr>pa_to_proc_map := t\<rparr>))))"

definition pa_proc_map_find :: "u64 \<Rightarrow> ucm_state \<Rightarrow> ptr result" where
  "pa_proc_map_find pa s =
     (let entry = HASH_FIND (pa_key s) (pa_to_proc_map s) pa
      in if entry \<noteq> NULL
         then let proc = ppe_proc (pa_proc_entry (pages s entry))
              in assertC (proc \<noteq> NULL) (Inr proc)
         else Inr NULL)"

definition pa_proc_map_init :: "ucm_state \<Rightarrow> ucm_state" where
  "pa_proc_map_init s = s\<lparr>pa_to_proc_map := []\<rparr>"

section \<open>The page tables of a process\<close>

abbreviation va_key :: "ucm_state \<Rightarrow> ptr \<Rightarrow> u64" where
  "va_key s page \<equiv> va (pages s page)"

abbreviation offset_key :: "ucm_state \<Rightarrow> ptr \<Rightarrow> u64" where
  "offset_key s page \<equiv> devdax_offset (pages s page)"

definition mm_add_page :: "ptr \<Rightarrow> ptr \<Rightarrow> ucm_state \<Rightarrow> ucm_state result" where
  "mm_add_page proc page s =
     andThen (get_proc proc s) (\<lambda>pr.
     let p = HASH_FIND (va_key s) (pages_table (mm pr)) (va (pages s page))
     in andThen (if p = NULL then HASH_ADD (va (pages s page)) page (pages_table (mm pr))
                 else Inr (pages_table (mm pr))) (\<lambda>pt_tab.
        andThen (if \<not> in_dram (pages s page) \<and>
                    HASH_FIND (offset_key s) (cxl_offset_to_page (mm pr))
                      (devdax_offset (pages s page)) = NULL
                 then HASH_ADD (devdax_offset (pages s page)) page (cxl_offset_to_page (mm pr))
                 else Inr (cxl_offset_to_page (mm pr))) (\<lambda>cxl_tab.
        andThen (upd_mm proc (\<lambda>m. m\<lparr>pages_table := pt_tab, cxl_offset_to_page := cxl_tab\<rparr>) s) (\<lambda>s.
        if \<not> in_dram (pages s page) then pa_proc_map_add page proc s else Inr s))))"

definition mm_find_page :: "ptr \<Rightarrow> u64 \<Rightarrow> ucm_state \<Rightarrow> ptr result" where
  "mm_find_page proc addr s =
     andThen (get_proc proc s) (\<lambda>pr. Inr (HASH_FIND (va_key s) (pages_table (mm pr)) addr))"

definition mm_find_page_by_cxl_offset :: "ptr \<Rightarrow> u64 \<Rightarrow> ucm_state \<Rightarrow> ptr result" where
  "mm_find_page_by_cxl_offset proc offset s =
     andThen (get_proc proc s) (\<lambda>pr.
     Inr (HASH_FIND (offset_key s) (cxl_offset_to_page (mm pr)) offset))"

definition mm_remove_page :: "ptr \<Rightarrow> ptr \<Rightarrow> ucm_state \<Rightarrow> ucm_state result" where
  "mm_remove_page proc page s =
     andThen (get_proc proc s) (\<lambda>pr.
     andThen (if pages_table (mm pr) \<noteq> [] then HASH_DELETE page (pages_table (mm pr))
              else Inr []) (\<lambda>pt_tab.
     andThen (if \<not> in_dram (pages s page)
              then if cxl_offset_to_page (mm pr) \<noteq> []
                   then HASH_DELETE page (cxl_offset_to_page (mm pr)) else Inr []
              else Inr (cxl_offset_to_page (mm pr))) (\<lambda>cxl_tab.
     andThen (upd_mm proc (\<lambda>m. m\<lparr>pages_table := pt_tab, cxl_offset_to_page := cxl_tab\<rparr>) s) (\<lambda>s.
     andThen (if \<not> in_dram (pages s page) then pa_proc_map_remove page s else Inr s) (\<lambda>s.
     mm_internal_enqueue_page_removal proc page s)))))"

definition mm_add_page_to_cxl :: "ptr \<Rightarrow> ptr \<Rightarrow> ucm_state \<Rightarrow> ucm_state result" where
  "mm_add_page_to_cxl proc page s =
     assertC (\<not> in_dram (pages s page)) (
     andThen (get_proc proc s) (\<lambda>pr.
     if HASH_FIND (offset_key s) (cxl_offset_to_page (mm pr)) (devdax_offset (pages s page)) \<noteq> NULL
     then Inr s
     else andThen (HASH_ADD (devdax_offset (pages s page)) page (cxl_offset_to_page (mm pr))) (\<lambda>t.
          andThen (upd_mm proc (cxl_offset_to_page_update (\<lambda>_. t)) s) (\<lambda>s.
          pa_proc_map_add page proc s))))"

definition mm_remove_page_from_cxl :: "ptr \<Rightarrow> ptr \<Rightarrow> ucm_state \<Rightarrow> ucm_state result" where
  "mm_remove_page_from_cxl proc page s =
     andThen (get_proc proc s) (\<lambda>pr.
     andThen (HASH_DELETE page (cxl_offset_to_page (mm pr))) (\<lambda>t.
     andThen (upd_mm proc (cxl_offset_to_page_update (\<lambda>_. t)) s) (\<lambda>s.
     pa_proc_map_remove page s)))"

definition mm_find_proc_by_cxl_offset :: "u64 \<Rightarrow> ucm_state \<Rightarrow> ptr result" where
  "mm_find_proc_by_cxl_offset offset s = pa_proc_map_find offset s"

section \<open>The free lists\<close>

definition get_free_fastmem_page :: "ucm_state \<Rightarrow> (ptr \<times> ucm_state) result" where
  "get_free_fastmem_page s = dequeue_page Fastmem_Free s"

definition get_free_slowmem_page :: "ucm_state \<Rightarrow> (ptr \<times> ucm_state) result" where
  "get_free_slowmem_page s = dequeue_page Slowmem_Free s"

definition return_free_fastmem_page :: "ptr \<Rightarrow> ucm_state \<Rightarrow> ucm_state result" where
  "return_free_fastmem_page page s =
     assertC (\<not> present (pages s page)) (enqueue_page Fastmem_Free page s)"

definition return_free_slowmem_page :: "ptr \<Rightarrow> ucm_state \<Rightarrow> ucm_state result" where
  "return_free_slowmem_page page s =
     assertC (\<not> present (pages s page)) (enqueue_page Slowmem_Free page s)"

definition assert_page_freed :: "ptr \<Rightarrow> ucm_state \<Rightarrow> ucm_state result" where
  "assert_page_freed page s =
     assertC (\<not> present (pages s page)) (
     if in_dram (pages s page)
     then assertC (pg_list s page = Some Fastmem_Free) (Inr s)
     else assertC (pg_list s page = Some Slowmem_Free) (Inr s))"

definition get_fastmem_size :: "ucm_state \<Rightarrow> u64" where
  "get_fastmem_size s = fastmem_sz s"

definition get_slowmem_size :: "ucm_state \<Rightarrow> u64" where
  "get_slowmem_size s = slowmem_sz s"

definition get_fastmem_free_page_cnt :: "ucm_state \<Rightarrow> u64" where
  "get_fastmem_free_page_cnt s = numentries (plists s Fastmem_Free)"

definition get_slowmem_free_page_cnt :: "ucm_state \<Rightarrow> u64" where
  "get_slowmem_free_page_cnt s = numentries (plists s Slowmem_Free)"

definition get_fastmem_free_size :: "ucm_state \<Rightarrow> u64" where
  "get_fastmem_free_size s = get_fastmem_free_page_cnt s * HUGEPAGE_SIZE"

definition get_slowmem_free_size :: "ucm_state \<Rightarrow> u64" where
  "get_slowmem_free_size s = get_slowmem_free_page_cnt s * HUGEPAGE_SIZE"

definition get_default_page_size :: u64 where
  "get_default_page_size = HUGEPAGE_SIZE"

definition get_default_page_type :: "pagetypes result" where
  "get_default_page_type = pagesize_to_pt get_default_page_size"

section \<open>Initialisation\<close>

text \<open>
  \<open>alloc i\<close> is the address the \<open>i\<close>-th allocation of a page returns. The links of a page
  are zeroed with the rest of it.
\<close>

definition calloc_page :: "ptr \<Rightarrow> ucm_state \<Rightarrow> ucm_state" where
  "calloc_page p s = upd_page p (\<lambda>_. hemem_page_alloc)
     (s\<lparr>pg_next := (pg_next s)(p := NULL), pg_prev := (pg_prev s)(p := NULL),
        pg_list := (pg_list s)(p := None)\<rparr>)"

fun init_tier :: "list_id \<Rightarrow> bool \<Rightarrow> (nat \<Rightarrow> ptr) \<Rightarrow> nat list \<Rightarrow> ucm_state \<Rightarrow> ucm_state result" where
  "init_tier q fast alloc [] s = Inr s"
| "init_tier q fast alloc (i # is) s =
     (let p = alloc i
      in assertC (p \<noteq> NULL) (
         let s = calloc_page p s
         in andThen (pagesize_to_pt get_default_page_size) (\<lambda>t.
            let s = upd_page p (\<lambda>pg. pg\<lparr>pt := t,
                      devdax_offset := of_nat i * get_default_page_size, in_dram := fast\<rparr>) s
            in andThen (enqueue_page q p s) (init_tier q fast alloc is))))"

definition init_free_lists :: "(nat \<Rightarrow> ptr) \<Rightarrow> (nat \<Rightarrow> ptr) \<Rightarrow> ucm_state \<Rightarrow> ucm_state result" where
  "init_free_lists alloc_fast alloc_slow s =
     (let n_fast = get_fastmem_size s div get_default_page_size
      in assertC (n_fast \<noteq> 0) (
         andThen (init_tier Fastmem_Free True alloc_fast [0..<unat n_fast] s) (\<lambda>s.
         let n_slow = get_slowmem_size s div get_default_page_size
         in assertC (n_slow \<noteq> 0)
              (init_tier Slowmem_Free False alloc_slow [0..<unat n_slow] s))))"

definition mm_async_init :: "ucm_state \<Rightarrow> ucm_state" where
  "mm_async_init s = s\<lparr>cools_started := (\<lambda>_. 0), cools_completed := (\<lambda>_. 0)\<rparr>"

text \<open>\<open>fast\<close> and \<open>slow\<close> are the addresses at which the two tiers are mapped, null on failure.\<close>

definition physmem_init :: "physmem_mode \<Rightarrow> u64 \<Rightarrow> u64 \<Rightarrow> u64 \<Rightarrow> u64 \<Rightarrow> ucm_state \<Rightarrow> ucm_state result" where
  "physmem_init mode fast_size slow_size fast slow s =
     (let s = s\<lparr>physmem_mode := mode, fastmem_sz := fast_size, slowmem_sz := slow_size\<rparr>
      in check Exit (fast \<noteq> 0) (
         check Exit (slow \<noteq> 0) (
         Inr (s\<lparr>fastmem_ptr := fast, slowmem_ptr := slow\<rparr>))))"

definition mm_init :: "physmem_mode \<Rightarrow> u64 \<Rightarrow> u64 \<Rightarrow> u64 \<Rightarrow> u64 \<Rightarrow> (nat \<Rightarrow> ptr) \<Rightarrow> (nat \<Rightarrow> ptr)
    \<Rightarrow> ucm_state \<Rightarrow> ucm_state result" where
  "mm_init mode fast_size slow_size fast slow alloc_fast alloc_slow s =
     andThen (physmem_init mode fast_size slow_size fast slow s) (\<lambda>s.
     andThen (init_free_lists alloc_fast alloc_slow (mm_async_init s)) (\<lambda>s.
     Inr (pa_proc_map_init s)))"

section \<open>Addresses and memory\<close>

definition devdax_offset_to_addr :: "u64 \<Rightarrow> bool \<Rightarrow> ucm_state \<Rightarrow> u64" where
  "devdax_offset_to_addr offset is_fastmem s =
     (if is_fastmem then fastmem_ptr s + offset else slowmem_ptr s + offset)"

definition hemem_memcpy :: "u64 \<Rightarrow> u64 \<Rightarrow> u64 \<Rightarrow> ucm_state \<Rightarrow> ucm_state" where
  "hemem_memcpy dst src len s =
     s\<lparr>ucm_mem := (\<lambda>a. if a - dst < len then ucm_mem s (src + (a - dst)) else ucm_mem s a)\<rparr>"

definition hemem_memset :: "u64 \<Rightarrow> 8 word \<Rightarrow> u64 \<Rightarrow> ucm_state \<Rightarrow> ucm_state" where
  "hemem_memset dst v len s =
     s\<lparr>ucm_mem := (\<lambda>a. if a - dst < len then v else ucm_mem s a)\<rparr>"

section \<open>Counters\<close>

definition ucm_stats_epoch_clear :: "ucm_state \<Rightarrow> ucm_state" where
  "ucm_stats_epoch_clear s = s\<lparr>stats := (stats s)\<lparr>st_pages_allocated := 0,
     st_pages_freed := 0, st_missing_faults_handled := 0, st_migrations_up := 0,
     st_migrations_down := 0\<rparr>\<rparr>"

definition ucm_stats_record_migration_down :: "ptr \<Rightarrow> ptr \<Rightarrow> u64 \<Rightarrow> ucm_state \<Rightarrow> ucm_state result" where
  "ucm_stats_record_migration_down process page pagesize s =
     andThen (upd_proc process (pstats_update (\<lambda>st. st\<lparr>down_count := down_count st + 1\<rparr>)) s) (\<lambda>s.
     let s = upd_page page (\<lambda>p. p\<lparr>migrations_down := migrations_down p + 1\<rparr>) s
     in Inr (s\<lparr>stats := (stats s)\<lparr>st_migrations_down := st_migrations_down (stats s) + 1,
                 st_bytes_migrated := st_bytes_migrated (stats s) + pagesize\<rparr>\<rparr>))"

definition ucm_stats_record_migration_up :: "ptr \<Rightarrow> ptr \<Rightarrow> u64 \<Rightarrow> ucm_state \<Rightarrow> ucm_state result" where
  "ucm_stats_record_migration_up process page pagesize s =
     andThen (upd_proc process (pstats_update (\<lambda>st. st\<lparr>up_count := up_count st + 1\<rparr>)) s) (\<lambda>s.
     let s = upd_page page (\<lambda>p. p\<lparr>migrations_up := migrations_up p + 1\<rparr>) s
     in Inr (s\<lparr>stats := (stats s)\<lparr>st_migrations_up := st_migrations_up (stats s) + 1,
                 st_bytes_migrated := st_bytes_migrated (stats s) + pagesize\<rparr>\<rparr>))"

definition ucm_stats_record_page_freed :: "ptr \<Rightarrow> u64 \<Rightarrow> ucm_state \<Rightarrow> ucm_state result" where
  "ucm_stats_record_page_freed process pagesize s =
     (let s = s\<lparr>stats := (stats s)\<lparr>st_pages_freed := st_pages_freed (stats s) + 1,
                 st_mem_allocated := st_mem_allocated (stats s) - pagesize\<rparr>\<rparr>
      in upd_mm process (\<lambda>m. m\<lparr>mem_allocated := mem_allocated m - pagesize\<rparr>) s)"

definition ucm_stats_record_page_allocated :: "ptr \<Rightarrow> u64 \<Rightarrow> ucm_state \<Rightarrow> ucm_state result" where
  "ucm_stats_record_page_allocated process pagesize s =
     (let s = s\<lparr>stats := (stats s)\<lparr>st_mem_allocated := st_mem_allocated (stats s) + pagesize,
                 st_pages_allocated := st_pages_allocated (stats s) + 1\<rparr>\<rparr>
      in upd_mm process (\<lambda>m. m\<lparr>mem_allocated := mem_allocated m + pagesize\<rparr>) s)"

definition ucm_stats_record_migration_wait :: "ptr \<Rightarrow> u64 \<Rightarrow> ucm_state \<Rightarrow> ucm_state result" where
  "ucm_stats_record_migration_wait process us s =
     (let s = s\<lparr>stats := (stats s)\<lparr>st_migration_waits := st_migration_waits (stats s) + 1\<rparr>\<rparr>
      in upd_proc process (pstats_update (\<lambda>st. st\<lparr>wp_wait_count := wp_wait_count st + 1,
           wp_wait_us := wp_wait_us st + us\<rparr>)) s)"

end
