(* ===== verification/Mm_Async.thy ===== *)
theory Mm_Async
  imports Mm
begin

text \<open>
  The consumer half of \<open>src/ucm/mm-async.c\<close>: the policy thread drains the free, hot and
  cold rings of a process and cools its level lists step by step.

  Every loop that drains a ring is given the capacity of the ring as fuel: each iteration
  takes one request out, and a ring holds fewer requests than its capacity.
\<close>

definition HOT_RING_REQS_THRESHOLD :: nat where "HOT_RING_REQS_THRESHOLD = 1024 * 1024"
definition COLD_RING_REQS_THRESHOLD :: nat where "COLD_RING_REQS_THRESHOLD = 1024 * 1024"
definition COOLING_PAGES :: nat where "COOLING_PAGES = 16384"

section \<open>Moving a page between levels\<close>

definition make_hot :: "ptr \<Rightarrow> ptr \<Rightarrow> nat \<Rightarrow> ucm_state \<Rightarrow> ucm_state result" where
  "make_hot process page new_hot s =
     assertC (page \<noteq> NULL) (
     assertC (va (pages s page) \<noteq> 0) (
     andThen (get_proc process s) (\<lambda>pr.
     assertC (pg_pid (pages s page) = pid pr) (
     if hot (pages s page) = new_hot
     then if in_dram (pages s page)
          then assertC (pg_list s page = Some (fastmem_lists process new_hot)) (Inr s)
          else assertC (pg_list s page = Some (slowmem_lists process new_hot)) (Inr s)
     else if in_dram (pages s page)
     then assertC (pg_list s page = Some (fastmem_lists process (hot (pages s page)))) (
          andThen (page_list_remove (fastmem_lists process (hot (pages s page))) page s) (\<lambda>s.
          let s = upd_page page (hot_update (\<lambda>_. new_hot)) s
          in enqueue_page (fastmem_lists process (hot (pages s page))) page s))
     else assertC (pg_list s page = Some (slowmem_lists process (hot (pages s page)))) (
          andThen (page_list_remove (slowmem_lists process (hot (pages s page))) page s) (\<lambda>s.
          let s = upd_page page (hot_update (\<lambda>_. new_hot)) s
          in enqueue_page (slowmem_lists process (hot (pages s page))) page s))))))"

definition make_cold :: "ptr \<Rightarrow> ptr \<Rightarrow> nat \<Rightarrow> ucm_state \<Rightarrow> ucm_state result" where
  "make_cold process page new_hot s =
     assertC (page \<noteq> NULL) (
     assertC (va (pages s page) \<noteq> 0) (
     andThen (get_proc process s) (\<lambda>pr.
     assertC (pg_pid (pages s page) = pid pr) (
     if hot (pages s page) = new_hot
     then if in_dram (pages s page)
          then assertC (pg_list s page = Some (fastmem_lists process new_hot)) (Inr s)
          else assertC (pg_list s page = Some (slowmem_lists process new_hot)) (Inr s)
     else if in_dram (pages s page)
     then assertC (pg_list s page = Some (fastmem_lists process (hot (pages s page)))) (
          andThen (page_list_remove (fastmem_lists process (hot (pages s page))) page s) (\<lambda>s.
          let s = upd_page page (hot_update (\<lambda>_. new_hot)) s
          in enqueue_page (fastmem_lists process new_hot) page s))
     else assertC (pg_list s page = Some (slowmem_lists process (hot (pages s page)))) (
          andThen (page_list_remove (slowmem_lists process (hot (pages s page))) page s) (\<lambda>s.
          let s = upd_page page (hot_update (\<lambda>_. new_hot)) s
          in enqueue_page (slowmem_lists process (hot (pages s page))) page s))))))"

section \<open>Cooling\<close>

text \<open>The access counts of a page as if it were up to date with cooling.\<close>

definition tmp_accesses :: "hemem_process \<Rightarrow> hemem_page \<Rightarrow> (u64 \<times> u64) result" where
  "tmp_accesses pr p =
     andThen (shiftr_c (accesses p FASTMEM) (process_clock pr FASTMEM - local_clock p FASTMEM)) (\<lambda>a.
     andThen (shiftr_c (accesses p SLOWMEM) (process_clock pr SLOWMEM - local_clock p SLOWMEM)) (\<lambda>b.
     Inr (a, b)))"

text \<open>
  The two search loops: from level \<open>i\<close> downwards, stopping above level 0, as long as no
  page has been found.
\<close>

fun scan_levels :: "(nat \<Rightarrow> ptr) \<Rightarrow> nat \<Rightarrow> ptr \<times> nat \<Rightarrow> ptr \<times> nat" where
  "scan_levels tails 0 (p, level) = (p, level)"
| "scan_levels tails (Suc i) (p, level) =
     (if p \<noteq> NULL then (p, level) else scan_levels tails i (tails (Suc i), Suc i))"

definition list_tails :: "bool \<Rightarrow> ptr \<Rightarrow> ucm_state \<Rightarrow> nat \<Rightarrow> ptr" where
  "list_tails fastmem process s i = last_page (plists s (bin fastmem process i))"

definition need_cool :: "bool \<Rightarrow> process_mem \<Rightarrow> bool" where
  "need_cool fastmem m = (if fastmem then need_cool_fastmem m else need_cool_slowmem m)"

definition cur_cool :: "bool \<Rightarrow> process_mem \<Rightarrow> ptr" where
  "cur_cool fastmem m = (if fastmem then cur_cool_in_fastmem m else cur_cool_in_slowmem m)"

definition cur_cool_list :: "bool \<Rightarrow> process_mem \<Rightarrow> nat" where
  "cur_cool_list fastmem m =
     (if fastmem then cur_cool_in_fastmem_list m else cur_cool_in_slowmem_list m)"

definition set_cur_cool :: "bool \<Rightarrow> ptr \<Rightarrow> nat \<Rightarrow> process_mem \<Rightarrow> process_mem" where
  "set_cur_cool fastmem p i m =
     (if fastmem then m\<lparr>cur_cool_in_fastmem := p, cur_cool_in_fastmem_list := i\<rparr>
      else m\<lparr>cur_cool_in_slowmem := p, cur_cool_in_slowmem_list := i\<rparr>)"

definition set_cur_cool_list :: "bool \<Rightarrow> nat \<Rightarrow> process_mem \<Rightarrow> process_mem" where
  "set_cur_cool_list fastmem i m =
     (if fastmem then m\<lparr>cur_cool_in_fastmem_list := i\<rparr> else m\<lparr>cur_cool_in_slowmem_list := i\<rparr>)"

definition cooling_done :: "bool \<Rightarrow> ptr \<Rightarrow> ucm_state \<Rightarrow> ucm_state result" where
  "cooling_done fastmem process s =
     andThen (upd_mm process (\<lambda>m. if fastmem then m\<lparr>need_cool_fastmem := False\<rparr>
                                  else m\<lparr>need_cool_slowmem := False\<rparr>) s) (\<lambda>s.
     let t = (if fastmem then FASTMEM else SLOWMEM)
     in Inr (s\<lparr>cools_completed := (cools_completed s)(t := cools_completed s t + 1)\<rparr>))"

text \<open>One page of the loop: the page is put on the level its cooled counts give.\<close>

definition cool_page :: "config \<Rightarrow> bool \<Rightarrow> ptr \<Rightarrow> ptr \<Rightarrow> nat \<Rightarrow> ucm_state \<Rightarrow> (ptr \<times> ucm_state) result" where
  "cool_page cfg fastmem process p level s =
     andThen (get_proc process s) (\<lambda>pr.
     assertC (pg_pid (pages s p) = pid pr) (
     assertC (in_dram (pages s p) = fastmem) (
     assertC (pg_list s p = Some (bin fastmem process (hot (pages s p)))) (
     andThen (tmp_accesses pr (pages s p)) (\<lambda>(a, b).
     let curr = p;
         p = prev_page (bin fastmem process level) p s;
         new_hotness = access_to_index cfg a b
     in if new_hotness \<noteq> hot (pages s curr)
        then let s = upd_page curr (hot_update (\<lambda>_. new_hotness)) s
             in (case pg_list s curr of
                   None \<Rightarrow> Inl Null_Deref
                 | Some q \<Rightarrow>
                     andThen (page_list_remove q curr s) (\<lambda>s.
                     andThen (enqueue_page (bin fastmem process new_hotness) curr s) (\<lambda>s.
                     Inr (p, s))))
        else Inr (p, s))))))"

fun cool_loop :: "config \<Rightarrow> bool \<Rightarrow> ptr \<Rightarrow> nat \<Rightarrow> ptr \<Rightarrow> ptr \<Rightarrow> nat \<Rightarrow> ucm_state \<Rightarrow>
    (ptr \<times> nat \<times> ucm_state) result" where
  "cool_loop cfg fastmem process 0 p current level s = Inr (current, level, s)"
| "cool_loop cfg fastmem process (Suc n) p current level s =
     (let (p, level) =
            (if p = NULL then scan_levels (list_tails fastmem process s) (level - 1) (NULL, level)
             else (p, level))
      in if p = NULL
         then andThen (cooling_done fastmem process s) (\<lambda>s. Inr (NULL, 0, s))
         else andThen (cool_page cfg fastmem process p level s) (\<lambda>(p, s).
              cool_loop cfg fastmem process n p current level s))"

definition partial_cool_impl :: "config \<Rightarrow> ptr \<Rightarrow> bool \<Rightarrow> ucm_state \<Rightarrow> (ptr \<times> ucm_state) result" where
  "partial_cool_impl cfg process fastmem s =
     andThen (get_proc process s) (\<lambda>pr.
     if \<not> need_cool fastmem (mm pr) then Inr (cur_cool fastmem (mm pr), s)
     else
       let start = cur_cool fastmem (mm pr) = NULL \<and> cur_cool_list fastmem (mm pr) = 0;
           (p, level) =
             (if start
              then scan_levels (list_tails fastmem process s) (NUM_HOTNESS_LEVELS - 1) (NULL, 0)
              else (cur_cool fastmem (mm pr), cur_cool_list fastmem (mm pr)))
       in if start \<and> p = NULL
          then andThen (upd_mm process (set_cur_cool fastmem NULL 0) s) (\<lambda>s.
               andThen (cooling_done fastmem process s) (\<lambda>s. Inr (NULL, s)))
          else
            andThen (upd_mm process (set_cur_cool fastmem p level) s) (\<lambda>s.
            let current = p
            in check Assert_Fail (current = NULL \<or>
                 pg_pid (pages s current) = pid pr \<and>
                 pg_list s current = Some (bin fastmem process (hot (pages s current)))) (
               andThen (cool_loop cfg fastmem process COOLING_PAGES p current level s)
                 (\<lambda>(current, level, s).
               andThen (upd_mm process (set_cur_cool_list fastmem level) s) (\<lambda>s.
               Inr (current, s))))))"

definition incremental_fastmem_cooling :: "config \<Rightarrow> ptr \<Rightarrow> ucm_state \<Rightarrow> (ptr \<times> ucm_state) result" where
  "incremental_fastmem_cooling cfg process s = partial_cool_impl cfg process True s"

definition incremental_slowmem_cooling :: "config \<Rightarrow> ptr \<Rightarrow> ucm_state \<Rightarrow> (ptr \<times> ucm_state) result" where
  "incremental_slowmem_cooling cfg process s = partial_cool_impl cfg process False s"

definition update_current_cool_page :: "ptr \<Rightarrow> ptr \<Rightarrow> ucm_state \<Rightarrow> ucm_state result" where
  "update_current_cool_page process page s =
     andThen (get_proc process s) (\<lambda>pr.
     if page = cur_cool_in_fastmem (mm pr)
     then assertC (pg_pid (pages s page) = pid pr) (
          assertC (in_dram (pages s page)) (
          assertC (pg_list s page = Some (fastmem_lists process (hot (pages s page)))) (
          upd_mm process (\<lambda>m. m\<lparr>cur_cool_in_fastmem := NULL, cur_cool_in_fastmem_list := 0\<rparr>) s)))
     else if page = cur_cool_in_slowmem (mm pr)
     then assertC (pg_pid (pages s page) = pid pr) (
          assertC (\<not> in_dram (pages s page)) (
          assertC (pg_list s page = Some (slowmem_lists process (hot (pages s page)))) (
          upd_mm process (\<lambda>m. m\<lparr>cur_cool_in_slowmem := NULL, cur_cool_in_slowmem_list := 0\<rparr>) s)))
     else Inr s)"

section \<open>The free ring\<close>

definition reset_page_stats :: "hemem_page \<Rightarrow> hemem_page" where
  "reset_page_stats p = p\<lparr>present := False, pg_pid := -1, hot := COLD,
     accesses := (\<lambda>_. 0), tot_accesses := (\<lambda>_. 0)\<rparr>"

definition free_one_page :: "ptr \<Rightarrow> ptr \<Rightarrow> ucm_state \<Rightarrow> ucm_state result" where
  "free_one_page process page s =
     (case pg_list s page of
        None \<Rightarrow> Inl Assert_Fail
      | Some l \<Rightarrow>
          andThen (get_proc process s) (\<lambda>pr.
          assertC (pg_pid (pages s page) = pid pr) (
          assertC (if in_dram (pages s page)
                   then pg_list s page = Some (fastmem_lists process (hot (pages s page)))
                     \<or> ring_present (pages s page)
                   else pg_list s page = Some (slowmem_lists process (hot (pages s page)))
                     \<or> ring_present (pages s page)) (
          andThen (update_current_cool_page process page s) (\<lambda>s.
          andThen (page_list_remove l page s) (\<lambda>s.
          let s = upd_page page reset_page_stats s
          in andThen
               (if in_dram (pages s page)
                then andThen (return_free_fastmem_page page s)
                       (upd_mm process (\<lambda>m. m\<lparr>current_fastmem :=
                          current_fastmem m - pt_to_pagesize (pt (pages s page))\<rparr>))
                else andThen (return_free_slowmem_page page s)
                       (upd_mm process (\<lambda>m. m\<lparr>current_slowmem :=
                          current_slowmem m - pt_to_pagesize (pt (pages s page))\<rparr>)))
               (\<lambda>s. let s = upd_page page (in_free_ring_update (\<lambda>_. False)) s
                    in Inr (s\<lparr>free_ring_requests_handled := free_ring_requests_handled s + 1\<rparr>))))))))"

fun free_ring_loop :: "nat \<Rightarrow> ptr \<Rightarrow> ucm_state \<Rightarrow> ucm_state result" where
  "free_ring_loop 0 process s = Inl Out_Of_Fuel"
| "free_ring_loop (Suc fuel) process s =
     andThen (get_proc process s) (\<lambda>pr.
     if ring_buf_empty (free_page_ring (mm pr)) then Inr s
     else andThen (ring_buf_get (free_page_ring (mm pr))) (\<lambda>(page, ring).
          andThen (upd_mm process (free_page_ring_update (\<lambda>_. ring)) s) (\<lambda>s.
          if page = NULL then Inr s
          else andThen (free_one_page process page s) (free_ring_loop fuel process))))"

definition handle_free_page_ring :: "ptr \<Rightarrow> ucm_state \<Rightarrow> ucm_state result" where
  "handle_free_page_ring process s =
     andThen (get_proc process s) (\<lambda>pr.
     free_ring_loop (ring_cap (free_page_ring (mm pr))) process s)"

section \<open>The hot and cold rings\<close>

definition hot_one_page :: "config \<Rightarrow> ptr \<Rightarrow> ptr \<Rightarrow> ucm_state \<Rightarrow> ucm_state result" where
  "hot_one_page cfg process page s =
     andThen (get_proc process s) (\<lambda>pr.
     assertC (pg_pid (pages s page) = pid pr) (
     andThen (tmp_accesses pr (pages s page)) (\<lambda>(a, b).
     let new_hotness = access_to_index cfg a b
     in if new_hotness < hot (pages s page)
        then andThen (update_current_cool_page process page s) (\<lambda>s.
             let s = upd_page page (ring_present_update (\<lambda>_. False)) s
             in andThen (make_cold process page new_hotness s) (\<lambda>s.
                Inr (s\<lparr>hot_ring_requests_handled := hot_ring_requests_handled s + 1\<rparr>)))
        else andThen (update_current_cool_page process page s) (\<lambda>s.
             let s = upd_page page (ring_present_update (\<lambda>_. False)) s
             in andThen (make_hot process page new_hotness s) (\<lambda>s.
                Inr (s\<lparr>hot_ring_requests_handled := hot_ring_requests_handled s + 1\<rparr>))))))"

fun hot_ring_loop :: "config \<Rightarrow> nat \<Rightarrow> nat \<Rightarrow> ptr \<Rightarrow> ucm_state \<Rightarrow> ucm_state result" where
  "hot_ring_loop cfg 0 num_ring_reqs process s = Inl Out_Of_Fuel"
| "hot_ring_loop cfg (Suc fuel) num_ring_reqs process s =
     andThen (get_proc process s) (\<lambda>pr.
     if ring_buf_empty (hot_ring (mm pr)) \<or> \<not> num_ring_reqs < HOT_RING_REQS_THRESHOLD then Inr s
     else andThen (ring_buf_get (hot_ring (mm pr))) (\<lambda>(page, ring).
          andThen (upd_mm process (hot_ring_update (\<lambda>_. ring)) s) (\<lambda>s.
          if page = NULL then Inr s
          else if \<not> present (pages s page)
          then andThen (assert_page_freed page s) (\<lambda>s.
               hot_ring_loop cfg fuel num_ring_reqs process
                 (s\<lparr>hot_ring_requests_handled := hot_ring_requests_handled s + 1\<rparr>))
          else andThen (hot_one_page cfg process page s)
                 (hot_ring_loop cfg fuel (num_ring_reqs + 1) process))))"

definition handle_hot_requests :: "config \<Rightarrow> ptr \<Rightarrow> ucm_state \<Rightarrow> ucm_state result" where
  "handle_hot_requests cfg process s =
     andThen (get_proc process s) (\<lambda>pr.
     hot_ring_loop cfg (ring_cap (hot_ring (mm pr))) 0 process s)"

definition cold_one_page :: "config \<Rightarrow> ptr \<Rightarrow> ptr \<Rightarrow> ucm_state \<Rightarrow> ucm_state result" where
  "cold_one_page cfg process page s =
     andThen (get_proc process s) (\<lambda>pr.
     assertC (pg_pid (pages s page) = pid pr) (
     andThen (tmp_accesses pr (pages s page)) (\<lambda>(a, b).
     let new_hotness = access_to_index cfg a b
     in if new_hotness \<ge> hot (pages s page)
        then andThen (update_current_cool_page process page s) (\<lambda>s.
             let s = upd_page page (ring_present_update (\<lambda>_. False)) s
             in andThen (make_hot process page new_hotness s) (\<lambda>s.
                Inr (s\<lparr>cold_ring_requests_handled := cold_ring_requests_handled s + 1\<rparr>)))
        else andThen (update_current_cool_page process page s) (\<lambda>s.
             let s = upd_page page (ring_present_update (\<lambda>_. False)) s
             in andThen (make_cold process page new_hotness s) (\<lambda>s.
                Inr (s\<lparr>cold_ring_requests_handled := cold_ring_requests_handled s + 1\<rparr>))))))"

fun cold_ring_loop :: "config \<Rightarrow> nat \<Rightarrow> nat \<Rightarrow> ptr \<Rightarrow> ucm_state \<Rightarrow> ucm_state result" where
  "cold_ring_loop cfg 0 num_ring_reqs process s = Inl Out_Of_Fuel"
| "cold_ring_loop cfg (Suc fuel) num_ring_reqs process s =
     andThen (get_proc process s) (\<lambda>pr.
     if ring_buf_empty (cold_ring (mm pr)) \<or> \<not> num_ring_reqs < COLD_RING_REQS_THRESHOLD then Inr s
     else andThen (ring_buf_get (cold_ring (mm pr))) (\<lambda>(page, ring).
          andThen (upd_mm process (cold_ring_update (\<lambda>_. ring)) s) (\<lambda>s.
          if page = NULL then Inr s
          else if \<not> present (pages s page)
          then andThen (assert_page_freed page s) (\<lambda>s.
               cold_ring_loop cfg fuel num_ring_reqs process
                 (s\<lparr>cold_ring_requests_handled := cold_ring_requests_handled s + 1\<rparr>))
          else andThen (cold_one_page cfg process page s)
                 (cold_ring_loop cfg fuel (num_ring_reqs + 1) process))))"

definition handle_cold_requests :: "config \<Rightarrow> ptr \<Rightarrow> ucm_state \<Rightarrow> ucm_state result" where
  "handle_cold_requests cfg process s =
     andThen (get_proc process s) (\<lambda>pr.
     cold_ring_loop cfg (ring_cap (cold_ring (mm pr))) 0 process s)"

definition mm_drain_async_requests :: "config \<Rightarrow> ptr \<Rightarrow> ucm_state \<Rightarrow> ucm_state result" where
  "mm_drain_async_requests cfg process s =
     andThen (handle_free_page_ring process s) (\<lambda>s.
     andThen (handle_hot_requests cfg process s) (\<lambda>s.
     handle_cold_requests cfg process s))"

end
