(* ===== verification/Page_Invariant.thy ===== *)
theory Page_Invariant
  imports Mm_Async
begin

text \<open>
  The invariant that ties the lists to the pages on them: a page on a free list is clean
  and belongs to no process, a page on a level list belongs to the process and the tier of
  the list and has the hotness of its level, and the cooling bookmarks point at pages on
  the process's own lists. The lemmas of this theory say what removing and enqueueing a
  page does to the invariant; the theories on draining, migration and allocation rest on
  them.
\<close>

section \<open>The invariant\<close>

definition tier_free :: "bool \<Rightarrow> list_id" where
  "tier_free fast = (if fast then Fastmem_Free else Slowmem_Free)"

definition free_page :: "bool \<Rightarrow> hemem_page \<Rightarrow> bool" where
  "free_page fast p \<longleftrightarrow> in_dram p = fast \<and> \<not> present p \<and> pg_pid p = -1 \<and> hot p = COLD \<and>
     accesses p = (\<lambda>_. 0) \<and> tot_accesses p = (\<lambda>_. 0)"

definition bin_page :: "ucm_state \<Rightarrow> bool \<Rightarrow> ptr \<Rightarrow> nat \<Rightarrow> hemem_page \<Rightarrow> bool" where
  "bin_page s fast pr i p \<longleftrightarrow> in_dram p = fast \<and> present p \<and> hot p = i \<and>
     i < NUM_HOTNESS_LEVELS \<and> va p \<noteq> 0 \<and> (\<exists>P. procs s pr = Some P \<and> pg_pid p = pid P)"

definition list_ok :: "ucm_state \<Rightarrow> list_id \<Rightarrow> hemem_page \<Rightarrow> bool" where
  "list_ok s q p = (case q of
     Fastmem_Free \<Rightarrow> free_page True p
   | Slowmem_Free \<Rightarrow> free_page False p
   | Fastmem_Bin pr i \<Rightarrow> bin_page s True pr i p
   | Slowmem_Bin pr i \<Rightarrow> bin_page s False pr i p)"

definition pages_ok :: "ucm_state \<Rightarrow> bool" where
  "pages_ok s \<longleftrightarrow> (\<forall>p q. pg_list s p = Some q \<longrightarrow> list_ok s q (pages s p))"

definition bookmarks_ok :: "ucm_state \<Rightarrow> bool" where
  "bookmarks_ok s \<longleftrightarrow> (\<forall>pr P fast. procs s pr = Some P \<longrightarrow> cur_cool fast (mm P) \<noteq> NULL \<longrightarrow>
     (\<exists>i. pg_list s (cur_cool fast (mm P)) = Some (bin fast pr i)))"

definition ucm_inv :: "ucm_state \<Rightarrow> bool" where
  "ucm_inv s \<longleftrightarrow> pl_wf s \<and> pages_ok s \<and> bookmarks_ok s"

lemma bin_eq_iff [simp]:
  "bin f p i = bin f' p' i' \<longleftrightarrow> f = f' \<and> p = p' \<and> i = i'"
  "bin f p i \<noteq> tier_free f'" "tier_free f' \<noteq> bin f p i"
  "tier_free f = tier_free f' \<longleftrightarrow> f = f'"
  by (auto simp: bin_def tier_free_def)

lemma bin_fold [simp]:
  "Fastmem_Bin p i = bin f p' i' \<longleftrightarrow> f \<and> p = p' \<and> i = i'"
  "Slowmem_Bin p i = bin f p' i' \<longleftrightarrow> \<not> f \<and> p = p' \<and> i = i'"
  "bin f p' i' = Fastmem_Bin p i \<longleftrightarrow> f \<and> p = p' \<and> i = i'"
  "bin f p' i' = Slowmem_Bin p i \<longleftrightarrow> \<not> f \<and> p = p' \<and> i = i'"
  "bin True p i = Fastmem_Bin p i" "bin False p i = Slowmem_Bin p i"
  "tier_free True = Fastmem_Free" "tier_free False = Slowmem_Free"
  by (auto simp: bin_def tier_free_def)

lemma list_ok_bin: "list_ok s (bin fast pr i) p = bin_page s fast pr i p"
  by (simp add: list_ok_def bin_def)

lemma list_ok_free: "list_ok s (tier_free fast) p = free_page fast p"
  by (simp add: list_ok_def tier_free_def)

lemma list_ok_simps [simp]:
  "list_ok s Fastmem_Free p = free_page True p"
  "list_ok s Slowmem_Free p = free_page False p"
  "list_ok s (Fastmem_Bin pr i) p = bin_page s True pr i p"
  "list_ok s (Slowmem_Bin pr i) p = bin_page s False pr i p"
  by (simp_all add: list_ok_def)

text \<open>The invariant of the pages depends on the processes only through their pids.\<close>

definition same_pids :: "ucm_state \<Rightarrow> ucm_state \<Rightarrow> bool" where
  "same_pids s s' \<longleftrightarrow> (\<forall>pr. map_option pid (procs s' pr) = map_option pid (procs s pr))"

lemma same_pids_eq [simp]: "procs s' = procs s \<Longrightarrow> same_pids s s'"
  by (simp add: same_pids_def)

lemma same_pids_upd:
  "\<lbrakk>procs s' = (procs s)(pr \<mapsto> P'); procs s pr = Some P; pid P' = pid P\<rbrakk> \<Longrightarrow> same_pids s s'"
  by (simp add: same_pids_def)

lemma bin_page_pid:
  "bin_page s fast pr i p \<longleftrightarrow> in_dram p = fast \<and> present p \<and> hot p = i \<and>
     i < NUM_HOTNESS_LEVELS \<and> va p \<noteq> 0 \<and> map_option pid (procs s pr) = Some (pg_pid p)"
  by (auto simp: bin_page_def)

lemma list_ok_procs: "same_pids s s' \<Longrightarrow> list_ok s' = list_ok s"
  by (auto simp: same_pids_def list_ok_def fun_eq_iff bin_page_pid split: list_id.splits)

lemma ucm_inv_list:
  "\<lbrakk>ucm_inv s; pg_list s p = Some q\<rbrakk> \<Longrightarrow> list_ok s q (pages s p)"
  by (auto simp: ucm_inv_def pages_ok_def)

lemma ucm_inv_bin:
  assumes "ucm_inv s" and "pg_list s p = Some (bin fast pr i)"
  obtains P where "procs s pr = Some P" "in_dram (pages s p) = fast" "present (pages s p)"
    "hot (pages s p) = i" "i < NUM_HOTNESS_LEVELS" "va (pages s p) \<noteq> 0"
    "pg_pid (pages s p) = pid P" "p \<noteq> NULL" "p \<in> set (page_seq s (bin fast pr i))"
proof -
  have "p \<in> set (page_seq s (bin fast pr i))"
    using assms pl_wf_mem by (auto simp: ucm_inv_def)
  moreover from this have "p \<noteq> NULL"
    using pl_wf_nonnull assms(1) by (auto simp: ucm_inv_def)
  ultimately show thesis
    using that ucm_inv_list [OF assms] by (auto simp: list_ok_bin bin_page_def)
qed

section \<open>Steps on lists and pages\<close>

text \<open>Only links, list heads and pages change.\<close>

definition page_step :: "ucm_state \<Rightarrow> ucm_state \<Rightarrow> bool" where
  "page_step s s' \<longleftrightarrow> (\<exists>n p l h g.
     s' = s\<lparr>pg_next := n, pg_prev := p, pg_list := l, plists := h, pages := g\<rparr>)"

lemma page_step_refl [simp]: "page_step s s"
proof -
  have "s = s\<lparr>pg_next := pg_next s, pg_prev := pg_prev s, pg_list := pg_list s,
      plists := plists s, pages := pages s\<rparr>"
    by simp
  then show ?thesis
    unfolding page_step_def by blast
qed

lemma page_step_trans: "\<lbrakk>page_step s t; page_step t u\<rbrakk> \<Longrightarrow> page_step s u"
  by (clarsimp simp: page_step_def) blast

lemma link_page_step: "link_step s s' \<Longrightarrow> page_step s (s' :: ucm_state)"
proof -
  assume "link_step s s'"
  then obtain n p l h where "s' = s\<lparr>pg_next := n, pg_prev := p, pg_list := l, plists := h\<rparr>"
    by (auto simp: link_step_def)
  then have "s' = s\<lparr>pg_next := n, pg_prev := p, pg_list := l, plists := h, pages := pages s\<rparr>"
    by simp
  then show ?thesis
    unfolding page_step_def by blast
qed

lemma upd_page_step [simp]: "page_step s (upd_page p f s)"
proof -
  have "upd_page p f s = s\<lparr>pg_next := pg_next s, pg_prev := pg_prev s, pg_list := pg_list s,
      plists := plists s, pages := (pages s)(p := f (pages s p))\<rparr>"
    by (simp add: upd_page_def)
  then show ?thesis
    unfolding page_step_def by blast
qed

lemma page_step_frame:
  assumes "page_step s s'"
  shows "procs s' = procs s" and "pa_to_proc_map s' = pa_to_proc_map s"
    and "proc_map s' = proc_map s" and "stats s' = stats s" and "scan_epoch s' = scan_epoch s"
    and "ucm_mem s' = ucm_mem s" and "held s' = held s" and "processes_list s' = processes_list s"
    and "fastmem_sz s' = fastmem_sz s" and "slowmem_sz s' = slowmem_sz s"
    and "fastmem_ptr s' = fastmem_ptr s" and "slowmem_ptr s' = slowmem_ptr s"
    and "pr_next s' = pr_next s" and "pr_prev s' = pr_prev s" and "pr_list s' = pr_list s"
    and "target_miss_ratio s' = target_miss_ratio s"
  using assms by (auto simp: page_step_def)

text \<open>Enqueueing, removing and dequeueing with what they keep of the pages.\<close>

lemma enqueue_step:
  assumes "pl_wf s" and "p \<noteq> NULL" and "pg_list s p = None"
  obtains s' where "enqueue_page q p s = Inr s'" "pl_wf s'" "page_step s s'"
    "page_seq s' = (page_seq s)(q := p # page_seq s q)" "pg_list s' = (pg_list s)(p := Some q)"
    "pages s' = pages s"
proof -
  obtain s' where s': "enqueue_page q p s = Inr s'" "pl_wf s'" "link_step s s'"
    "page_seq s' = (page_seq s)(q := p # page_seq s q)" "pg_list s' = (pg_list s)(p := Some q)"
    using assms by (rule enqueue_page_ok)
  show thesis
    by (rule that [OF s'(1,2) link_page_step [OF s'(3)] s'(4,5) link_step_frame(1) [OF s'(3)]])
qed

lemma remove_step:
  assumes "pl_wf s" and "p \<in> set (page_seq s q)"
  obtains s' where "page_list_remove q p s = Inr s'" "pl_wf s'" "page_step s s'"
    "page_seq s' = (page_seq s)(q := remove1 p (page_seq s q))"
    "pg_list s' = (pg_list s)(p := None)" "pages s' = pages s"
proof -
  obtain s' where s': "page_list_remove q p s = Inr s'" "pl_wf s'" "link_step s s'"
    "page_seq s' = (page_seq s)(q := remove1 p (page_seq s q))"
    "pg_list s' = (pg_list s)(p := None)"
    using assms by (rule page_list_remove_ok)
  show thesis
    by (rule that [OF s'(1,2) link_page_step [OF s'(3)] s'(4,5) link_step_frame(1) [OF s'(3)]])
qed

lemma dequeue_step:
  assumes "pl_wf s" and "page_seq s q = xs @ [p]"
  obtains s' where "dequeue_page q s = Inr (p, s')" "pl_wf s'" "page_step s s'"
    "page_seq s' = (page_seq s)(q := xs)" "pg_list s' = (pg_list s)(p := None)"
    "pages s' = pages s"
proof -
  obtain s' where s': "dequeue_page q s = Inr (p, s')" "pl_wf s'" "link_step s s'"
    "page_seq s' = (page_seq s)(q := xs)" "pg_list s' = (pg_list s)(p := None)"
    using assms by (rule dequeue_page_ok)
  show thesis
    by (rule that [OF s'(1,2) link_page_step [OF s'(3)] s'(4,5) link_step_frame(1) [OF s'(3)]])
qed

lemma relevel_step:
  assumes wf: "pl_wf s" and p: "p \<in> set (page_seq s q)" and q: "q \<noteq> q'"
  obtains s' where
    "andThen (page_list_remove q p s) (\<lambda>s. enqueue_page q' p (upd_page p f s)) = Inr s'"
    "pl_wf s'" "page_step s s'"
    "page_seq s' = (page_seq s)(q := remove1 p (page_seq s q), q' := p # page_seq s q')"
    "pg_list s' = (pg_list s)(p := Some q')" "pages s' = (pages s)(p := f (pages s p))"
proof -
  obtain t where t: "page_list_remove q p s = Inr t" "pl_wf t" "page_step s t"
    "page_seq t = (page_seq s)(q := remove1 p (page_seq s q))"
    "pg_list t = (pg_list s)(p := None)" "pages t = pages s"
    using wf p by (rule remove_step)
  have p0: "p \<noteq> NULL"
    using pl_wf_nonnull [OF wf, of q] p by auto
  have t': "pl_wf (upd_page p f t)" "pg_list (upd_page p f t) p = None"
    using t by simp_all
  obtain u where u: "enqueue_page q' p (upd_page p f t) = Inr u" "pl_wf u"
    "page_step (upd_page p f t) u"
    "page_seq u = (page_seq (upd_page p f t))(q' := p # page_seq (upd_page p f t) q')"
    "pg_list u = (pg_list (upd_page p f t))(p := Some q')" "pages u = pages (upd_page p f t)"
    using t'(1) p0 t'(2) by (rule enqueue_step)
  have "page_step s u"
    using t(3) upd_page_step u(3) by (blast intro: page_step_trans)
  then show thesis
    using that [of u] t u q by simp
qed

section \<open>Keeping the invariant\<close>

lemma pages_okI:
  assumes "pages_ok s" and "same_pids s s'"
    and "\<And>x. x \<noteq> p \<Longrightarrow> pg_list s' x = pg_list s x \<and> pages s' x = pages s x"
    and "\<And>q. pg_list s' p = Some q \<Longrightarrow> list_ok s q (pages s' p)"
  shows "pages_ok s'"
  unfolding pages_ok_def
proof (intro allI impI)
  fix x q assume x: "pg_list s' x = Some q"
  have "list_ok s q (pages s' x)"
  proof (cases "x = p")
    case True
    then show ?thesis using assms(4) x by simp
  next
    case False
    then have "pg_list s x = Some q" "pages s' x = pages s x"
      using assms(3) x by simp_all
    then show ?thesis using assms(1) by (simp add: pages_ok_def)
  qed
  then show "list_ok s' q (pages s' x)"
    by (simp add: list_ok_procs [OF assms(2)])
qed

lemma bookmarks_okI:
  assumes "bookmarks_ok s" and "procs s' = procs s"
    and "\<And>x fast pr i. pg_list s x = Some (bin fast pr i) \<Longrightarrow> \<exists>j. pg_list s' x = Some (bin fast pr j)"
  shows "bookmarks_ok s'"
  unfolding bookmarks_ok_def
proof (intro allI impI)
  fix pr P fast
  assume "procs s' pr = Some P" and "cur_cool fast (mm P) \<noteq> NULL"
  then obtain i where "pg_list s (cur_cool fast (mm P)) = Some (bin fast pr i)"
    using assms(1,2) unfolding bookmarks_ok_def by metis
  then show "\<exists>i. pg_list s' (cur_cool fast (mm P)) = Some (bin fast pr i)"
    by (rule assms(3))
qed

lemma ucm_inv_relevel:
  assumes inv: "ucm_inv s" and p: "pg_list s p = Some (bin fast pr i)"
    and s': "pl_wf s'" "page_step s s'" "pg_list s' = (pg_list s)(p := Some (bin fast pr j))"
      "pages s' = (pages s)(p := (pages s p)\<lparr>hot := j\<rparr>)"
    and j: "j < NUM_HOTNESS_LEVELS"
  shows "ucm_inv s'"
proof -
  have ok: "bin_page s fast pr i (pages s p)"
    using ucm_inv_list [OF inv p] by (simp add: list_ok_bin)
  have pr: "procs s' = procs s"
    using s'(2) by (rule page_step_frame)
  have "pages_ok s'"
  proof (rule pages_okI [OF _ same_pids_eq [OF pr], where p = p])
    show "pages_ok s" using inv by (simp add: ucm_inv_def)
    show "pg_list s' x = pg_list s x \<and> pages s' x = pages s x" if "x \<noteq> p" for x
      using that by (simp add: s')
    show "list_ok s q (pages s' p)" if "pg_list s' p = Some q" for q
      using that ok j by (auto simp: s' list_ok_bin bin_page_def)
  qed
  moreover have "bookmarks_ok s'"
  proof (rule bookmarks_okI [OF _ pr])
    show "bookmarks_ok s" using inv by (simp add: ucm_inv_def)
    show "\<exists>k. pg_list s' x = Some (bin f c k)" if "pg_list s x = Some (bin f c n)" for x f c n
      using that p by (cases "x = p") (simp_all add: s')
  qed
  ultimately show ?thesis
    using s' by (simp add: ucm_inv_def)
qed

text \<open>The invariant does not read the other parts of the state.\<close>

lemma page_parts_cong:
  assumes "pg_next s' = pg_next s" and "pg_prev s' = pg_prev s" and "pg_list s' = pg_list s"
    and "plists s' = plists s"
  shows "page_seq s' = page_seq s" and "pl_wf s' = pl_wf s"
proof -
  show seq: "page_seq s' = page_seq s"
    by (rule ext) (simp add: page_seq_def assms)
  show "pl_wf s' = pl_wf s"
    by (simp add: pl_wf_def is_plist_def seq assms)
qed

lemma ucm_inv_cong:
  assumes "pg_next s' = pg_next s" and "pg_prev s' = pg_prev s" and "pg_list s' = pg_list s"
    and "plists s' = plists s" and "pages s' = pages s" and "procs s' = procs s"
  shows "ucm_inv s' = ucm_inv s"
proof -
  have "list_ok s' = list_ok s"
    using assms(6) by (intro list_ok_procs) simp
  then show ?thesis
    using assms page_parts_cong [OF assms(1-4)]
    by (simp add: ucm_inv_def pages_ok_def bookmarks_ok_def)
qed

lemma counters_frame [simp]:
  "page_seq (s\<lparr>free_ring_requests_handled := n\<rparr>) = page_seq s"
  "page_seq (s\<lparr>hot_ring_requests_handled := n\<rparr>) = page_seq s"
  "page_seq (s\<lparr>cold_ring_requests_handled := n\<rparr>) = page_seq s"
  "page_seq (s\<lparr>cools_completed := c\<rparr>) = page_seq s"
  "pl_wf (s\<lparr>free_ring_requests_handled := n\<rparr>) = pl_wf s"
  "pl_wf (s\<lparr>hot_ring_requests_handled := n\<rparr>) = pl_wf s"
  "pl_wf (s\<lparr>cold_ring_requests_handled := n\<rparr>) = pl_wf s"
  "pl_wf (s\<lparr>cools_completed := c\<rparr>) = pl_wf s"
  "ucm_inv (s\<lparr>free_ring_requests_handled := n\<rparr>) = ucm_inv s"
  "ucm_inv (s\<lparr>hot_ring_requests_handled := n\<rparr>) = ucm_inv s"
  "ucm_inv (s\<lparr>cold_ring_requests_handled := n\<rparr>) = ucm_inv s"
  "ucm_inv (s\<lparr>cools_completed := c\<rparr>) = ucm_inv s"
  by (rule page_parts_cong ucm_inv_cong; simp)+

text \<open>A process may change as long as its pid and its bookmarks do not.\<close>

lemma ucm_inv_proc:
  assumes inv: "ucm_inv s" and P: "procs s pr = Some P" and P': "pid P' = pid P"
    "\<And>f. cur_cool f (mm P') = cur_cool f (mm P) \<or> cur_cool f (mm P') = NULL"
  shows "ucm_inv (s\<lparr>procs := (procs s)(pr \<mapsto> P')\<rparr>)"
proof -
  have "list_ok (s\<lparr>procs := (procs s)(pr \<mapsto> P')\<rparr>) = list_ok s"
    by (rule list_ok_procs [OF same_pids_upd [OF _ P P'(1)]]) simp
  moreover have "bookmarks_ok (s\<lparr>procs := (procs s)(pr \<mapsto> P')\<rparr>)"
    unfolding bookmarks_ok_def
  proof (intro allI impI)
    fix r R f
    assume r: "procs (s\<lparr>procs := (procs s)(pr \<mapsto> P')\<rparr>) r = Some R" and "cur_cool f (mm R) \<noteq> NULL"
    then obtain Q where "procs s r = Some Q" "cur_cool f (mm Q) = cur_cool f (mm R)"
      using P P'(2) [of f] by (auto split: if_splits)
    then have "\<exists>i. pg_list s (cur_cool f (mm R)) = Some (bin f r i)"
      using inv \<open>cur_cool f (mm R) \<noteq> NULL\<close> unfolding ucm_inv_def bookmarks_ok_def by metis
    then show "\<exists>i. pg_list (s\<lparr>procs := (procs s)(pr \<mapsto> P')\<rparr>) (cur_cool f (mm R)) = Some (bin f r i)"
      by simp
  qed
  ultimately show ?thesis
    using inv by (simp add: ucm_inv_def pages_ok_def)
qed

text \<open>A page that no bookmark points at may go to the free list of its tier.\<close>

lemma ucm_inv_release:
  assumes inv: "ucm_inv s" and p: "pg_list s p = Some (bin fast pr i)"
    and P: "procs s pr = Some P" "\<And>f. cur_cool f (mm P) \<noteq> p"
    and s': "pl_wf s'" "procs s' = procs s" "pg_list s' = (pg_list s)(p := Some (tier_free t))"
      "pages s' = (pages s)(p := pg')" and ok: "free_page t pg'"
  shows "ucm_inv s'"
proof -
  have "pages_ok s'"
  proof (rule pages_okI [OF _ same_pids_eq [OF s'(2)], where p = p])
    show "pages_ok s" using inv by (simp add: ucm_inv_def)
  qed (use s' ok in \<open>auto simp: list_ok_free\<close>)
  moreover have "bookmarks_ok s'"
    unfolding bookmarks_ok_def
  proof (intro allI impI)
    fix r R f
    assume r: "procs s' r = Some R" and x: "cur_cool f (mm R) \<noteq> NULL"
    then obtain j where j: "pg_list s (cur_cool f (mm R)) = Some (bin f r j)"
      using inv s'(2) unfolding ucm_inv_def bookmarks_ok_def by metis
    have "cur_cool f (mm R) \<noteq> p"
    proof
      assume e: "cur_cool f (mm R) = p"
      then have "r = pr" using j p by simp
      then show False using P r s'(2) e by simp
    qed
    then show "\<exists>i. pg_list s' (cur_cool f (mm R)) = Some (bin f r i)"
      using j s'(3) by simp
  qed
  ultimately show ?thesis
    using s' by (simp add: ucm_inv_def)
qed

end
