(* ===== verification/Mm_Async_Correct.thy ===== *)
theory Mm_Async_Correct
  imports Page_Invariant
begin

text \<open>
  Correctness of the request processing of \<open>Mm_Async\<close>: moving a page between levels,
  draining the free ring, serving hot and cold requests and cooling keep the invariant
  and do to the lists exactly what they should, and none of their assertions fails.
\<close>

section \<open>Moving a page between levels\<close>

lemma make_hot_ok:
  assumes inv: "ucm_inv s" and p: "pg_list s p = Some (bin fast pr i)"
    and j: "j < NUM_HOTNESS_LEVELS"
  obtains s' where "make_hot pr p j s = Inr s'" "ucm_inv s'" "page_step s s'"
    "pages s' = (pages s)(p := (pages s p)\<lparr>hot := j\<rparr>)"
    "pg_list s' = (pg_list s)(p := Some (bin fast pr j))"
    "page_seq s' = (if j = i then page_seq s else (page_seq s)
       (bin fast pr i := remove1 p (page_seq s (bin fast pr i)),
        bin fast pr j := p # page_seq s (bin fast pr j)))"
proof -
  obtain P where P: "procs s pr = Some P" "in_dram (pages s p) = fast" "present (pages s p)"
    "hot (pages s p) = i" "va (pages s p) \<noteq> 0"
    "pg_pid (pages s p) = pid P" "p \<noteq> NULL" "p \<in> set (page_seq s (bin fast pr i))"
    using inv p by (rule ucm_inv_bin)
  show thesis
  proof (cases "j = i")
    case True
    have "make_hot pr p j s = Inr s"
      using P p True by (cases fast) (simp_all add: make_hot_def)
    then show thesis
      using that [of s] True inv P p by (simp add: fun_upd_idem)
  next
    case False
    have wf: "pl_wf s" using inv by (simp add: ucm_inv_def)
    obtain s' where s': "andThen (page_list_remove (bin fast pr i) p s)
        (\<lambda>s. enqueue_page (bin fast pr j) p (upd_page p (hot_update (\<lambda>_. j)) s)) = Inr s'"
      "pl_wf s'" "page_step s s'"
      "page_seq s' = (page_seq s)(bin fast pr i := remove1 p (page_seq s (bin fast pr i)),
         bin fast pr j := p # page_seq s (bin fast pr j))"
      "pg_list s' = (pg_list s)(p := Some (bin fast pr j))"
      "pages s' = (pages s)(p := (pages s p)\<lparr>hot := j\<rparr>)"
      using relevel_step [OF wf P(8), where q' = "bin fast pr j" and f = "hot_update (\<lambda>_. j)"] False
      by auto
    have "make_hot pr p j s = Inr s'"
      using P p False s'(1) by (cases fast) (simp_all add: make_hot_def Let_def)
    moreover have "ucm_inv s'"
      by (rule ucm_inv_relevel [OF inv p s'(2,3,5,6) j])
    ultimately show thesis
      using that s' False by simp
  qed
qed

lemma make_cold_eq_make_hot: "make_cold pr p j s = make_hot pr p j s"
  by (simp add: make_cold_def make_hot_def Let_def)

section \<open>The bookmarks\<close>

definition clear_bookmark :: "ptr \<Rightarrow> hemem_process \<Rightarrow> hemem_process" where
  "clear_bookmark p P =
     (if p = cur_cool_in_fastmem (mm P)
      then mm_update (\<lambda>m. m\<lparr>cur_cool_in_fastmem := NULL, cur_cool_in_fastmem_list := 0\<rparr>) P
      else if p = cur_cool_in_slowmem (mm P)
      then mm_update (\<lambda>m. m\<lparr>cur_cool_in_slowmem := NULL, cur_cool_in_slowmem_list := 0\<rparr>) P
      else P)"

lemma clear_bookmark_frame [simp]:
  "pid (clear_bookmark p P) = pid P"
  "process_clock (clear_bookmark p P) = process_clock P"
  "free_page_ring (mm (clear_bookmark p P)) = free_page_ring (mm P)"
  "hot_ring (mm (clear_bookmark p P)) = hot_ring (mm P)"
  "cold_ring (mm (clear_bookmark p P)) = cold_ring (mm P)"
  "current_fastmem (mm (clear_bookmark p P)) = current_fastmem (mm P)"
  "current_slowmem (mm (clear_bookmark p P)) = current_slowmem (mm P)"
  by (simp_all add: clear_bookmark_def)

lemma clear_bookmark_cur:
  "cur_cool fast (mm (clear_bookmark p P)) = cur_cool fast (mm P) \<or>
   cur_cool fast (mm (clear_bookmark p P)) = NULL"
  by (simp add: clear_bookmark_def cur_cool_def)

lemma bookmark_on_list:
  assumes "ucm_inv s" and "procs s pr = Some P" and "cur_cool fast (mm P) = p" and "p \<noteq> NULL"
  shows "\<exists>i. pg_list s p = Some (bin fast pr i)"
  using assms unfolding ucm_inv_def bookmarks_ok_def by blast

lemma clear_bookmark_neq:
  assumes "ucm_inv s" and "procs s pr = Some P" and "p \<noteq> NULL"
  shows "cur_cool fast (mm (clear_bookmark p P)) \<noteq> p"
proof
  assume a: "cur_cool fast (mm (clear_bookmark p P)) = p"
  have f: "cur_cool_in_fastmem (mm P) = cur_cool True (mm P)"
    "cur_cool_in_slowmem (mm P) = cur_cool False (mm P)"
    by (simp_all add: cur_cool_def)
  show False
  proof (cases "p = cur_cool True (mm P) \<and> p = cur_cool False (mm P)")
    case True
    then show False
      using bookmark_on_list [OF assms(1,2), of True p]
        bookmark_on_list [OF assms(1,2), of False p] assms(3) by auto
  next
    case False
    then show False
      using a assms(3) by (auto simp: clear_bookmark_def cur_cool_def split: if_splits)
  qed
qed

lemma update_current_cool_page_ok:
  assumes inv: "ucm_inv s" and p: "pg_list s p = Some (bin fast pr i)" and P: "procs s pr = Some P"
  shows "update_current_cool_page pr p s = Inr (s\<lparr>procs := (procs s)(pr \<mapsto> clear_bookmark p P)\<rparr>)"
proof -
  have b: "in_dram (pages s p) = fast" "hot (pages s p) = i" "pg_pid (pages s p) = pid P" "p \<noteq> NULL"
    by (rule ucm_inv_bin [OF inv p]; use P in auto)+
  consider "p = cur_cool_in_fastmem (mm P)" | "p \<noteq> cur_cool_in_fastmem (mm P)" "p = cur_cool_in_slowmem (mm P)"
    | "p \<noteq> cur_cool_in_fastmem (mm P)" "p \<noteq> cur_cool_in_slowmem (mm P)"
    by blast
  then show ?thesis
  proof cases
    case 1
    then have fast using bookmark_on_list [OF inv P, of True p] p b by (auto simp: cur_cool_def)
    with 1 b p P show ?thesis
      by (simp add: update_current_cool_page_def clear_bookmark_def)
  next
    case 2
    then have "\<not> fast" using bookmark_on_list [OF inv P, of False p] p b by (auto simp: cur_cool_def)
    with 2 b p P show ?thesis
      by (simp add: update_current_cool_page_def clear_bookmark_def)
  next
    case 3
    then show ?thesis
      using P by (simp add: update_current_cool_page_def clear_bookmark_def map_upd_triv)
  qed
qed

section \<open>What draining changes\<close>

text \<open>
  Links, list heads, pages, processes and the request and cooling counters; the process
  list, its locks, the tables and the statistics are kept.
\<close>

definition mm_step :: "ucm_state \<Rightarrow> ucm_state \<Rightarrow> bool" where
  "mm_step s s' \<longleftrightarrow> (\<exists>n p l h g prs f a b c.
     s' = s\<lparr>pg_next := n, pg_prev := p, pg_list := l, plists := h, pages := g, procs := prs,
       cools_completed := c, free_ring_requests_handled := f, hot_ring_requests_handled := a,
       cold_ring_requests_handled := b\<rparr>)"

lemma mm_stepI:
  "mm_step s (s\<lparr>pg_next := n, pg_prev := p, pg_list := l, plists := h, pages := g, procs := prs,
       cools_completed := c, free_ring_requests_handled := f, hot_ring_requests_handled := a,
       cold_ring_requests_handled := b\<rparr>)"
  unfolding mm_step_def by blast

lemma mm_step_trans: "\<lbrakk>mm_step s t; mm_step t u\<rbrakk> \<Longrightarrow> mm_step s u"
  by (clarsimp simp: mm_step_def) blast

lemma mm_step_rest:
  "mm_step s (s\<lparr>procs := prs, cools_completed := c, free_ring_requests_handled := f,
     hot_ring_requests_handled := a, cold_ring_requests_handled := b\<rparr>)"
  using mm_stepI [where s = s and n = "pg_next s" and p = "pg_prev s" and l = "pg_list s"
      and h = "plists s" and g = "pages s" and prs = prs and c = c and f = f and a = a and b = b]
  by simp

lemma mm_step_basic [simp]:
  "mm_step s s"
  "mm_step s (s\<lparr>procs := prs\<rparr>)"
  "mm_step s (s\<lparr>procs := prs, cools_completed := c\<rparr>)"
  "mm_step s (s\<lparr>free_ring_requests_handled := f\<rparr>)"
  "mm_step s (s\<lparr>hot_ring_requests_handled := a\<rparr>)"
  "mm_step s (s\<lparr>cold_ring_requests_handled := b\<rparr>)"
  using mm_step_rest [where s = s and prs = "procs s" and c = "cools_completed s"
      and f = "free_ring_requests_handled s" and a = "hot_ring_requests_handled s"
      and b = "cold_ring_requests_handled s"]
    mm_step_rest [where s = s and prs = prs and c = "cools_completed s"
      and f = "free_ring_requests_handled s" and a = "hot_ring_requests_handled s"
      and b = "cold_ring_requests_handled s"]
    mm_step_rest [where s = s and prs = prs and c = c
      and f = "free_ring_requests_handled s" and a = "hot_ring_requests_handled s"
      and b = "cold_ring_requests_handled s"]
    mm_step_rest [where s = s and prs = "procs s" and c = "cools_completed s" and f = f
      and a = "hot_ring_requests_handled s" and b = "cold_ring_requests_handled s"]
    mm_step_rest [where s = s and prs = "procs s" and c = "cools_completed s"
      and f = "free_ring_requests_handled s" and a = a and b = "cold_ring_requests_handled s"]
    mm_step_rest [where s = s and prs = "procs s" and c = "cools_completed s"
      and f = "free_ring_requests_handled s" and a = "hot_ring_requests_handled s" and b = b]
  by simp_all

lemma page_mm_step: "page_step s s' \<Longrightarrow> mm_step s s'"
proof -
  assume "page_step s s'"
  then obtain n p l h g where
    "s' = s\<lparr>pg_next := n, pg_prev := p, pg_list := l, plists := h, pages := g\<rparr>"
    by (auto simp: page_step_def)
  then show ?thesis
    using mm_stepI [where s = s and n = n and p = p and l = l and h = h and g = g
        and prs = "procs s" and c = "cools_completed s" and f = "free_ring_requests_handled s"
        and a = "hot_ring_requests_handled s" and b = "cold_ring_requests_handled s"] by simp
qed

section \<open>The free ring\<close>

definition uncharge :: "bool \<Rightarrow> u64 \<Rightarrow> hemem_process \<Rightarrow> hemem_process" where
  "uncharge fast n P = mm_update (\<lambda>m. if fast then m\<lparr>current_fastmem := current_fastmem m - n\<rparr>
     else m\<lparr>current_slowmem := current_slowmem m - n\<rparr>) P"

definition freed_page :: "hemem_page \<Rightarrow> hemem_page" where
  "freed_page pg = (reset_page_stats pg)\<lparr>in_free_ring := False\<rparr>"

lemma uncharge_frame [simp]:
  "pid (uncharge fast n P) = pid P"
  "cur_cool f (mm (uncharge fast n P)) = cur_cool f (mm P)"
  "free_page_ring (mm (uncharge fast n P)) = free_page_ring (mm P)"
  by (simp_all add: uncharge_def cur_cool_def)

lemma free_page_freed: "in_dram pg = fast \<Longrightarrow> free_page fast (freed_page pg)"
  by (simp add: free_page_def freed_page_def reset_page_stats_def)

lemma return_free_page:
  "return_free_fastmem_page p s =
     assertC (\<not> present (pages s p)) (enqueue_page (tier_free True) p s)"
  "return_free_slowmem_page p s =
     assertC (\<not> present (pages s p)) (enqueue_page (tier_free False) p s)"
  by (simp_all add: return_free_fastmem_page_def return_free_slowmem_page_def)

lemma free_one_page_ok:
  assumes inv: "ucm_inv s" and p: "pg_list s p = Some (bin fast pr i)" and P: "procs s pr = Some P"
  obtains s' where "free_one_page pr p s = Inr s'" "ucm_inv s'" "mm_step s s'"
    "procs s' = (procs s)(pr \<mapsto>
       uncharge fast (pt_to_pagesize (pt (pages s p))) (clear_bookmark p P))"
    "page_seq s' = (page_seq s)(bin fast pr i := remove1 p (page_seq s (bin fast pr i)),
       tier_free fast := p # page_seq s (tier_free fast))"
    "pg_list s' = (pg_list s)(p := Some (tier_free fast))"
    "pages s' = (pages s)(p := freed_page (pages s p))"
proof -
  have b: "in_dram (pages s p) = fast" "hot (pages s p) = i" "pg_pid (pages s p) = pid P"
    "p \<noteq> NULL" "p \<in> set (page_seq s (bin fast pr i))"
    by (rule ucm_inv_bin [OF inv p]; use P in auto)+
  let ?C = "clear_bookmark p P" and ?n = "pt_to_pagesize (pt (pages s p))"
  define s1 where "s1 = s\<lparr>procs := (procs s)(pr \<mapsto> ?C)\<rparr>"
  have inv1: "ucm_inv s1"
    unfolding s1_def by (rule ucm_inv_proc [OF inv P _ clear_bookmark_cur]) simp
  have s1: "pl_wf s1" "page_seq s1 = page_seq s" "pg_list s1 = pg_list s" "pages s1 = pages s"
    "procs s1 pr = Some ?C" "procs s1 = (procs s)(pr \<mapsto> ?C)" "mm_step s s1"
    using inv by (simp_all add: s1_def ucm_inv_def)
  obtain x where x: "page_list_remove (bin fast pr i) p s1 = Inr x" "pl_wf x" "page_step s1 x"
    "page_seq x = (page_seq s1)(bin fast pr i := remove1 p (page_seq s1 (bin fast pr i)))"
    "pg_list x = (pg_list s1)(p := None)" "pages x = pages s1"
    using remove_step [OF s1(1), where p = p and q = "bin fast pr i"] b s1(2) by auto
  let ?x = "upd_page p reset_page_stats x"
  obtain t where t: "enqueue_page (tier_free fast) p ?x = Inr t" "pl_wf t" "page_step ?x t"
    "page_seq t = (page_seq ?x)(tier_free fast := p # page_seq ?x (tier_free fast))"
    "pg_list t = (pg_list ?x)(p := Some (tier_free fast))" "pages t = pages ?x"
    using enqueue_step [of ?x p "tier_free fast"] x b by auto
  have st: "page_step s1 t"
    using x(3) upd_page_step t(3) by (blast intro: page_step_trans)
  have pt: "procs t = procs s1" by (rule page_step_frame [OF st])
  let ?t = "upd_page p (in_free_ring_update (\<lambda>_. False)) t"
  have pg: "pages ?t = (pages s)(p := freed_page (pages s p))"
    using t(6) x(6) s1(4) by (simp add: freed_page_def)
  have invt: "ucm_inv ?t"
  proof (rule ucm_inv_release [OF inv1 _ s1(5)])
    show "pg_list s1 p = Some (bin fast pr i)" using p s1 by simp
    show "cur_cool f (mm ?C) \<noteq> p" for f by (rule clear_bookmark_neq [OF inv P b(4)])
    show "pages ?t = (pages s1)(p := freed_page (pages s p))" using pg s1 by simp
    show "free_page fast (freed_page (pages s p))" by (rule free_page_freed [OF b(1)])
  qed (use t x pt in simp_all)
  let ?U = "uncharge fast ?n ?C"
  define s' where "s' = ?t\<lparr>procs := (procs ?t)(pr \<mapsto> ?U),
    free_ring_requests_handled := free_ring_requests_handled ?t + 1\<rparr>"
  have "ucm_inv (?t\<lparr>procs := (procs ?t)(pr \<mapsto> ?U)\<rparr>)"
    by (rule ucm_inv_proc [OF invt, where P = ?C]) (use pt s1 in simp_all)
  then have inv': "ucm_inv s'" by (simp add: s'_def)
  have "free_one_page pr p s = Inr s'"
    using t(1,6) x(1,6) b p P pt s1 update_current_cool_page_ok [OF inv p P]
    by (cases fast)
      (simp_all add: free_one_page_def return_free_page reset_page_stats_def s'_def uncharge_def
        upd_page_def Let_def flip: s1_def)
  moreover have "mm_step s s'"
  proof -
    have "mm_step s1 ?t"
      using st upd_page_step by (blast intro: page_mm_step page_step_trans)
    moreover have "mm_step ?t s'"
      unfolding s'_def by (rule mm_step_trans [OF mm_step_basic(2) mm_step_basic(4)])
    ultimately show ?thesis using s1(7) by (blast intro: mm_step_trans)
  qed
  ultimately show thesis
    using that [of s'] inv' t(4,5) x(4,5) pt s1 pg by (simp add: s'_def)
qed

text \<open>
  What draining the pages \<open>ps\<close> of a process does: the pages leave the level lists for the
  free list of their tier, in order, and are reset; the process is charged less for them
  and otherwise only its bookmarks and its free ring change; every other page and process
  is as before.
\<close>

definition page_bytes :: "ucm_state \<Rightarrow> bool \<Rightarrow> ptr list \<Rightarrow> u64" where
  "page_bytes s fast ps =
     (\<Sum>p\<leftarrow>filter (\<lambda>p. in_dram (pages s p) = fast) ps. pt_to_pagesize (pt (pages s p)))"

definition drained_proc :: "ucm_state \<Rightarrow> ptr list \<Rightarrow> hemem_process \<Rightarrow> hemem_process \<Rightarrow> bool" where
  "drained_proc s ps P P' \<longleftrightarrow> (\<exists>r a b c d. P' = P\<lparr>mm := (mm P)\<lparr>free_page_ring := r,
     cur_cool_in_fastmem := a, cur_cool_in_fastmem_list := b,
     cur_cool_in_slowmem := c, cur_cool_in_slowmem_list := d,
     current_fastmem := current_fastmem (mm P) - page_bytes s True ps,
     current_slowmem := current_slowmem (mm P) - page_bytes s False ps\<rparr>\<rparr>)"

definition drained :: "ptr \<Rightarrow> ptr list \<Rightarrow> ucm_state \<Rightarrow> ucm_state \<Rightarrow> bool" where
  "drained pr ps s s' \<longleftrightarrow> mm_step s s' \<and>
     pg_list s' = (\<lambda>p. if p \<in> set ps then Some (tier_free (in_dram (pages s p))) else pg_list s p) \<and>
     pages s' = (\<lambda>p. if p \<in> set ps then freed_page (pages s p) else pages s p) \<and>
     (\<forall>f. page_seq s' (tier_free f) =
        rev (filter (\<lambda>p. in_dram (pages s p) = f) ps) @ page_seq s (tier_free f)) \<and>
     (\<forall>f c i. page_seq s' (bin f c i) = filter (\<lambda>p. p \<notin> set ps) (page_seq s (bin f c i))) \<and>
     (\<exists>P P'. procs s pr = Some P \<and> procs s' = (procs s)(pr \<mapsto> P') \<and> drained_proc s ps P P')"

lemma freed_page_simps [simp]:
  "in_dram (freed_page pg) = in_dram pg" "pt (freed_page pg) = pt pg"
  by (simp_all add: freed_page_def reset_page_stats_def)

lemma drained_Nil: "procs s pr = Some P \<Longrightarrow> drained pr [] s s"
proof -
  assume P: "procs s pr = Some P"
  have "drained_proc s [] P P"
    unfolding drained_proc_def page_bytes_def
    by (rule exI [of _ "free_page_ring (mm P)"], rule exI [of _ "cur_cool_in_fastmem (mm P)"],
        rule exI [of _ "cur_cool_in_fastmem_list (mm P)"], rule exI [of _ "cur_cool_in_slowmem (mm P)"],
        rule exI [of _ "cur_cool_in_slowmem_list (mm P)"]) simp
  then show ?thesis
    using P by (auto simp: drained_def map_upd_triv intro!: exI [of _ P])
qed

lemma page_bytes_Cons:
  "page_bytes s f (p # ps) =
     (if in_dram (pages s p) = f then pt_to_pagesize (pt (pages s p)) else 0) + page_bytes s f ps"
  by (simp add: page_bytes_def)

lemma page_bytes_cong:
  "\<lbrakk>\<And>x. x \<in> set ps \<Longrightarrow> pages s x = pages t x\<rbrakk> \<Longrightarrow> page_bytes s f ps = page_bytes t f ps"
  unfolding page_bytes_def
  by (rule arg_cong [where f = sum_list]) (auto cong: filter_cong map_cong)

lemma drained_proc_trans:
  assumes "drained_proc s [p] P Q" and "drained_proc s ps Q R"
  shows "drained_proc s (p # ps) P R"
proof -
  obtain r a b c d where "R = Q\<lparr>mm := (mm Q)\<lparr>free_page_ring := r,
     cur_cool_in_fastmem := a, cur_cool_in_fastmem_list := b,
     cur_cool_in_slowmem := c, cur_cool_in_slowmem_list := d,
     current_fastmem := current_fastmem (mm Q) - page_bytes s True ps,
     current_slowmem := current_slowmem (mm Q) - page_bytes s False ps\<rparr>\<rparr>"
    using assms(2) by (auto simp: drained_proc_def)
  moreover obtain r' a' b' c' d' where "Q = P\<lparr>mm := (mm P)\<lparr>free_page_ring := r',
     cur_cool_in_fastmem := a', cur_cool_in_fastmem_list := b',
     cur_cool_in_slowmem := c', cur_cool_in_slowmem_list := d',
     current_fastmem := current_fastmem (mm P) - page_bytes s True [p],
     current_slowmem := current_slowmem (mm P) - page_bytes s False [p]\<rparr>\<rparr>"
    using assms(1) by (auto simp: drained_proc_def)
  ultimately show ?thesis
    unfolding drained_proc_def
    by (intro exI [of _ r] exI [of _ a] exI [of _ b] exI [of _ c] exI [of _ d])
      (simp add: page_bytes_Cons page_bytes_def [of _ _ "[]"] algebra_simps)
qed

lemma drained_Cons:
  assumes a: "drained pr [p] s t" and b: "drained pr ps t u" and d: "p \<notin> set ps"
  shows "drained pr (p # ps) s u"
proof -
  have pg: "pages t x = pages s x" if "x \<in> set ps" for x
    using a d that by (auto simp: drained_def)
  have fl: "filter (\<lambda>x. in_dram (pages t x) = f) ps = filter (\<lambda>x. in_dram (pages s x) = f) ps" for f
    using pg by (auto intro: filter_cong)
  have pl: "pg_list u = (\<lambda>x. if x \<in> set (p # ps) then Some (tier_free (in_dram (pages s x)))
      else pg_list s x)"
    using a b d pg by (auto simp: drained_def fun_eq_iff)
  have pgs: "pages u = (\<lambda>x. if x \<in> set (p # ps) then freed_page (pages s x) else pages s x)"
    using a b d pg by (auto simp: drained_def fun_eq_iff)
  obtain P Q where P: "procs s pr = Some P" "procs t = (procs s)(pr \<mapsto> Q)" "drained_proc s [p] P Q"
    using a by (auto simp: drained_def)
  moreover obtain R where R: "procs u = (procs t)(pr \<mapsto> R)" "drained_proc t ps Q R"
    using b P(2) by (auto simp: drained_def)
  moreover have "drained_proc s ps Q R"
    using R(2) page_bytes_cong [OF pg] by (simp add: drained_proc_def)
  ultimately have pr: "\<exists>P R. procs s pr = Some P \<and> procs u = (procs s)(pr \<mapsto> R) \<and>
      drained_proc s (p # ps) P R"
    using drained_proc_trans by auto
  have "mm_step s u"
    using a b by (auto simp: drained_def intro: mm_step_trans)
  moreover have "page_seq u (tier_free f) = rev (filter (\<lambda>x. in_dram (pages s x) = f) (p # ps))
      @ page_seq s (tier_free f)" for f
    using a b fl by (simp add: drained_def)
  moreover have "page_seq u (bin f c i) = filter (\<lambda>x. x \<notin> set (p # ps)) (page_seq s (bin f c i))"
    for f c i
    using a b by (simp add: drained_def conj_commute)
  ultimately show ?thesis
    using pl pgs pr unfolding drained_def by blast
qed

definition free_ring_ok :: "ptr \<Rightarrow> ucm_state \<Rightarrow> ptr list \<Rightarrow> bool" where
  "free_ring_ok pr s ps \<longleftrightarrow> (\<exists>P. procs s pr = Some P \<and> ring_wf (free_page_ring (mm P)) \<and>
     ring_list (free_page_ring (mm P)) = ps) \<and> distinct ps \<and>
     (\<forall>p \<in> set ps. \<exists>f i. pg_list s p = Some (bin f pr i))"

lemma filter_notin_singleton: "distinct xs \<Longrightarrow> filter (\<lambda>x. x \<noteq> p) xs = remove1 p xs"
  by (induction xs) (auto simp: filter_id_conv)

lemma drained_proc_one:
  assumes "in_dram (pages s p) = f"
  shows "drained_proc s [p] P (uncharge f (pt_to_pagesize (pt (pages s p)))
    (clear_bookmark p (mm_update (free_page_ring_update (\<lambda>_. r)) P)))"
proof -
  let ?m = "mm P"
  let ?f = "p = cur_cool_in_fastmem ?m" and ?s = "p = cur_cool_in_slowmem ?m"
  have "uncharge f (pt_to_pagesize (pt (pages s p)))
      (clear_bookmark p (mm_update (free_page_ring_update (\<lambda>_. r)) P)) =
    P\<lparr>mm := ?m\<lparr>free_page_ring := r,
      cur_cool_in_fastmem := (if ?f then NULL else cur_cool_in_fastmem ?m),
      cur_cool_in_fastmem_list := (if ?f then 0 else cur_cool_in_fastmem_list ?m),
      cur_cool_in_slowmem := (if \<not> ?f \<and> ?s then NULL else cur_cool_in_slowmem ?m),
      cur_cool_in_slowmem_list := (if \<not> ?f \<and> ?s then 0 else cur_cool_in_slowmem_list ?m),
      current_fastmem := current_fastmem ?m - page_bytes s True [p],
      current_slowmem := current_slowmem ?m - page_bytes s False [p]\<rparr>\<rparr>"
    using assms by (cases P, cases "mm P")
      (simp add: uncharge_def clear_bookmark_def page_bytes_def)
  then show ?thesis
    unfolding drained_proc_def by blast
qed

lemma free_ring_step:
  assumes inv: "ucm_inv s" and ok: "free_ring_ok pr s (p # ps)"
  obtains P r t where "procs s pr = Some P" "\<not> ring_buf_empty (free_page_ring (mm P))"
    "ring_buf_get (free_page_ring (mm P)) = Inr (p, r)" "p \<noteq> NULL"
    "free_one_page pr p (s\<lparr>procs := (procs s)(pr \<mapsto> mm_update (free_page_ring_update (\<lambda>_. r)) P)\<rparr>)
       = Inr t"
    "ucm_inv t" "drained pr [p] s t" "free_ring_ok pr t ps"
proof -
  obtain P where P: "procs s pr = Some P" "ring_wf (free_page_ring (mm P))"
    "ring_list (free_page_ring (mm P)) = p # ps"
    using ok by (auto simp: free_ring_ok_def)
  obtain f i where p: "pg_list s p = Some (bin f pr i)"
    using ok by (auto simp: free_ring_ok_def)
  obtain r where r: "ring_buf_get (free_page_ring (mm P)) = Inr (p, r)" "ring_wf r" "ring_list r = ps"
    using P(2,3) by (rule ring_get_refines)
  let ?P = "mm_update (free_page_ring_update (\<lambda>_. r)) P"
  define s1 where "s1 = s\<lparr>procs := (procs s)(pr \<mapsto> ?P)\<rparr>"
  have inv1: "ucm_inv s1"
    unfolding s1_def by (rule ucm_inv_proc [OF inv P(1)]) (simp_all add: cur_cool_def)
  have s1: "pg_list s1 p = Some (bin f pr i)" "procs s1 pr = Some ?P" "pages s1 = pages s"
    "pg_list s1 = pg_list s" "page_seq s1 = page_seq s" "mm_step s s1"
    using p by (simp_all add: s1_def)
  let ?Q = "uncharge f (pt_to_pagesize (pt (pages s p))) (clear_bookmark p ?P)"
  obtain t where t': "free_one_page pr p s1 = Inr t" "ucm_inv t" "mm_step s1 t"
    "procs t = (procs s1)(pr \<mapsto>
       uncharge f (pt_to_pagesize (pt (pages s1 p))) (clear_bookmark p ?P))"
    "page_seq t = (page_seq s1)(bin f pr i := remove1 p (page_seq s1 (bin f pr i)),
       tier_free f := p # page_seq s1 (tier_free f))"
    "pg_list t = (pg_list s1)(p := Some (tier_free f))"
    "pages t = (pages s1)(p := freed_page (pages s1 p))"
    using inv1 s1(1,2) by (rule free_one_page_ok)
  note t = t' [unfolded s1(3-5)]
  have fp: "in_dram (pages s p) = f" "p \<noteq> NULL" "p \<in> set (page_seq s (bin f pr i))"
    by (rule ucm_inv_bin [OF inv p]; simp)+
  have wf: "pl_wf s" using inv by (simp add: ucm_inv_def)
  have dp: "drained_proc s [p] P ?Q"
    using fp(1) by (rule drained_proc_one)
  have sq: "page_seq t (bin g c j) = filter (\<lambda>x. x \<notin> set [p]) (page_seq s (bin g c j))" for g c j
  proof (cases "bin g c j = bin f pr i")
    case True
    then show ?thesis
      unfolding t(5) True by (simp add: filter_notin_singleton [OF pl_wf_distinct [OF wf]])
  next
    case False
    then have "p \<notin> set (page_seq s (bin g c j))"
      using pl_wf_disjoint [OF wf fp(3), of "bin g c j"] by metis
    then have "filter (\<lambda>x. x \<noteq> p) (page_seq s (bin g c j)) = page_seq s (bin g c j)"
      by (metis (mono_tags, lifting) filter_True)
    then show ?thesis
      unfolding t(5) using False by (simp del: bin_eq_iff(1))
  qed
  have "mm_step s t" using s1(6) t(3) by (rule mm_step_trans)
  moreover have "pg_list t = (\<lambda>x. if x \<in> set [p] then Some (tier_free (in_dram (pages s x))) else pg_list s x)"
    "pages t = (\<lambda>x. if x \<in> set [p] then freed_page (pages s x) else pages s x)"
    using fp(1) by (auto simp: t(6,7))
  moreover have "page_seq t (tier_free g) =
      rev (filter (\<lambda>x. in_dram (pages s x) = g) [p]) @ page_seq s (tier_free g)" for g
    using fp(1) by (simp add: t(5))
  moreover have "procs t = (procs s)(pr \<mapsto> ?Q)"
    by (simp add: t(4) s1_def)
  ultimately have "drained pr [p] s t"
    using sq dp P(1) unfolding drained_def by blast
  moreover have "free_ring_ok pr t ps"
    using ok r t(4,6) by (auto simp: free_ring_ok_def)
  moreover have "\<not> ring_buf_empty (free_page_ring (mm P))"
    using P by (simp add: ring_empty_iff)
  ultimately show thesis
    using that [of P r t] P(1) r(1) fp(2) t(1,2) by (simp add: s1_def)
qed

lemma free_ring_loop_ok:
  assumes "ucm_inv s" and "free_ring_ok pr s ps" and "length ps < fuel"
  obtains s' where "free_ring_loop fuel pr s = Inr s'" "ucm_inv s'" "drained pr ps s s'"
    "free_ring_ok pr s' []"
  using assms
proof (induction fuel arbitrary: s ps thesis)
  case (Suc fuel)
  show ?case
  proof (cases ps)
    case Nil
    obtain P where "procs s pr = Some P" "ring_buf_empty (free_page_ring (mm P))"
      using Suc.prems(3) Nil by (auto simp: free_ring_ok_def ring_empty_iff)
    then show ?thesis
      using Suc.prems Nil drained_Nil by simp
  next
    case (Cons p xs)
    obtain P r t where t: "procs s pr = Some P" "\<not> ring_buf_empty (free_page_ring (mm P))"
      "ring_buf_get (free_page_ring (mm P)) = Inr (p, r)" "p \<noteq> NULL"
      "free_one_page pr p (s\<lparr>procs := (procs s)(pr \<mapsto> mm_update (free_page_ring_update (\<lambda>_. r)) P)\<rparr>)
         = Inr t"
      "ucm_inv t" "drained pr [p] s t" "free_ring_ok pr t xs"
      using free_ring_step [OF Suc.prems(2)] Suc.prems(3) Cons by blast
    obtain s' where s': "free_ring_loop fuel pr t = Inr s'" "ucm_inv s'" "drained pr xs t s'"
      "free_ring_ok pr s' []"
      using Suc.IH [OF _ t(6,8)] Suc.prems(4) Cons by auto
    have "p \<notin> set xs"
      using Suc.prems(3) Cons by (auto simp: free_ring_ok_def)
    then have "drained pr ps s s'"
      using drained_Cons [OF t(7) s'(3)] Cons by simp
    moreover have "free_ring_loop (Suc fuel) pr s = Inr s'"
      using t s'(1) by simp
    ultimately show ?thesis
      using Suc.prems(1) s' by blast
  qed
qed simp

lemma handle_free_page_ring_ok:
  assumes "ucm_inv s" and ok: "free_ring_ok pr s ps"
  obtains s' where "handle_free_page_ring pr s = Inr s'" "ucm_inv s'" "drained pr ps s s'"
    "free_ring_ok pr s' []"
proof -
  obtain P where P: "procs s pr = Some P" "ring_wf (free_page_ring (mm P))"
    "ring_list (free_page_ring (mm P)) = ps"
    using ok by (auto simp: free_ring_ok_def)
  have "length ps < ring_cap (free_page_ring (mm P))"
    using ring_count_bound [OF P(2)] P(2,3) by (auto simp: ring_bound_def ring_wf_def)
  from free_ring_loop_ok [OF assms this] obtain s' where
    "free_ring_loop (ring_cap (free_page_ring (mm P))) pr s = Inr s'" "ucm_inv s'" "drained pr ps s s'"
    "free_ring_ok pr s' []" by blast
  then show thesis
    using that P(1) by (simp add: handle_free_page_ring_def)
qed

end
