(* ===== verification/Level_Requests.thy ===== *)
theory Level_Requests
  imports Mm_Async_Correct
begin

text \<open>
  Serving the hot and cold rings (\<open>handle_hot_requests\<close> and \<open>handle_cold_requests\<close> of
  \<open>src/ucm/mm-async.c\<close>). The two loops differ in the ring, the counter and the order of
  their branches; what they do is proved once, in the locale \<open>level_ring\<close>, which is
  interpreted on both. A request puts its page on the level that its cooled access counts
  give; a page that was freed in the meantime is skipped.
\<close>

section \<open>The level of a page\<close>

text \<open>
  Counts are halved lazily: a page that missed \<open>n\<close> cooling rounds is read as if its counts
  had been shifted right \<open>n\<close> times. The shift is defined for fewer than 64 missed rounds.
\<close>

definition clocks_ok :: "hemem_process \<Rightarrow> hemem_page \<Rightarrow> bool" where
  "clocks_ok P pg \<longleftrightarrow> process_clock P FASTMEM - local_clock pg FASTMEM < 64 \<and>
     process_clock P SLOWMEM - local_clock pg SLOWMEM < 64"

definition cooled :: "hemem_process \<Rightarrow> hemem_page \<Rightarrow> pbuftype \<Rightarrow> u64" where
  "cooled P pg t = drop_bit (unat (process_clock P t - local_clock pg t)) (accesses pg t)"

definition cooled_level :: "config \<Rightarrow> hemem_process \<Rightarrow> hemem_page \<Rightarrow> nat" where
  "cooled_level cfg P pg = access_to_index cfg (cooled P pg FASTMEM) (cooled P pg SLOWMEM)"

definition served_page :: "config \<Rightarrow> hemem_process \<Rightarrow> hemem_page \<Rightarrow> hemem_page" where
  "served_page cfg P pg = pg\<lparr>ring_present := False, hot := cooled_level cfg P pg\<rparr>"

lemma tmp_accesses_ok:
  "clocks_ok P pg \<Longrightarrow> tmp_accesses P pg = Inr (cooled P pg FASTMEM, cooled P pg SLOWMEM)"
  by (simp add: tmp_accesses_def clocks_ok_def cooled_def shiftr_c_def)

lemma cooled_level_bound [simp]: "cooled_level cfg P pg < NUM_HOTNESS_LEVELS"
  by (simp add: cooled_level_def access_to_index_bound)

lemma served_page_simps [simp]:
  "present (served_page cfg P pg) = present pg"
  "in_dram (served_page cfg P pg) = in_dram pg"
  "hot (served_page cfg P pg) = cooled_level cfg P pg"
  "ring_present (served_page cfg P pg) = False"
  "clocks_ok Q (served_page cfg P pg) = clocks_ok Q pg"
  "cooled_level cfg' Q (served_page cfg P pg) = cooled_level cfg' Q pg"
  by (simp_all add: served_page_def clocks_ok_def cooled_level_def cooled_def)

lemma served_page_idem:
  "process_clock Q = process_clock P \<Longrightarrow>
     served_page cfg Q (served_page cfg P pg) = served_page cfg P pg"
  by (simp add: served_page_def cooled_level_def cooled_def)

lemma clock_cong:
  assumes "process_clock Q = process_clock P"
  shows "clocks_ok Q = clocks_ok P" and "cooled_level cfg Q = cooled_level cfg P"
    and "served_page cfg Q = served_page cfg P"
  using assms by (auto simp: clocks_ok_def cooled_level_def cooled_def served_page_def fun_eq_iff)

section \<open>One request\<close>

lemma ucm_inv_page:
  assumes inv: "ucm_inv s" and ok: "\<And>q. list_ok s q (f (pages s p)) = list_ok s q (pages s p)"
  shows "ucm_inv (upd_page p f s)"
proof -
  have lk: "list_ok (upd_page p f s) = list_ok s"
    by (rule list_ok_procs) simp
  have "pages_ok (upd_page p f s)"
    using inv ok by (simp add: pages_ok_def lk ucm_inv_def)
  moreover have "bookmarks_ok (upd_page p f s)"
    using inv by (simp add: ucm_inv_def bookmarks_ok_def)
  ultimately show ?thesis
    using inv by (simp add: ucm_inv_def)
qed

lemma list_ok_ring_present [simp]:
  "list_ok s q (pg\<lparr>ring_present := b\<rparr>) = list_ok s q pg"
  by (cases q) (simp_all add: free_page_def bin_page_def)

lemma serve_request:
  assumes inv: "ucm_inv s" and p: "pg_list s p = Some (bin fast pr i)" and P: "procs s pr = Some P"
  obtains s' where
    "andThen (update_current_cool_page pr p s) (\<lambda>t.
       make_hot pr p (cooled_level cfg P (pages s p)) (upd_page p (ring_present_update (\<lambda>_. False)) t))
     = Inr s'"
    "ucm_inv s'" "mm_step s s'" "pages s' = (pages s)(p := served_page cfg P (pages s p))"
    "pg_list s' = (pg_list s)(p := Some (bin fast pr (cooled_level cfg P (pages s p))))"
    "procs s' = (procs s)(pr \<mapsto> clear_bookmark p P)"
proof -
  let ?t = "s\<lparr>procs := (procs s)(pr \<mapsto> clear_bookmark p P)\<rparr>"
  let ?u = "upd_page p (ring_present_update (\<lambda>_. False)) ?t"
  have "ucm_inv ?t"
    by (rule ucm_inv_proc [OF inv P _ clear_bookmark_cur]) simp
  then have inv2: "ucm_inv ?u"
    by (rule ucm_inv_page) simp
  have p2: "pg_list ?u p = Some (bin fast pr i)"
    using p by simp
  let ?j = "cooled_level cfg P (pages s p)"
  obtain s' where s': "make_hot pr p ?j ?u = Inr s'" "ucm_inv s'" "page_step ?u s'"
    "pages s' = (pages ?u)(p := (pages ?u p)\<lparr>hot := ?j\<rparr>)"
    "pg_list s' = (pg_list ?u)(p := Some (bin fast pr ?j))"
    using inv2 p2 cooled_level_bound by (rule make_hot_ok)
  have "mm_step s ?t" by simp
  moreover have "mm_step ?t s'"
    using upd_page_step s'(3) by (blast intro: page_mm_step page_step_trans)
  ultimately have "mm_step s s'" by (rule mm_step_trans)
  moreover have "procs s' = procs ?u"
    by (rule page_step_frame [OF s'(3)])
  ultimately show thesis
    using that [of s'] s' update_current_cool_page_ok [OF inv p P]
    by (simp add: served_page_def)
qed

text \<open>Both branches of a request do the same.\<close>

lemma one_page_eq:
  assumes "procs s pr = Some P" and "clocks_ok P (pages s p)" and "pg_pid (pages s p) = pid P"
    and "andThen (update_current_cool_page pr p s) (\<lambda>t.
       make_hot pr p (cooled_level cfg P (pages s p)) (upd_page p (ring_present_update (\<lambda>_. False)) t))
     = Inr s'"
  shows "hot_one_page cfg pr p s =
      Inr (s'\<lparr>hot_ring_requests_handled := hot_ring_requests_handled s' + 1\<rparr>)"
    and "cold_one_page cfg pr p s =
      Inr (s'\<lparr>cold_ring_requests_handled := cold_ring_requests_handled s' + 1\<rparr>)"
proof -
  obtain t where t: "update_current_cool_page pr p s = Inr t"
    "make_hot pr p (cooled_level cfg P (pages s p)) (upd_page p (ring_present_update (\<lambda>_. False)) t)
     = Inr s'"
    using assms(4) by (auto simp: andThen_eq_Inr)
  show "hot_one_page cfg pr p s =
      Inr (s'\<lparr>hot_ring_requests_handled := hot_ring_requests_handled s' + 1\<rparr>)"
    "cold_one_page cfg pr p s =
      Inr (s'\<lparr>cold_ring_requests_handled := cold_ring_requests_handled s' + 1\<rparr>)"
    using assms(1-3) t
    by (simp_all add: hot_one_page_def cold_one_page_def tmp_accesses_ok make_cold_eq_make_hot
        Let_def flip: cooled_level_def)
qed

section \<open>Serving a sequence of requests\<close>

text \<open>A request is ready when its page is on a list of the process, or was freed.\<close>

definition level_ready :: "ptr \<Rightarrow> ucm_state \<Rightarrow> ptr \<Rightarrow> bool" where
  "level_ready pr s p \<longleftrightarrow> p \<noteq> NULL \<and>
     (if present (pages s p)
      then (\<exists>f i. pg_list s p = Some (bin f pr i)) \<and> (\<forall>P. procs s pr = Some P \<longrightarrow> clocks_ok P (pages s p))
      else pg_list s p = Some (tier_free (in_dram (pages s p))))"

text \<open>Of the process, only the bookmarks and the two rings change.\<close>

definition ring_step :: "hemem_process \<Rightarrow> hemem_process \<Rightarrow> bool" where
  "ring_step P P' \<longleftrightarrow> (\<exists>h k a b c d. P' = P\<lparr>mm := (mm P)\<lparr>hot_ring := h, cold_ring := k,
     cur_cool_in_fastmem := a, cur_cool_in_fastmem_list := b,
     cur_cool_in_slowmem := c, cur_cool_in_slowmem_list := d\<rparr>\<rparr>)"

definition served :: "config \<Rightarrow> ptr \<Rightarrow> ptr list \<Rightarrow> ucm_state \<Rightarrow> ucm_state \<Rightarrow> bool" where
  "served cfg pr ps s s' \<longleftrightarrow> mm_step s s' \<and>
     (\<exists>P P'. procs s pr = Some P \<and> procs s' = (procs s)(pr \<mapsto> P') \<and> ring_step P P' \<and>
        pages s' = (\<lambda>p. if p \<in> set ps \<and> present (pages s p)
          then served_page cfg P (pages s p) else pages s p) \<and>
        pg_list s' = (\<lambda>p. if p \<in> set ps \<and> present (pages s p)
          then Some (bin (in_dram (pages s p)) pr (cooled_level cfg P (pages s p)))
          else pg_list s p))"

lemma ring_stepI:
  "ring_step P (P\<lparr>mm := (mm P)\<lparr>hot_ring := h, cold_ring := k,
     cur_cool_in_fastmem := a, cur_cool_in_fastmem_list := b,
     cur_cool_in_slowmem := c, cur_cool_in_slowmem_list := d\<rparr>\<rparr>)"
  unfolding ring_step_def by blast

lemma ring_step_trans: "\<lbrakk>ring_step P Q; ring_step Q R\<rbrakk> \<Longrightarrow> ring_step P R"
  by (clarsimp simp: ring_step_def) blast

lemma ring_step_frame:
  assumes "ring_step P P'"
  shows "process_clock P' = process_clock P" and "pid P' = pid P"
    and "free_page_ring (mm P') = free_page_ring (mm P)"
    and "current_fastmem (mm P') = current_fastmem (mm P)"
    and "current_slowmem (mm P') = current_slowmem (mm P)"
  using assms by (auto simp: ring_step_def)

lemma ring_step_basic:
  "ring_step P P" "ring_step P (clear_bookmark p P)"
  "ring_step P (mm_update (hot_ring_update (\<lambda>_. r)) P)"
  "ring_step P (mm_update (cold_ring_update (\<lambda>_. r)) P)"
proof -
  let ?m = "mm P"
  note I = ring_stepI [where P = P]
  show "ring_step P P"
    using I [where h = "hot_ring ?m" and k = "cold_ring ?m" and a = "cur_cool_in_fastmem ?m"
        and b = "cur_cool_in_fastmem_list ?m" and c = "cur_cool_in_slowmem ?m"
        and d = "cur_cool_in_slowmem_list ?m"] by simp
  show "ring_step P (mm_update (hot_ring_update (\<lambda>_. r)) P)"
    using I [where h = r and k = "cold_ring ?m" and a = "cur_cool_in_fastmem ?m"
        and b = "cur_cool_in_fastmem_list ?m" and c = "cur_cool_in_slowmem ?m"
        and d = "cur_cool_in_slowmem_list ?m"] by (cases P, cases ?m) simp
  show "ring_step P (mm_update (cold_ring_update (\<lambda>_. r)) P)"
    using I [where h = "hot_ring ?m" and k = r and a = "cur_cool_in_fastmem ?m"
        and b = "cur_cool_in_fastmem_list ?m" and c = "cur_cool_in_slowmem ?m"
        and d = "cur_cool_in_slowmem_list ?m"] by (cases P, cases ?m) simp
  let ?f = "p = cur_cool_in_fastmem ?m" and ?s = "p = cur_cool_in_slowmem ?m"
  have "clear_bookmark p P = P\<lparr>mm := ?m\<lparr>hot_ring := hot_ring ?m, cold_ring := cold_ring ?m,
      cur_cool_in_fastmem := (if ?f then NULL else cur_cool_in_fastmem ?m),
      cur_cool_in_fastmem_list := (if ?f then 0 else cur_cool_in_fastmem_list ?m),
      cur_cool_in_slowmem := (if \<not> ?f \<and> ?s then NULL else cur_cool_in_slowmem ?m),
      cur_cool_in_slowmem_list := (if \<not> ?f \<and> ?s then 0 else cur_cool_in_slowmem_list ?m)\<rparr>\<rparr>"
    by (cases P, cases "mm P") (simp add: clear_bookmark_def)
  then show "ring_step P (clear_bookmark p P)"
    unfolding ring_step_def by blast
qed

lemma served_trans:
  assumes a: "served cfg pr [p] s t" and b: "served cfg pr ps t u"
  shows "served cfg pr (p # ps) s u"
proof -
  obtain P Q where P: "mm_step s t" "procs s pr = Some P" "procs t = (procs s)(pr \<mapsto> Q)"
    "ring_step P Q"
    "pages t = (\<lambda>x. if x \<in> set [p] \<and> present (pages s x) then served_page cfg P (pages s x) else pages s x)"
    "pg_list t = (\<lambda>x. if x \<in> set [p] \<and> present (pages s x)
       then Some (bin (in_dram (pages s x)) pr (cooled_level cfg P (pages s x))) else pg_list s x)"
    using a unfolding served_def by blast
  obtain R where R: "mm_step t u" "procs u = (procs t)(pr \<mapsto> R)" "ring_step Q R"
    "pages u = (\<lambda>x. if x \<in> set ps \<and> present (pages t x) then served_page cfg Q (pages t x) else pages t x)"
    "pg_list u = (\<lambda>x. if x \<in> set ps \<and> present (pages t x)
       then Some (bin (in_dram (pages t x)) pr (cooled_level cfg Q (pages t x))) else pg_list t x)"
    using b P(3) unfolding served_def by auto
  have Q: "process_clock Q = process_clock P" using P(4) by (rule ring_step_frame)
  have "pages u x = (if x \<in> set (p # ps) \<and> present (pages s x) then served_page cfg P (pages s x) else pages s x)"
    for x
    unfolding R(4) P(5) clock_cong(3) [OF Q] by (auto simp: served_page_idem)
  moreover have "pg_list u x = (if x \<in> set (p # ps) \<and> present (pages s x)
      then Some (bin (in_dram (pages s x)) pr (cooled_level cfg P (pages s x))) else pg_list s x)" for x
    unfolding R(5) P(5,6) clock_cong(2) [OF Q] by auto
  moreover have "mm_step s u" "ring_step P R" "procs u = (procs s)(pr \<mapsto> R)"
    using P(1,3,4) R(1-3) by (auto intro: mm_step_trans ring_step_trans)
  ultimately show ?thesis
    using P(2) unfolding served_def by blast
qed

lemma servedI:
  assumes "mm_step s s'" and "procs s pr = Some P" and "procs s' = (procs s)(pr \<mapsto> P')"
    and "ring_step P P'"
    and "\<And>x. pages s' x = (if x \<in> set ps \<and> present (pages s x)
      then served_page cfg P (pages s x) else pages s x)"
    and "\<And>x. pg_list s' x = (if x \<in> set ps \<and> present (pages s x)
      then Some (bin (in_dram (pages s x)) pr (cooled_level cfg P (pages s x))) else pg_list s x)"
  shows "served cfg pr ps s s'"
  using assms unfolding served_def fun_eq_iff by metis

lemma served_proc_ring:
  assumes P: "procs s pr = Some P" and st: "ring_step P P1"
    and sv: "served cfg pr ps (s\<lparr>procs := (procs s)(pr \<mapsto> P1)\<rparr>) t"
  shows "served cfg pr ps s t"
proof -
  let ?s = "s\<lparr>procs := (procs s)(pr \<mapsto> P1)\<rparr>"
  have ck: "process_clock P1 = process_clock P" using st by (rule ring_step_frame)
  obtain Q where Q: "mm_step ?s t" "procs t = (procs ?s)(pr \<mapsto> Q)" "ring_step P1 Q"
    "pages t = (\<lambda>x. if x \<in> set ps \<and> present (pages ?s x)
       then served_page cfg P1 (pages ?s x) else pages ?s x)"
    "pg_list t = (\<lambda>x. if x \<in> set ps \<and> present (pages ?s x)
       then Some (bin (in_dram (pages ?s x)) pr (cooled_level cfg P1 (pages ?s x))) else pg_list ?s x)"
    using sv unfolding served_def by auto
  show ?thesis
  proof (rule servedI [where P = P and P' = Q])
    show "mm_step s t" by (rule mm_step_trans [OF mm_step_basic(2) Q(1)])
    show "ring_step P Q" using st Q(3) by (rule ring_step_trans)
  qed (use P Q(2,4,5) in \<open>simp_all add: clock_cong [OF ck]\<close>)
qed

lemma served_Nil: "procs s pr = Some P \<Longrightarrow> served cfg pr [] s s"
  by (auto simp: served_def map_upd_triv intro!: exI [of _ P] ring_step_basic)

lemma served_present:
  "served cfg pr ps s t \<Longrightarrow> present (pages t x) = present (pages s x)"
  by (auto simp: served_def split: if_splits)

lemma served_ready:
  assumes "served cfg pr ps s t" and "level_ready pr s x"
  shows "level_ready pr t x"
proof -
  obtain P Q where "procs s pr = Some P" "procs t pr = Some Q" "process_clock Q = process_clock P"
    "pages t x = (if x \<in> set ps \<and> present (pages s x) then served_page cfg P (pages s x) else pages s x)"
    "pg_list t x = (if x \<in> set ps \<and> present (pages s x)
       then Some (bin (in_dram (pages s x)) pr (cooled_level cfg P (pages s x))) else pg_list s x)"
    using assms(1) ring_step_frame(1) unfolding served_def by fastforce
  then show ?thesis
    using assms(2) clock_cong(1) [of Q P] by (auto simp: level_ready_def)
qed

section \<open>The contract of the two rings\<close>

locale level_ring =
  fixes ring :: "process_mem \<Rightarrow> ring_buf_t"
    and other :: "process_mem \<Rightarrow> ring_buf_t"
    and set_ring :: "ring_buf_t \<Rightarrow> process_mem \<Rightarrow> process_mem"
    and one_page :: "config \<Rightarrow> ptr \<Rightarrow> ptr \<Rightarrow> ucm_state \<Rightarrow> ucm_state result"
    and tick :: "ucm_state \<Rightarrow> ucm_state"
    and loop :: "config \<Rightarrow> nat \<Rightarrow> nat \<Rightarrow> ptr \<Rightarrow> ucm_state \<Rightarrow> ucm_state result"
    and threshold :: nat
  assumes ring_laws: "ring (set_ring r m) = r" "other (set_ring r m) = other m"
      "cur_cool f (set_ring r m) = cur_cool f m"
    and set_ring_step: "ring_step P (mm_update (set_ring r) P)"
    and clear_laws: "ring (mm (clear_bookmark p P)) = ring (mm P)"
      "other (mm (clear_bookmark p P)) = other (mm P)"
    and tick_laws: "ucm_inv (tick s) = ucm_inv s" "mm_step s (tick s)" "pages (tick s) = pages s"
      "pg_list (tick s) = pg_list s" "procs (tick s) = procs s"
    and one_page_law: "\<lbrakk>procs s pr = Some P; clocks_ok P (pages s p); pg_pid (pages s p) = pid P;
      andThen (update_current_cool_page pr p s) (\<lambda>t. make_hot pr p
        (cooled_level cfg P (pages s p)) (upd_page p (ring_present_update (\<lambda>_. False)) t)) = Inr s'\<rbrakk>
      \<Longrightarrow> one_page cfg pr p s = Inr (tick s')"
    and loop_law: "loop cfg (Suc fuel) n pr s =
      andThen (get_proc pr s) (\<lambda>P.
      if ring_buf_empty (ring (mm P)) \<or> \<not> n < threshold then Inr s
      else andThen (ring_buf_get (ring (mm P))) (\<lambda>(p, r).
           andThen (upd_mm pr (set_ring r) s) (\<lambda>s.
           if p = NULL then Inr s
           else if \<not> present (pages s p)
           then andThen (assert_page_freed p s) (\<lambda>s. loop cfg fuel n pr (tick s))
           else andThen (one_page cfg pr p s) (loop cfg fuel (n + 1) pr))))"
begin

lemma freed_request:
  assumes inv: "ucm_inv s" and P: "procs s pr = Some P"
    and p: "\<not> present (pages s p)" "pg_list s p = Some (tier_free (in_dram (pages s p)))"
  shows "assert_page_freed p s = Inr s" and "ucm_inv (tick s)" and "served cfg pr [p] s (tick s)"
proof -
  show "assert_page_freed p s = Inr s"
    using p by (cases "in_dram (pages s p)") (simp_all add: assert_page_freed_def)
  show "ucm_inv (tick s)"
    using inv by (simp add: tick_laws)
  show "served cfg pr [p] s (tick s)"
    by (rule servedI [where P = P and P' = P])
      (use P p in \<open>auto simp: tick_laws map_upd_triv ring_step_basic\<close>)
qed

lemma live_request:
  assumes inv: "ucm_inv s" and P: "procs s pr = Some P"
    and p: "pg_list s p = Some (bin f pr i)" "clocks_ok P (pages s p)"
  obtains t where "one_page cfg pr p s = Inr t" "ucm_inv t" "served cfg pr [p] s t"
    "procs t pr = Some (clear_bookmark p P)"
proof -
  have b: "in_dram (pages s p) = f" "pg_pid (pages s p) = pid P" "present (pages s p)"
    by (rule ucm_inv_bin [OF inv p(1)]; use P in auto)+
  obtain s' where s': "andThen (update_current_cool_page pr p s) (\<lambda>t.
       make_hot pr p (cooled_level cfg P (pages s p)) (upd_page p (ring_present_update (\<lambda>_. False)) t))
     = Inr s'"
    "ucm_inv s'" "mm_step s s'" "pages s' = (pages s)(p := served_page cfg P (pages s p))"
    "pg_list s' = (pg_list s)(p := Some (bin f pr (cooled_level cfg P (pages s p))))"
    "procs s' = (procs s)(pr \<mapsto> clear_bookmark p P)"
    using inv p(1) P by (rule serve_request)
  have "one_page cfg pr p s = Inr (tick s')"
    using P p(2) b(2) s'(1) by (rule one_page_law)
  moreover have "mm_step s (tick s')"
    using s'(3) tick_laws(2) by (rule mm_step_trans)
  then have "served cfg pr [p] s (tick s')"
    by (rule servedI [where P = P and P' = "clear_bookmark p P"])
      (use P b s' in \<open>simp_all add: tick_laws ring_step_basic\<close>)
  ultimately show thesis
    using that [of "tick s'"] s' by (simp add: tick_laws)
qed

lemma request_step:
  assumes inv: "ucm_inv s" and P: "procs s pr = Some P" and r: "ring_wf (ring (mm P))"
    "ring_list (ring (mm P)) = p # ps" and ready: "level_ready pr s p" and n: "n < threshold"
  obtains Q t where
    "loop cfg (Suc fuel) n pr s = loop cfg fuel (if present (pages s p) then n + 1 else n) pr t"
    "ucm_inv t" "served cfg pr [p] s t" "procs t pr = Some Q"
    "ring_wf (ring (mm Q))" "ring_list (ring (mm Q)) = ps" "other (mm Q) = other (mm P)"
proof -
  obtain r' where r': "ring_buf_get (ring (mm P)) = Inr (p, r')" "ring_wf r'" "ring_list r' = ps"
    using r by (rule ring_get_refines)
  let ?P = "mm_update (set_ring r') P"
  let ?s = "s\<lparr>procs := (procs s)(pr \<mapsto> ?P)\<rparr>"
  have ck: "process_clock ?P = process_clock P" using set_ring_step by (rule ring_step_frame)
  have inv1: "ucm_inv ?s"
    by (rule ucm_inv_proc [OF inv P]) (simp_all add: ring_laws)
  have ne: "\<not> ring_buf_empty (ring (mm P))" using r by (simp add: ring_empty_iff)
  note sv = served_proc_ring [OF P set_ring_step]
  show thesis
  proof (cases "present (pages s p)")
    case True
    obtain f i where p: "pg_list ?s p = Some (bin f pr i)" and c: "clocks_ok ?P (pages ?s p)"
      using ready P True clock_cong(1) [OF ck] by (auto simp: level_ready_def)
    obtain t where t: "one_page cfg pr p ?s = Inr t" "ucm_inv t" "served cfg pr [p] ?s t"
      "procs t pr = Some (clear_bookmark p ?P)"
      by (rule live_request [OF inv1 _ p c]) auto
    show thesis
      by (rule that [of t "clear_bookmark p ?P"])
        (use True n t P ne r' ready sv [OF t(3)] in \<open>simp_all add: loop_law clear_laws ring_laws level_ready_def\<close>)
  next
    case False
    then have p: "\<not> present (pages ?s p)" "pg_list ?s p = Some (tier_free (in_dram (pages ?s p)))"
      using ready by (simp_all add: level_ready_def)
    have P1: "procs ?s pr = Some ?P" by simp
    note t = freed_request [OF inv1 P1 p]
    show thesis
      by (rule that [of "tick ?s" ?P])
        (use False n t P ne r' ready sv [OF t(3)] in \<open>simp_all add: loop_law ring_laws level_ready_def tick_laws\<close>)
  qed
qed

lemma loop_ok:
  assumes "ucm_inv s" and "procs s pr = Some P" and "ring_wf (ring (mm P))"
    and "ring_list (ring (mm P)) = ps" and "\<forall>p \<in> set ps. level_ready pr s p" and "length ps < fuel"
  shows "\<exists>k s' Q. loop cfg fuel n pr s = Inr s' \<and> ucm_inv s' \<and> served cfg pr (take k ps) s s' \<and>
    procs s' pr = Some Q \<and> ring_wf (ring (mm Q)) \<and> ring_list (ring (mm Q)) = drop k ps \<and>
    other (mm Q) = other (mm P) \<and>
    (k < length ps \<longrightarrow> threshold \<le> n + length (filter (\<lambda>p. present (pages s p)) (take k ps)))"
  using assms
proof (induction fuel arbitrary: s ps P n)
  case (Suc fuel)
  show ?case
  proof (cases "ps = [] \<or> \<not> n < threshold")
    case True
    then have "loop cfg (Suc fuel) n pr s = Inr s"
      using Suc.prems by (auto simp: loop_law ring_empty_iff)
    then show ?thesis
      using Suc.prems served_Nil [of s pr P cfg] True
      by (intro exI [of _ 0] exI [of _ s] exI [of _ P]) auto
  next
    case False
    then obtain p xs where ps: "ps = p # xs" and n: "n < threshold" by (cases ps) auto
    have r: "ring_list (ring (mm P)) = p # xs" "level_ready pr s p"
      using Suc.prems(4,5) ps by simp_all
    let ?n = "if present (pages s p) then n + 1 else n"
    obtain Q t where t: "loop cfg (Suc fuel) n pr s = loop cfg fuel ?n pr t"
      "ucm_inv t" "served cfg pr [p] s t" "procs t pr = Some Q"
      "ring_wf (ring (mm Q))" "ring_list (ring (mm Q)) = xs" "other (mm Q) = other (mm P)"
      using Suc.prems(1-3) r n by (rule request_step)
    have "\<forall>x \<in> set xs. level_ready pr t x"
      using Suc.prems(5) ps served_ready [OF t(3)] by simp
    from Suc.IH [OF t(2,4,5,6) this, of ?n] Suc.prems(6) ps
    obtain k s' R where s': "loop cfg fuel ?n pr t = Inr s'" "ucm_inv s'"
      "served cfg pr (take k xs) t s'" "procs s' pr = Some R" "ring_wf (ring (mm R))"
      "ring_list (ring (mm R)) = drop k xs" "other (mm R) = other (mm Q)"
      "k < length xs \<longrightarrow> threshold \<le> ?n + length (filter (\<lambda>p. present (pages t p)) (take k xs))"
      by auto
    have "served cfg pr (take (Suc k) ps) s s'"
      using served_trans [OF t(3) s'(3)] ps by simp
    moreover have "Suc k < length ps \<longrightarrow>
        threshold \<le> n + length (filter (\<lambda>p. present (pages s p)) (take (Suc k) ps))"
      using s'(8) ps served_present [OF t(3)] by (auto split: if_splits)
    ultimately show ?thesis
      using s' t ps by (intro exI [of _ "Suc k"] exI [of _ s'] exI [of _ R]) simp
  qed
qed simp

end

section \<open>The two rings\<close>

interpretation hot_reqs: level_ring hot_ring cold_ring "\<lambda>r. hot_ring_update (\<lambda>_. r)" hot_one_page
  "\<lambda>s. s\<lparr>hot_ring_requests_handled := hot_ring_requests_handled s + 1\<rparr>"
  hot_ring_loop HOT_RING_REQS_THRESHOLD
  by unfold_locales
    (simp_all add: cur_cool_def ring_step_basic one_page_eq split_def Let_def)

interpretation cold_reqs: level_ring cold_ring hot_ring "\<lambda>r. cold_ring_update (\<lambda>_. r)" cold_one_page
  "\<lambda>s. s\<lparr>cold_ring_requests_handled := cold_ring_requests_handled s + 1\<rparr>"
  cold_ring_loop COLD_RING_REQS_THRESHOLD
  by unfold_locales
    (simp_all add: cur_cool_def ring_step_basic one_page_eq split_def Let_def)

end
