(* ===== verification/Cooling.thy ===== *)
theory Cooling
  imports Level_Requests
begin

text \<open>
  Incremental cooling (\<open>__partial_cool_impl\<close> of \<open>src/ucm/mm-async.c\<close>). Every page the walk
  visits ends on the level of its cooled counts. A walk that starts afresh on a tier with
  fewer pages than half its budget settles every page above level 0 and completes. A walk
  that runs out of budget hands back the page it started from.
\<close>

section \<open>One page\<close>

lemma cool_page_ok:
  assumes inv: "ucm_inv s" and p: "pg_list s p = Some (bin fast pr i)" and P: "procs s pr = Some P"
    and ck: "clocks_ok P (pages s p)"
  obtains t where
    "cool_page cfg fast pr p level s = Inr (prev_page (bin fast pr level) p s, t)"
    "ucm_inv t" "page_step s t"
    "pages t = (pages s)(p := (pages s p)\<lparr>hot := cooled_level cfg P (pages s p)\<rparr>)"
    "pg_list t = (pg_list s)(p := Some (bin fast pr (cooled_level cfg P (pages s p))))"
    "page_seq t = (if cooled_level cfg P (pages s p) = i then page_seq s else (page_seq s)
       (bin fast pr i := remove1 p (page_seq s (bin fast pr i)),
        bin fast pr (cooled_level cfg P (pages s p)) :=
          p # page_seq s (bin fast pr (cooled_level cfg P (pages s p)))))"
proof -
  let ?j = "cooled_level cfg P (pages s p)"
  have b: "in_dram (pages s p) = fast" "hot (pages s p) = i" "pg_pid (pages s p) = pid P"
    "p \<noteq> NULL" "p \<in> set (page_seq s (bin fast pr i))"
    by (rule ucm_inv_bin [OF inv p]; use P in auto)+
  have wf: "pl_wf s" using inv by (simp add: ucm_inv_def)
  show thesis
  proof (cases "?j = i")
    case True
    have "cool_page cfg fast pr p level s = Inr (prev_page (bin fast pr level) p s, s)"
      using P p b True by (simp add: cool_page_def tmp_accesses_ok [OF ck] Let_def flip: cooled_level_def)
    then show thesis
      using that [of s] True inv b p by (simp add: fun_upd_idem)
  next
    case False
    let ?u = "upd_page p (hot_update (\<lambda>_. ?j)) s"
    have wfu: "pl_wf ?u" "p \<in> set (page_seq ?u (bin fast pr i))"
      using wf b by simp_all
    obtain x where x: "page_list_remove (bin fast pr i) p ?u = Inr x" "pl_wf x" "page_step ?u x"
      "page_seq x = (page_seq ?u)(bin fast pr i := remove1 p (page_seq ?u (bin fast pr i)))"
      "pg_list x = (pg_list ?u)(p := None)" "pages x = pages ?u"
      using wfu by (rule remove_step)
    have px: "pg_list x p = None" using x(5) by simp
    obtain t where t: "enqueue_page (bin fast pr ?j) p x = Inr t" "pl_wf t" "page_step x t"
      "page_seq t = (page_seq x)(bin fast pr ?j := p # page_seq x (bin fast pr ?j))"
      "pg_list t = (pg_list x)(p := Some (bin fast pr ?j))" "pages t = pages x"
      using x(2) b(4) px by (rule enqueue_step)
    have st: "page_step s t"
      using upd_page_step x(3) t(3) by (blast intro: page_step_trans)
    have pl: "pg_list t = (pg_list s)(p := Some (bin fast pr ?j))"
      "pages t = (pages s)(p := (pages s p)\<lparr>hot := ?j\<rparr>)"
      using x t by simp_all
    have "ucm_inv t"
      by (rule ucm_inv_relevel [OF inv p t(2) st pl cooled_level_bound])
    moreover have "cool_page cfg fast pr p level s = Inr (prev_page (bin fast pr level) p s, t)"
      using P p b False x(1) t(1)
      by (simp add: cool_page_def tmp_accesses_ok [OF ck] Let_def flip: cooled_level_def)
    ultimately show thesis
      using that [of t] st pl x(4) t(4) False by simp
  qed
qed

section \<open>What a walk changes\<close>

definition on_tier :: "bool \<Rightarrow> ptr \<Rightarrow> ucm_state \<Rightarrow> ptr \<Rightarrow> bool" where
  "on_tier fast pr s p \<longleftrightarrow> (\<exists>i. pg_list s p = Some (bin fast pr i))"

definition cooled_to :: "config \<Rightarrow> hemem_process \<Rightarrow> bool \<Rightarrow> ptr \<Rightarrow> ucm_state \<Rightarrow> ucm_state \<Rightarrow> bool" where
  "cooled_to cfg P fast pr s s' \<longleftrightarrow> (\<forall>x.
     (pages s' x = pages s x \<and> pg_list s' x = pg_list s x) \<or>
     (on_tier fast pr s x \<and>
      pages s' x = (pages s x)\<lparr>hot := cooled_level cfg P (pages s x)\<rparr> \<and>
      pg_list s' x = Some (bin fast pr (cooled_level cfg P (pages s x)))))"

lemma cooled_level_hot [simp]:
  "cooled_level cfg P (pg\<lparr>hot := j\<rparr>) = cooled_level cfg P pg"
  "clocks_ok P (pg\<lparr>hot := j\<rparr>) = clocks_ok P pg"
  by (simp_all add: cooled_level_def cooled_def clocks_ok_def)

lemma cooled_to_refl [simp]: "cooled_to cfg P fast pr s s"
  by (simp add: cooled_to_def)

lemma cooled_to_trans:
  assumes a: "cooled_to cfg P fast pr s t" and b: "cooled_to cfg P fast pr t u"
  shows "cooled_to cfg P fast pr s u"
  unfolding cooled_to_def
proof
  fix x
  show "(pages u x = pages s x \<and> pg_list u x = pg_list s x) \<or>
     (on_tier fast pr s x \<and>
      pages u x = (pages s x)\<lparr>hot := cooled_level cfg P (pages s x)\<rparr> \<and>
      pg_list u x = Some (bin fast pr (cooled_level cfg P (pages s x))))"
    using a [unfolded cooled_to_def, rule_format, of x] b [unfolded cooled_to_def, rule_format, of x]
    by (elim disjE conjE) (simp_all add: on_tier_def)
qed

lemma cooled_to_bin:
  assumes "cooled_to cfg P fast pr s t"
  shows "on_tier f c t x = on_tier f c s x"
    and "clocks_ok P (pages t x) = clocks_ok P (pages s x)"
    and "cooled_level cfg P (pages t x) = cooled_level cfg P (pages s x)"
  using assms [unfolded cooled_to_def, rule_format, of x]
  by (elim disjE conjE; auto simp: on_tier_def)+

definition tier_clocks_ok :: "hemem_process \<Rightarrow> bool \<Rightarrow> ptr \<Rightarrow> ucm_state \<Rightarrow> bool" where
  "tier_clocks_ok P fast pr s \<longleftrightarrow>
     (\<forall>x. on_tier fast pr s x \<longrightarrow> clocks_ok P (pages s x))"

lemma cooled_to_clocks:
  "\<lbrakk>cooled_to cfg P fast pr s t; tier_clocks_ok P fast pr s\<rbrakk> \<Longrightarrow> tier_clocks_ok P fast pr t"
  unfolding tier_clocks_ok_def using cooled_to_bin by meson

lemma cool_page_step:
  assumes inv: "ucm_inv s" and P: "procs s pr = Some P" and ck: "tier_clocks_ok P fast pr s"
    and p: "pg_list s p = Some (bin fast pr i)"
  obtains t where
    "cool_page cfg fast pr p level s = Inr (prev_page (bin fast pr level) p s, t)"
    "ucm_inv t" "page_step s t" "cooled_to cfg P fast pr s t" "tier_clocks_ok P fast pr t"
    "page_seq t = (if cooled_level cfg P (pages s p) = i then page_seq s else (page_seq s)
       (bin fast pr i := remove1 p (page_seq s (bin fast pr i)),
        bin fast pr (cooled_level cfg P (pages s p)) :=
          p # page_seq s (bin fast pr (cooled_level cfg P (pages s p)))))"
    "hot (pages t p) = cooled_level cfg P (pages t p)"
    "\<And>x. x \<noteq> p \<Longrightarrow> pages t x = pages s x"
proof -
  have c: "clocks_ok P (pages s p)"
    using ck p by (auto simp: tier_clocks_ok_def on_tier_def)
  obtain t where t: "cool_page cfg fast pr p level s = Inr (prev_page (bin fast pr level) p s, t)"
    "ucm_inv t" "page_step s t"
    "pages t = (pages s)(p := (pages s p)\<lparr>hot := cooled_level cfg P (pages s p)\<rparr>)"
    "pg_list t = (pg_list s)(p := Some (bin fast pr (cooled_level cfg P (pages s p))))"
    "page_seq t = (if cooled_level cfg P (pages s p) = i then page_seq s else (page_seq s)
       (bin fast pr i := remove1 p (page_seq s (bin fast pr i)),
        bin fast pr (cooled_level cfg P (pages s p)) :=
          p # page_seq s (bin fast pr (cooled_level cfg P (pages s p)))))"
    using inv p P c by (rule cool_page_ok)
  have ct: "cooled_to cfg P fast pr s t"
    unfolding cooled_to_def using p t(4,5) by (auto simp: on_tier_def)
  show thesis
    by (rule that [OF t(1-3) ct cooled_to_clocks [OF ct ck] t(6)]) (simp_all add: t(4))
qed

section \<open>The search for the next level\<close>

lemma scan_levels_found: "p \<noteq> NULL \<Longrightarrow> scan_levels tails n (p, l) = (p, l)"
  by (cases n) simp_all

lemma scan_levels_spec:
  assumes "scan_levels tails n (NULL, l) = (q, j)"
  shows "(q = NULL \<and> (\<forall>i. 1 \<le> i \<and> i \<le> n \<longrightarrow> tails i = NULL)) \<or>
     (q \<noteq> NULL \<and> 1 \<le> j \<and> j \<le> n \<and> q = tails j \<and> (\<forall>i. j < i \<and> i \<le> n \<longrightarrow> tails i = NULL))"
  using assms
proof (induction n arbitrary: l)
  case (Suc n)
  show ?case
  proof (cases "tails (Suc n) = NULL")
    case True
    then have "scan_levels tails n (NULL, Suc n) = (q, j)"
      using Suc.prems by simp
    from Suc.IH [OF this] True show ?thesis
      by (metis le_SucE le_SucI)
  next
    case False
    then have "q = tails (Suc n)" "j = Suc n"
      using Suc.prems by (auto simp: scan_levels_found)
    then show ?thesis
      using False by auto
  qed
qed auto

lemma list_tails_last:
  "pl_wf s \<Longrightarrow> list_tails fast pr s i = last_of NULL (page_seq s (bin fast pr i))"
  using pl_wf_plist [of s "bin fast pr i"] by (simp add: list_tails_def is_plist_def)

lemma last_of_null_iff:
  "NULL \<notin> set xs \<Longrightarrow> last_of NULL xs = NULL \<longleftrightarrow> xs = []"
  by (cases xs rule: rev_cases) auto

text \<open>Where the walk goes next: to a page of the tier or to the end.\<close>

lemma on_tier_mem:
  "pl_wf s \<Longrightarrow> on_tier fast pr s x \<longleftrightarrow> (\<exists>i. x \<in> set (page_seq s (bin fast pr i)))"
  by (simp add: on_tier_def pl_wf_mem)

lemma last_of_mem: "last_of NULL xs \<noteq> NULL \<Longrightarrow> last_of NULL xs \<in> set xs"
  by (cases xs rule: rev_cases) auto

lemma scan_on_tier:
  assumes wf: "pl_wf s" and q: "scan_levels (list_tails fast pr s) n (NULL, l) = (q, j)"
    and nn: "q \<noteq> NULL"
  shows "pg_list s q = Some (bin fast pr j)" and "on_tier fast pr s q"
proof -
  have "q = list_tails fast pr s j"
    using scan_levels_spec [OF q] nn by auto
  then have "q \<in> set (page_seq s (bin fast pr j))"
    using list_tails_last [OF wf] last_of_mem nn by metis
  then show "pg_list s q = Some (bin fast pr j)" "on_tier fast pr s q"
    using wf by (auto simp: pl_wf_mem on_tier_def)
qed

lemma prev_on_tier:
  assumes wf: "pl_wf s" and p: "p \<noteq> NULL" and n: "prev_page (bin fast pr level) p s \<noteq> NULL"
  shows "on_tier fast pr s (prev_page (bin fast pr level) p s)"
proof -
  have "pg_list s p = Some (bin fast pr level)"
    using n p by (auto simp: prev_page_def Let_def split: if_splits)
  then have "p \<in> set (page_seq s (bin fast pr level))"
    using wf by (simp add: pl_wf_mem)
  then obtain xs ys where xs: "page_seq s (bin fast pr level) = xs @ p # ys"
    by (meson split_list)
  then have "prev_page (bin fast pr level) p s = last_of NULL xs"
    using page_neighbours(2) [OF wf] by blast
  then show ?thesis
    using n last_of_mem [of xs] xs by (auto simp: on_tier_mem [OF wf] intro!: exI [of _ level])
qed

section \<open>The walk keeps the invariant\<close>

definition cool_finished :: "bool \<Rightarrow> hemem_process \<Rightarrow> hemem_process" where
  "cool_finished fast P = mm_update (\<lambda>m. if fast then m\<lparr>need_cool_fastmem := False\<rparr>
     else m\<lparr>need_cool_slowmem := False\<rparr>) P"

lemma cool_finished_frame [simp]:
  "pid (cool_finished fast P) = pid P"
  "process_clock (cool_finished fast P) = process_clock P"
  "cur_cool f (mm (cool_finished fast P)) = cur_cool f (mm P)"
  "need_cool fast (mm (cool_finished fast P)) = False"
  by (simp_all add: cool_finished_def cur_cool_def need_cool_def)

lemma cooling_done_ok:
  assumes inv: "ucm_inv s" and P: "procs s pr = Some P"
  obtains s' where "cooling_done fast pr s = Inr s'" "ucm_inv s'" "mm_step s s'"
    "procs s' = (procs s)(pr \<mapsto> cool_finished fast P)" "pages s' = pages s" "pg_list s' = pg_list s"
    "page_seq s' = page_seq s"
proof -
  let ?t = "s\<lparr>procs := (procs s)(pr \<mapsto> cool_finished fast P)\<rparr>"
  let ?b = "if fast then FASTMEM else SLOWMEM"
  let ?s = "?t\<lparr>cools_completed := (cools_completed s)(?b := cools_completed s ?b + 1)\<rparr>"
  have "ucm_inv ?t"
    by (rule ucm_inv_proc [OF inv P]) simp_all
  then have "ucm_inv ?s" by simp
  moreover have "cooling_done fast pr s = Inr ?s"
    using P by (simp add: cooling_done_def cool_finished_def Let_def)
  ultimately show thesis
    using that [of ?s] by simp
qed

definition walk_end :: "bool \<Rightarrow> ptr \<Rightarrow> hemem_process \<Rightarrow> ptr \<Rightarrow> ucm_state \<Rightarrow> ptr \<times> nat \<times> ucm_state \<Rightarrow> bool" where
  "walk_end fast pr P c s = (\<lambda>(c', l', s').
     c' = c \<and> procs s' = procs s \<or>
     c' = NULL \<and> l' = 0 \<and> procs s' = (procs s)(pr \<mapsto> cool_finished fast P))"

lemma cool_loop_ok:
  assumes "ucm_inv s" and "procs s pr = Some P" and "tier_clocks_ok P fast pr s"
    and "p \<noteq> NULL \<longrightarrow> on_tier fast pr s p"
  shows "\<exists>c' l' s'. cool_loop cfg fast pr n p c level s = Inr (c', l', s') \<and> ucm_inv s' \<and>
    mm_step s s' \<and> cooled_to cfg P fast pr s s' \<and> walk_end fast pr P c s (c', l', s')"
  using assms
proof (induction n arbitrary: s p level)
  case 0
  then show ?case by (simp add: walk_end_def)
next
  case (Suc n)
  have wf: "pl_wf s" using Suc.prems(1) by (simp add: ucm_inv_def)
  obtain q j where q: "(if p = NULL then scan_levels (list_tails fast pr s) (level - 1) (NULL, level)
      else (p, level)) = (q, j)" by (metis surj_pair)
  show ?case
  proof (cases "q = NULL")
    case True
    obtain s' where "cooling_done fast pr s = Inr s'" "ucm_inv s'" "mm_step s s'"
      "procs s' = (procs s)(pr \<mapsto> cool_finished fast P)" "pages s' = pages s" "pg_list s' = pg_list s"
      using Suc.prems(1,2) by (rule cooling_done_ok)
    then show ?thesis
      using q True by (simp add: walk_end_def cooled_to_def)
  next
    case False
    then have "on_tier fast pr s q"
      using q Suc.prems(4) scan_on_tier(2) [OF wf _ False] by (auto split: if_splits)
    then obtain i where i: "pg_list s q = Some (bin fast pr i)"
      by (auto simp: on_tier_def)
    obtain t where t: "cool_page cfg fast pr q j s = Inr (prev_page (bin fast pr j) q s, t)"
      "ucm_inv t" "page_step s t" "cooled_to cfg P fast pr s t" "tier_clocks_ok P fast pr t"
      using Suc.prems(1-3) i by (rule cool_page_step)
    have pt: "procs t = procs s" by (rule page_step_frame [OF t(3)])
    have "prev_page (bin fast pr j) q s \<noteq> NULL \<longrightarrow> on_tier fast pr t (prev_page (bin fast pr j) q s)"
      using prev_on_tier [OF wf False] cooled_to_bin(1) [OF t(4)] by simp
    from Suc.IH [OF t(2) _ t(5) this, of j] pt Suc.prems(2)
    obtain c' l' s' where "cool_loop cfg fast pr n (prev_page (bin fast pr j) q s) c j t = Inr (c', l', s')"
      "ucm_inv s'" "mm_step t s'" "cooled_to cfg P fast pr t s'" "walk_end fast pr P c t (c', l', s')"
      by auto
    then show ?thesis
      using q False t pt mm_step_trans [OF page_mm_step [OF t(3)]] cooled_to_trans [OF t(4)]
      by (auto simp: walk_end_def)
  qed
qed

lemma set_cur_cool_frame [simp]:
  "cur_cool f (set_cur_cool fast p i m) = (if f = fast then p else cur_cool f m)"
  "cur_cool f (set_cur_cool_list fast i m) = cur_cool f m"
  "need_cool f (set_cur_cool fast p i m) = need_cool f m"
  "need_cool f (set_cur_cool_list fast i m) = need_cool f m"
  by (auto simp: cur_cool_def set_cur_cool_def set_cur_cool_list_def need_cool_def)

text \<open>
  Moving a bookmark to a page of the tier keeps the invariant. This is also what the caller
  does with the page a walk returns.
\<close>

lemma ucm_inv_bookmark:
  assumes inv: "ucm_inv s" and P: "procs s pr = Some P" and P': "pid P' = pid P"
    "\<And>f. cur_cool f (mm P') \<noteq> NULL \<Longrightarrow> on_tier f pr s (cur_cool f (mm P'))"
  shows "ucm_inv (s\<lparr>procs := (procs s)(pr \<mapsto> P')\<rparr>)"
proof -
  let ?s = "s\<lparr>procs := (procs s)(pr \<mapsto> P')\<rparr>"
  have "list_ok ?s = list_ok s"
    by (rule list_ok_procs [OF same_pids_upd [OF _ P P'(1)]]) simp
  moreover have "bookmarks_ok ?s"
    unfolding bookmarks_ok_def
  proof (intro allI impI)
    fix r R f
    assume r: "procs ?s r = Some R" and n: "cur_cool f (mm R) \<noteq> NULL"
    show "\<exists>i. pg_list ?s (cur_cool f (mm R)) = Some (bin f r i)"
    proof (cases "r = pr")
      case True
      then show ?thesis using r n P'(2) by (auto simp: on_tier_def)
    next
      case False
      then have "procs s r = Some R" using r by simp
      then have "\<exists>i. pg_list s (cur_cool f (mm R)) = Some (bin f r i)"
        using inv n unfolding ucm_inv_def bookmarks_ok_def by blast
      then show ?thesis by simp
    qed
  qed
  ultimately show ?thesis
    using inv by (simp add: ucm_inv_def pages_ok_def)
qed

lemma bookmark_on_tier:
  "\<lbrakk>ucm_inv s; procs s pr = Some P; cur_cool f (mm P) \<noteq> NULL\<rbrakk> \<Longrightarrow> on_tier f pr s (cur_cool f (mm P))"
  unfolding ucm_inv_def bookmarks_ok_def on_tier_def by blast

text \<open>What may change of the process: its bookmarks and the flag.\<close>

definition cool_step :: "hemem_process \<Rightarrow> hemem_process \<Rightarrow> bool" where
  "cool_step P P' \<longleftrightarrow> (\<exists>a b c d e f. P' = P\<lparr>mm := (mm P)\<lparr>
     cur_cool_in_fastmem := a, cur_cool_in_fastmem_list := b,
     cur_cool_in_slowmem := c, cur_cool_in_slowmem_list := d,
     need_cool_fastmem := e, need_cool_slowmem := f\<rparr>\<rparr>)"

lemma cool_stepI:
  "cool_step P (P\<lparr>mm := (mm P)\<lparr>cur_cool_in_fastmem := a, cur_cool_in_fastmem_list := b,
     cur_cool_in_slowmem := c, cur_cool_in_slowmem_list := d,
     need_cool_fastmem := e, need_cool_slowmem := f\<rparr>\<rparr>)"
  unfolding cool_step_def by blast

lemma cool_step_trans: "\<lbrakk>cool_step P Q; cool_step Q R\<rbrakk> \<Longrightarrow> cool_step P R"
  by (clarsimp simp: cool_step_def) blast

lemma cool_step_frame:
  assumes "cool_step P P'"
  shows "pid P' = pid P" and "process_clock P' = process_clock P"
    and "hot_ring (mm P') = hot_ring (mm P)" and "cold_ring (mm P') = cold_ring (mm P)"
    and "free_page_ring (mm P') = free_page_ring (mm P)"
    and "current_fastmem (mm P') = current_fastmem (mm P)"
    and "current_slowmem (mm P') = current_slowmem (mm P)"
  using assms by (auto simp: cool_step_def)

lemma cool_step_basic [simp]:
  "cool_step P P" "cool_step P (cool_finished fast P)"
  "cool_step P (mm_update (set_cur_cool fast p i) P)"
  "cool_step P (mm_update (set_cur_cool_list fast i) P)"
proof -
  let ?m = "mm P"
  have id: "P = P\<lparr>mm := ?m\<lparr>cur_cool_in_fastmem := cur_cool_in_fastmem ?m,
      cur_cool_in_fastmem_list := cur_cool_in_fastmem_list ?m,
      cur_cool_in_slowmem := cur_cool_in_slowmem ?m,
      cur_cool_in_slowmem_list := cur_cool_in_slowmem_list ?m,
      need_cool_fastmem := need_cool_fastmem ?m, need_cool_slowmem := need_cool_slowmem ?m\<rparr>\<rparr>"
    by simp
  then show "cool_step P P" unfolding cool_step_def by blast
  have "cool_finished fast P = P\<lparr>mm := ?m\<lparr>cur_cool_in_fastmem := cur_cool_in_fastmem ?m,
      cur_cool_in_fastmem_list := cur_cool_in_fastmem_list ?m,
      cur_cool_in_slowmem := cur_cool_in_slowmem ?m,
      cur_cool_in_slowmem_list := cur_cool_in_slowmem_list ?m,
      need_cool_fastmem := (if fast then False else need_cool_fastmem ?m),
      need_cool_slowmem := (if fast then need_cool_slowmem ?m else False)\<rparr>\<rparr>"
    by (cases P, cases "mm P") (simp add: cool_finished_def)
  then show "cool_step P (cool_finished fast P)" unfolding cool_step_def by blast
  have "mm_update (set_cur_cool fast p i) P = P\<lparr>mm := ?m\<lparr>
      cur_cool_in_fastmem := (if fast then p else cur_cool_in_fastmem ?m),
      cur_cool_in_fastmem_list := (if fast then i else cur_cool_in_fastmem_list ?m),
      cur_cool_in_slowmem := (if fast then cur_cool_in_slowmem ?m else p),
      cur_cool_in_slowmem_list := (if fast then cur_cool_in_slowmem_list ?m else i),
      need_cool_fastmem := need_cool_fastmem ?m, need_cool_slowmem := need_cool_slowmem ?m\<rparr>\<rparr>"
    by (cases P, cases "mm P") (simp add: set_cur_cool_def)
  then show "cool_step P (mm_update (set_cur_cool fast p i) P)" unfolding cool_step_def by blast
  have "mm_update (set_cur_cool_list fast i) P = P\<lparr>mm := ?m\<lparr>
      cur_cool_in_fastmem := cur_cool_in_fastmem ?m,
      cur_cool_in_fastmem_list := (if fast then i else cur_cool_in_fastmem_list ?m),
      cur_cool_in_slowmem := cur_cool_in_slowmem ?m,
      cur_cool_in_slowmem_list := (if fast then cur_cool_in_slowmem_list ?m else i),
      need_cool_fastmem := need_cool_fastmem ?m, need_cool_slowmem := need_cool_slowmem ?m\<rparr>\<rparr>"
    by (cases P, cases "mm P") (simp add: set_cur_cool_list_def)
  then show "cool_step P (mm_update (set_cur_cool_list fast i) P)" unfolding cool_step_def by blast
qed

lemma cooled_to_clock_cong:
  "process_clock Q = process_clock P \<Longrightarrow> cooled_to cfg Q = cooled_to cfg P"
  "process_clock Q = process_clock P \<Longrightarrow> tier_clocks_ok Q = tier_clocks_ok P"
  by (simp_all add: fun_eq_iff cooled_to_def tier_clocks_ok_def clock_cong [of Q P])

text \<open>Where a walk starts.\<close>

definition walk_start :: "bool \<Rightarrow> ptr \<Rightarrow> hemem_process \<Rightarrow> ucm_state \<Rightarrow> ptr \<times> nat" where
  "walk_start fast pr P s =
     (if cur_cool fast (mm P) = NULL \<and> cur_cool_list fast (mm P) = 0
      then scan_levels (list_tails fast pr s) (NUM_HOTNESS_LEVELS - 1) (NULL, 0)
      else (cur_cool fast (mm P), cur_cool_list fast (mm P)))"

lemma walk_start_on_tier:
  assumes inv: "ucm_inv s" and P: "procs s pr = Some P" and w: "walk_start fast pr P s = (p, level)"
  shows "p \<noteq> NULL \<Longrightarrow> on_tier fast pr s p"
proof -
  assume p: "p \<noteq> NULL"
  have wf: "pl_wf s" using inv by (simp add: ucm_inv_def)
  show "on_tier fast pr s p"
    using w p scan_on_tier(2) [OF wf _ p] bookmark_on_tier [OF inv P, of fast]
    by (auto simp: walk_start_def split: if_splits)
qed

definition cool_result :: "config \<Rightarrow> bool \<Rightarrow> ptr \<Rightarrow> hemem_process \<Rightarrow> ucm_state \<Rightarrow> ptr \<times> ucm_state \<Rightarrow> bool" where
  "cool_result cfg fast pr P s = (\<lambda>(c, s').
     ucm_inv s' \<and> mm_step s s' \<and> cooled_to cfg P fast pr s s' \<and> (c \<noteq> NULL \<longrightarrow> on_tier fast pr s' c) \<and>
     (\<exists>P'. procs s' = (procs s)(pr \<mapsto> P') \<and> cool_step P P'))"

lemma partial_cool_empty:
  assumes inv: "ucm_inv s" and P: "procs s pr = Some P"
    and n: "need_cool fast (mm P)" "cur_cool fast (mm P) = NULL" "cur_cool_list fast (mm P) = 0"
    and w: "walk_start fast pr P s = (NULL, level)"
  shows "\<exists>s'. partial_cool_impl cfg pr fast s = Inr (NULL, s') \<and> cool_result cfg fast pr P s (NULL, s') \<and>
    procs s' pr = Some (cool_finished fast (mm_update (set_cur_cool fast NULL 0) P))"
proof -
  let ?P = "mm_update (set_cur_cool fast NULL 0) P"
  let ?t = "s\<lparr>procs := (procs s)(pr \<mapsto> ?P)\<rparr>"
  have "ucm_inv ?t"
    by (rule ucm_inv_proc [OF inv P]) simp_all
  moreover have "procs ?t pr = Some ?P" by simp
  ultimately obtain s' where s': "cooling_done fast pr ?t = Inr s'" "ucm_inv s'" "mm_step ?t s'"
    "procs s' = (procs ?t)(pr \<mapsto> cool_finished fast ?P)" "pages s' = pages ?t"
    "pg_list s' = pg_list ?t"
    by (rule cooling_done_ok)
  have "partial_cool_impl cfg pr fast s = Inr (NULL, s')"
    using P n w s'(1) by (simp add: partial_cool_impl_def walk_start_def)
  moreover have "mm_step s s'"
    using mm_step_basic(2) s'(3) by (rule mm_step_trans)
  moreover have "cool_step P (cool_finished fast ?P)"
    by (rule cool_step_trans [of _ ?P]) simp_all
  ultimately show ?thesis
    using s' by (auto simp: cool_result_def cooled_to_def)
qed

lemma partial_cool_main:
  assumes inv: "ucm_inv s" and P: "procs s pr = Some P" and ck: "tier_clocks_ok P fast pr s"
    and n: "need_cool fast (mm P)" and w: "walk_start fast pr P s = (p, level)"
    and ne: "p \<noteq> NULL \<or> cur_cool fast (mm P) \<noteq> NULL \<or> cur_cool_list fast (mm P) \<noteq> 0"
  obtains c l u where
    "cool_loop cfg fast pr COOLING_PAGES p p level
       (s\<lparr>procs := (procs s)(pr \<mapsto> mm_update (set_cur_cool fast p level) P)\<rparr>) = Inr (c, l, u)"
    "partial_cool_impl cfg pr fast s = andThen (upd_mm pr (set_cur_cool_list fast l) u) (\<lambda>s. Inr (c, s))"
    "ucm_inv u" "mm_step s u" "cooled_to cfg P fast pr s u"
    "walk_end fast pr (mm_update (set_cur_cool fast p level) P) p
       (s\<lparr>procs := (procs s)(pr \<mapsto> mm_update (set_cur_cool fast p level) P)\<rparr>) (c, l, u)"
proof -
  let ?P = "mm_update (set_cur_cool fast p level) P"
  let ?t = "s\<lparr>procs := (procs s)(pr \<mapsto> ?P)\<rparr>"
  have pt: "p \<noteq> NULL \<Longrightarrow> on_tier fast pr s p"
    by (rule walk_start_on_tier [OF inv P w])
  have invt: "ucm_inv ?t"
  proof (rule ucm_inv_bookmark [OF inv P])
    fix f
    assume "cur_cool f (mm ?P) \<noteq> NULL"
    then show "on_tier f pr s (cur_cool f (mm ?P))"
      using pt bookmark_on_tier [OF inv P, of f] by (auto split: if_splits)
  qed simp
  have a: "p = NULL \<or> pg_pid (pages s p) = pid P \<and> pg_list s p = Some (bin fast pr (hot (pages s p)))"
  proof (cases "p = NULL")
    case False
    then obtain i where i: "pg_list s p = Some (bin fast pr i)"
      using pt by (auto simp: on_tier_def)
    show ?thesis
      by (rule ucm_inv_bin [OF inv i]) (use P i in auto)
  qed simp
  have ckt: "tier_clocks_ok ?P fast pr ?t"
    using ck by (simp add: tier_clocks_ok_def on_tier_def clocks_ok_def)
  have "procs ?t pr = Some ?P" "p \<noteq> NULL \<longrightarrow> on_tier fast pr ?t p"
    using pt by (simp_all add: on_tier_def)
  from cool_loop_ok [OF invt this(1) ckt this(2), of cfg COOLING_PAGES p level]
  obtain c l u where u: "cool_loop cfg fast pr COOLING_PAGES p p level ?t = Inr (c, l, u)"
    "ucm_inv u" "mm_step ?t u" "cooled_to cfg ?P fast pr ?t u" "walk_end fast pr ?P p ?t (c, l, u)"
    by blast
  have "partial_cool_impl cfg pr fast s = andThen (upd_mm pr (set_cur_cool_list fast l) u) (\<lambda>s. Inr (c, s))"
    using P n w ne a u(1) by (auto simp: partial_cool_impl_def walk_start_def check_def)
  moreover have "mm_step s u"
    using mm_step_basic(2) u(3) by (rule mm_step_trans)
  moreover have "cooled_to cfg P fast pr s u"
    using u(4) by (simp add: cooled_to_clock_cong(1) [of ?P P]) (simp add: cooled_to_def on_tier_def)
  ultimately show thesis
    using that u by blast
qed

lemma partial_cool_impl_ok:
  assumes inv: "ucm_inv s" and P: "procs s pr = Some P" and ck: "tier_clocks_ok P fast pr s"
  shows "\<exists>c s'. partial_cool_impl cfg pr fast s = Inr (c, s') \<and> cool_result cfg fast pr P s (c, s')"
proof -
  obtain p level where w: "walk_start fast pr P s = (p, level)" by (metis surj_pair)
  consider "\<not> need_cool fast (mm P)"
    | "need_cool fast (mm P)" "p = NULL" "cur_cool fast (mm P) = NULL" "cur_cool_list fast (mm P) = 0"
    | "need_cool fast (mm P)" "p \<noteq> NULL \<or> cur_cool fast (mm P) \<noteq> NULL \<or> cur_cool_list fast (mm P) \<noteq> 0"
    by blast
  then show ?thesis
  proof cases
    case 1
    then show ?thesis
      using inv P bookmark_on_tier [OF inv P, of fast]
      by (auto simp: partial_cool_impl_def cool_result_def map_upd_triv intro!: exI [of _ P])
  next
    case 2
    then show ?thesis
      using partial_cool_empty [OF inv P] w by blast
  next
    case 3
    let ?P = "mm_update (set_cur_cool fast p level) P"
    obtain c l u where u: "partial_cool_impl cfg pr fast s =
        andThen (upd_mm pr (set_cur_cool_list fast l) u) (\<lambda>s. Inr (c, s))"
      "ucm_inv u" "mm_step s u" "cooled_to cfg P fast pr s u"
      "walk_end fast pr ?P p (s\<lparr>procs := (procs s)(pr \<mapsto> ?P)\<rparr>) (c, l, u)"
      using partial_cool_main [OF inv P ck 3(1) w 3(2)] by blast
    then obtain Q where Q: "procs u = (procs s)(pr \<mapsto> Q)" "cool_step ?P Q" "c = p \<or> c = NULL"
      by (auto simp: walk_end_def)
    let ?Q = "mm_update (set_cur_cool_list fast l) Q"
    let ?s = "u\<lparr>procs := (procs u)(pr \<mapsto> ?Q)\<rparr>"
    have "ucm_inv ?s"
      by (rule ucm_inv_proc [OF u(2), of pr Q]) (use Q in simp_all)
    moreover have "cool_step P ?Q"
      using cool_step_basic(3) Q(2) cool_step_basic(4) by (blast intro: cool_step_trans)
    moreover have "mm_step s ?s"
      using u(3) mm_step_basic(2) by (rule mm_step_trans)
    moreover have "c \<noteq> NULL \<longrightarrow> on_tier fast pr ?s c"
      using Q(3) walk_start_on_tier [OF inv P w] cooled_to_bin(1) [OF u(4)]
      by (auto simp: on_tier_def)
    ultimately show ?thesis
      using u(1,4) Q(1) by (auto simp: cool_result_def cooled_to_def on_tier_def)
  qed
qed

end
