(* ===== verification/Cooling_Complete.thy ===== *)
theory Cooling_Complete
  imports Cooling
begin

text \<open>
  A cooling walk that starts afresh completes when its budget is larger than twice the
  number of pages above level 0, and then every one of these pages is on the level of its
  cooled counts. The factor of two is needed: a page that moves to a lower level is visited
  again there.
\<close>

section \<open>What a walk still has to do\<close>

definition settled :: "config \<Rightarrow> hemem_process \<Rightarrow> ucm_state \<Rightarrow> ptr \<Rightarrow> bool" where
  "settled cfg P s x \<longleftrightarrow> hot (pages s x) = cooled_level cfg P (pages s x)"

definition weight :: "config \<Rightarrow> hemem_process \<Rightarrow> ucm_state \<Rightarrow> ptr list \<Rightarrow> nat" where
  "weight cfg P s xs = (\<Sum>x\<leftarrow>xs. if settled cfg P s x then 1 else 2)"

text \<open>\<open>cur\<close> are the pages of the current level that the walk has not passed yet.\<close>

definition work :: "config \<Rightarrow> hemem_process \<Rightarrow> bool \<Rightarrow> ptr \<Rightarrow> ucm_state \<Rightarrow> ptr list \<Rightarrow> nat \<Rightarrow> nat" where
  "work cfg P fast pr s cur level =
     weight cfg P s cur + (\<Sum>k\<in>{1..<level}. weight cfg P s (page_seq s (bin fast pr k)))"

definition ahead :: "bool \<Rightarrow> ptr \<Rightarrow> ucm_state \<Rightarrow> ptr list \<Rightarrow> nat \<Rightarrow> ptr set" where
  "ahead fast pr s cur level = set cur \<union> (\<Union>k\<in>{1..<level}. set (page_seq s (bin fast pr k)))"

definition walk_at :: "bool \<Rightarrow> ptr \<Rightarrow> ucm_state \<Rightarrow> ptr \<Rightarrow> ptr list \<Rightarrow> nat \<Rightarrow> bool" where
  "walk_at fast pr s p cur level \<longleftrightarrow>
     (p = NULL \<and> cur = [] \<or>
      p \<noteq> NULL \<and> 1 \<le> level \<and> (\<exists>xs ys. cur = xs @ [p] \<and> page_seq s (bin fast pr level) = xs @ p # ys))"

definition all_settled :: "config \<Rightarrow> hemem_process \<Rightarrow> bool \<Rightarrow> ptr \<Rightarrow> ucm_state \<Rightarrow> ptr set \<Rightarrow> bool" where
  "all_settled cfg P fast pr s A \<longleftrightarrow>
     (\<forall>x k. 1 \<le> k \<longrightarrow> x \<in> set (page_seq s (bin fast pr k)) \<longrightarrow> settled cfg P s x \<or> x \<in> A)"

lemma weight_simps [simp]:
  "weight cfg P s [] = 0"
  "weight cfg P s (xs @ ys) = weight cfg P s xs + weight cfg P s ys"
  "weight cfg P s (x # xs) = (if settled cfg P s x then 1 else 2) + weight cfg P s xs"
  by (simp_all add: weight_def)

lemma weight_cong:
  "(\<And>x. x \<in> set xs \<Longrightarrow> settled cfg P s x = settled cfg P t x) \<Longrightarrow> weight cfg P s xs = weight cfg P t xs"
  by (induction xs) simp_all

lemma weight_le: "weight cfg P s xs \<le> 2 * length xs"
  by (induction xs) simp_all

section \<open>One step\<close>

lemma scan_complete:
  assumes inv: "ucm_inv s" and q: "scan_levels (list_tails fast pr s) (level - 1) (NULL, l) = (q, j)"
  shows "q = NULL \<Longrightarrow> ahead fast pr s [] level = {}"
    and "q \<noteq> NULL \<Longrightarrow> \<exists>cur. walk_at fast pr s q cur j \<and>
      ahead fast pr s cur j = ahead fast pr s [] level \<and>
      work cfg P fast pr s cur j = work cfg P fast pr s [] level"
proof -
  have wf: "pl_wf s" using inv by (simp add: ucm_inv_def)
  let ?L = "\<lambda>k. page_seq s (bin fast pr k)"
  have e: "?L k = []" if "list_tails fast pr s k = NULL" for k
    using that last_of_null_iff [OF pl_wf_nonnull [OF wf]] by (simp add: list_tails_last [OF wf])
  show "ahead fast pr s [] level = {}" if "q = NULL"
  proof -
    have "\<forall>i. 1 \<le> i \<and> i \<le> level - 1 \<longrightarrow> list_tails fast pr s i = NULL"
      using scan_levels_spec [OF q] that by argo
    then have "?L k = []" if "k \<in> {1..<level}" for k
      using that by (intro e) auto
    then show ?thesis by (simp add: ahead_def)
  qed
  show "\<exists>cur. walk_at fast pr s q cur j \<and> ahead fast pr s cur j = ahead fast pr s [] level \<and>
      work cfg P fast pr s cur j = work cfg P fast pr s [] level" if nn: "q \<noteq> NULL"
  proof (intro exI conjI)
    have sp: "1 \<le> j \<and> j \<le> level - 1 \<and> q = list_tails fast pr s j \<and>
        (\<forall>i. j < i \<and> i \<le> level - 1 \<longrightarrow> list_tails fast pr s i = NULL)"
      using scan_levels_spec [OF q] nn by argo
    then have j: "1 \<le> j" "j \<le> level - 1" "q = last_of NULL (?L j)"
      by (simp_all add: list_tails_last [OF wf])
    have above: "?L i = []" if "i \<in> {j<..<level}" for i
      using sp that by (intro e) auto
    obtain xs where xs: "?L j = xs @ [q]"
      using j(3) nn by (cases "?L j" rule: rev_cases) auto
    show "walk_at fast pr s q (?L j) j"
      using nn j(1) xs by (auto simp: walk_at_def)
    have split: "{1..<level} = insert j {1..<j} \<union> {j<..<level}"
      using j by auto
    show "ahead fast pr s (?L j) j = ahead fast pr s [] level"
      unfolding ahead_def split using above by auto
    have "(\<Sum>k\<in>{j<..<level}. weight cfg P s (?L k)) = 0"
      using above by simp
    moreover have "(\<Sum>k\<in>{1..<level}. weight cfg P s (?L k)) =
        (\<Sum>k\<in>insert j {1..<j}. weight cfg P s (?L k)) + (\<Sum>k\<in>{j<..<level}. weight cfg P s (?L k))"
      unfolding split by (rule sum.union_disjoint) auto
    ultimately show "work cfg P fast pr s (?L j) j = work cfg P fast pr s [] level"
      by (simp add: work_def)
  qed
qed

lemma settled_step:
  assumes "\<And>x. x \<noteq> q \<Longrightarrow> pages t x = pages s x" and "x \<noteq> q"
  shows "settled cfg P t x = settled cfg P s x"
  using assms by (simp add: settled_def)

lemma cool_step_complete:
  assumes inv: "ucm_inv s" and P: "procs s pr = Some P" and ck: "tier_clocks_ok P fast pr s"
    and at: "walk_at fast pr s q cur j" and q: "q \<noteq> NULL"
    and rest: "all_settled cfg P fast pr s (ahead fast pr s cur j)"
  obtains t xs where
    "cool_page cfg fast pr q j s = Inr (last_of NULL xs, t)"
    "ucm_inv t" "page_step s t" "cooled_to cfg P fast pr s t" "tier_clocks_ok P fast pr t"
    "walk_at fast pr t (last_of NULL xs) xs j"
    "all_settled cfg P fast pr t (ahead fast pr t xs j)"
    "work cfg P fast pr t xs j < work cfg P fast pr s cur j"
proof -
  have wf: "pl_wf s" using inv by (simp add: ucm_inv_def)
  obtain xs ys where xs: "cur = xs @ [q]" "page_seq s (bin fast pr j) = xs @ q # ys" and j: "1 \<le> j"
    using at q by (auto simp: walk_at_def)
  have d: "q \<notin> set xs" "q \<notin> set ys" "NULL \<notin> set xs"
    using pl_wf_distinct [OF wf, of "bin fast pr j"] pl_wf_nonnull [OF wf, of "bin fast pr j"] xs(2)
    by auto
  have pq: "pg_list s q = Some (bin fast pr j)"
    using xs(2) by (simp add: pl_wf_mem [OF wf])
  have hq: "hot (pages s q) = j" by (rule ucm_inv_bin [OF inv pq])
  let ?c = "cooled_level cfg P (pages s q)"
  obtain t where t: "cool_page cfg fast pr q j s = Inr (prev_page (bin fast pr j) q s, t)"
    "ucm_inv t" "page_step s t" "cooled_to cfg P fast pr s t" "tier_clocks_ok P fast pr t"
    "page_seq t = (if ?c = j then page_seq s else (page_seq s)
       (bin fast pr j := remove1 q (page_seq s (bin fast pr j)),
        bin fast pr ?c := q # page_seq s (bin fast pr ?c)))"
    "hot (pages t q) = cooled_level cfg P (pages t q)"
    "\<And>x. x \<noteq> q \<Longrightarrow> pages t x = pages s x"
    using cool_page_step [OF inv P ck pq, of cfg j] by blast
  have st: "settled cfg P t q" using t(7) by (simp add: settled_def)
  have so: "settled cfg P t x = settled cfg P s x" if "x \<noteq> q" for x
    using t(8) that by (rule settled_step)
  have sq: "settled cfg P s q \<longleftrightarrow> ?c = j"
    using hq by (auto simp: settled_def)
  have other: "q \<notin> set (page_seq s (bin fast pr k))" if "k \<noteq> j" for k
    using pl_wf_disjoint [OF wf, of q "bin fast pr j" "bin fast pr k"] xs(2) that by auto
  have seqj: "page_seq t (bin fast pr j) = (if ?c = j then xs @ q # ys else xs @ ys)"
    using t(6) xs(2) d by (simp add: remove1_append)
  have seqk: "page_seq t (bin fast pr k) =
      (if k = ?c then q # page_seq s (bin fast pr k) else page_seq s (bin fast pr k))" if "k \<noteq> j" for k
    using t(6) that by simp
  have wx: "weight cfg P t xs = weight cfg P s xs"
    by (rule weight_cong) (metis d(1) so)
  have wk: "weight cfg P t (page_seq t (bin fast pr k)) =
      weight cfg P s (page_seq s (bin fast pr k)) + (if k = ?c then 1 else 0)" if "k \<in> {1..<j}" for k
  proof -
    have "weight cfg P t (page_seq s (bin fast pr k)) = weight cfg P s (page_seq s (bin fast pr k))"
      by (rule weight_cong) (metis other [of k] that so atLeastLessThan_iff less_irrefl)
    then show ?thesis
      using that seqk [of k] st by (cases "k = ?c") simp_all
  qed
  have sub: "set (page_seq s (bin fast pr k)) \<subseteq> set (page_seq t (bin fast pr k))" if "k \<in> {1..<j}" for k
    using seqk [of k] that by (cases "k = ?c") auto
  show thesis
  proof (rule that)
    show "cool_page cfg fast pr q j s = Inr (last_of NULL xs, t)"
      using t(1) page_neighbours(2) [OF wf xs(2)] by simp
    show "walk_at fast pr t (last_of NULL xs) xs j"
    proof (cases xs rule: rev_cases)
      case (snoc zs z)
      then show ?thesis
        using d j seqj by (auto simp: walk_at_def)
    qed (simp add: walk_at_def)
    show "all_settled cfg P fast pr t (ahead fast pr t xs j)"
      unfolding all_settled_def
    proof (intro allI impI)
      fix x k assume k: "1 \<le> k" and x: "x \<in> set (page_seq t (bin fast pr k))"
      show "settled cfg P t x \<or> x \<in> ahead fast pr t xs j"
      proof (cases "x = q")
        case False
        then have "x \<in> set (page_seq s (bin fast pr k))"
          using x seqj seqk xs(2) by (cases "k = j") (auto split: if_splits)
        then have "settled cfg P s x \<or> x \<in> ahead fast pr s cur j"
          using rest k unfolding all_settled_def by blast
        moreover have "x \<in> ahead fast pr t xs j" if "x \<in> ahead fast pr s cur j"
          using that False sub xs(1) by (fastforce simp: ahead_def)
        ultimately show ?thesis
          using so False by blast
      qed (use st in simp)
    qed
    have "(\<Sum>k\<in>{1..<j}. weight cfg P t (page_seq t (bin fast pr k))) =
        (\<Sum>k\<in>{1..<j}. weight cfg P s (page_seq s (bin fast pr k)) + (if k = ?c then 1 else 0))"
      by (rule sum.cong) (use wk in auto)
    also have "\<dots> = (\<Sum>k\<in>{1..<j}. weight cfg P s (page_seq s (bin fast pr k)))
        + (if ?c \<in> {1..<j} then 1 else 0)"
      by (simp add: sum.distrib)
    finally show "work cfg P fast pr t xs j < work cfg P fast pr s cur j"
      using wx sq xs(1) by (auto simp: work_def)
  qed (use t in auto)
qed

lemma cool_loop_complete:
  assumes "ucm_inv s" and "procs s pr = Some P" and "tier_clocks_ok P fast pr s"
    and "walk_at fast pr s p cur level" and "all_settled cfg P fast pr s (ahead fast pr s cur level)"
    and "work cfg P fast pr s cur level < n"
  shows "\<exists>s'. cool_loop cfg fast pr n p c level s = Inr (NULL, 0, s') \<and> cooled_to cfg P fast pr s s' \<and>
    procs s' = (procs s)(pr \<mapsto> cool_finished fast P) \<and> all_settled cfg P fast pr s' {}"
  using assms
proof (induction n arbitrary: s p cur level)
  case (Suc n)
  obtain q j where q: "(if p = NULL then scan_levels (list_tails fast pr s) (level - 1) (NULL, level)
      else (p, level)) = (q, j)" by (metis surj_pair)
  have sc: "scan_levels (list_tails fast pr s) (level - 1) (NULL, level) = (q, j)" "cur = []"
    if "p = NULL"
    using q Suc.prems(4) that by (auto simp: walk_at_def)
  show ?case
  proof (cases "q = NULL")
    case True
    then have p: "p = NULL" using q by (auto split: if_splits)
    then have "ahead fast pr s cur level = {}"
      using scan_complete(1) [OF Suc.prems(1) sc(1)] sc(2) True by simp
    then have st: "all_settled cfg P fast pr s {}" using Suc.prems(5) by simp
    obtain s' where s': "cooling_done fast pr s = Inr s'" "ucm_inv s'" "mm_step s s'"
      "procs s' = (procs s)(pr \<mapsto> cool_finished fast P)" "pages s' = pages s" "pg_list s' = pg_list s"
      "page_seq s' = page_seq s"
      using Suc.prems(1,2) by (rule cooling_done_ok)
    then show ?thesis
      using q True st
      by (intro exI [of _ s'] conjI) (simp_all add: cooled_to_def all_settled_def settled_def)
  next
    case False
    obtain cur' where c: "walk_at fast pr s q cur' j" "ahead fast pr s cur' j = ahead fast pr s cur level"
      "work cfg P fast pr s cur' j = work cfg P fast pr s cur level"
      using scan_complete(2) [OF Suc.prems(1) sc(1) False, of cfg P] sc(2) q Suc.prems(4)
      by (cases "p = NULL") auto
    have r: "all_settled cfg P fast pr s (ahead fast pr s cur' j)" using Suc.prems(5) c(2) by simp
    obtain t xs where t: "cool_page cfg fast pr q j s = Inr (last_of NULL xs, t)"
      "ucm_inv t" "page_step s t" "cooled_to cfg P fast pr s t" "tier_clocks_ok P fast pr t"
      "walk_at fast pr t (last_of NULL xs) xs j"
      "all_settled cfg P fast pr t (ahead fast pr t xs j)"
      "work cfg P fast pr t xs j < work cfg P fast pr s cur' j"
      using Suc.prems(1-3) c(1) False r by (rule cool_step_complete)
    have pt: "procs t = procs s" by (rule page_step_frame [OF t(3)])
    have "work cfg P fast pr t xs j < n" using t(8) c(3) Suc.prems(6) by simp
    moreover have "procs t pr = Some P" using pt Suc.prems(2) by simp
    ultimately obtain s' where "cool_loop cfg fast pr n (last_of NULL xs) c j t = Inr (NULL, 0, s')"
      "cooled_to cfg P fast pr t s'" "procs s' = (procs t)(pr \<mapsto> cool_finished fast P)"
      "all_settled cfg P fast pr s' {}"
      using Suc.IH t(2,5-7) by blast
    then show ?thesis
      using q False t(1) pt cooled_to_trans [OF t(4)] by (intro exI [of _ s']) simp
  qed
qed simp

section \<open>A whole round\<close>

definition tier_pages :: "bool \<Rightarrow> ptr \<Rightarrow> ucm_state \<Rightarrow> nat" where
  "tier_pages fast pr s = (\<Sum>k\<in>{1..<NUM_HOTNESS_LEVELS}. length (page_seq s (bin fast pr k)))"

lemma work_bound: "work cfg P fast pr s [] NUM_HOTNESS_LEVELS \<le> 2 * tier_pages fast pr s"
  unfolding work_def tier_pages_def sum_distrib_left
  using weight_le by (simp add: sum_mono)

lemma ahead_all:
  assumes "ucm_inv s"
  shows "all_settled cfg P fast pr s (ahead fast pr s [] NUM_HOTNESS_LEVELS)"
  unfolding all_settled_def
proof (intro allI impI)
  fix x k assume k: "1 \<le> k" and x: "x \<in> set (page_seq s (bin fast pr k))"
  then have "pg_list s x = Some (bin fast pr k)"
    using assms by (simp add: ucm_inv_def pl_wf_mem)
  with assms have "k < NUM_HOTNESS_LEVELS" by (rule ucm_inv_bin)
  then show "settled cfg P s x \<or> x \<in> ahead fast pr s [] NUM_HOTNESS_LEVELS"
    using k x by (auto simp: ahead_def)
qed

lemma settled_final:
  assumes inv': "pl_wf s'" and ct: "cooled_to cfg P fast pr s s'" and all: "all_settled cfg P fast pr s' {}"
    and k: "1 \<le> k" and x: "pg_list s x = Some (bin fast pr k)" and h: "hot (pages s x) = k"
  shows "pg_list s' x = Some (bin fast pr (cooled_level cfg P (pages s x)))"
proof (cases "pages s' x = pages s x \<and> pg_list s' x = pg_list s x")
  case True
  then have "x \<in> set (page_seq s' (bin fast pr k))"
    using x by (simp add: pl_wf_mem [OF inv', symmetric])
  then have "settled cfg P s' x"
    using all k unfolding all_settled_def by blast
  then show ?thesis
    using True x h by (simp add: settled_def)
next
  case False
  then show ?thesis
    using ct unfolding cooled_to_def by blast
qed

lemma cooling_round_completes:
  assumes inv: "ucm_inv s" and P: "procs s pr = Some P" and ck: "tier_clocks_ok P fast pr s"
    and n: "need_cool fast (mm P)" "cur_cool fast (mm P) = NULL" "cur_cool_list fast (mm P) = 0"
    and few: "2 * tier_pages fast pr s < COOLING_PAGES"
  shows "\<exists>s' P'. partial_cool_impl cfg pr fast s = Inr (NULL, s') \<and> ucm_inv s' \<and>
    procs s' pr = Some P' \<and> \<not> need_cool fast (mm P') \<and>
    (\<forall>x k. 1 \<le> k \<longrightarrow> pg_list s x = Some (bin fast pr k) \<longrightarrow>
       pg_list s' x = Some (bin fast pr (cooled_level cfg P (pages s x))))"
proof -
  obtain p level where w: "walk_start fast pr P s = (p, level)" by (metis surj_pair)
  then have sc: "scan_levels (list_tails fast pr s) (NUM_HOTNESS_LEVELS - 1) (NULL, 0) = (p, level)"
    using n by (simp add: walk_start_def)
  have hot: "hot (pages s x) = k" if "pg_list s x = Some (bin fast pr k)" for x k
    using inv that by (rule ucm_inv_bin)
  have wf: "pl_wf s" using inv by (simp add: ucm_inv_def)
  show ?thesis
  proof (cases "p = NULL")
    case True
    have "ahead fast pr s [] NUM_HOTNESS_LEVELS = {}"
      using scan_complete(1) [OF inv sc] True by simp
    then have none: "1 \<le> k \<Longrightarrow> pg_list s x \<noteq> Some (bin fast pr k)" for x k
      using ucm_inv_bin [OF inv, of x fast pr k] by (auto simp: ahead_def)
    obtain s' where s': "partial_cool_impl cfg pr fast s = Inr (NULL, s')"
      "cool_result cfg fast pr P s (NULL, s')"
      "procs s' pr = Some (cool_finished fast (mm_update (set_cur_cool fast NULL 0) P))"
      using partial_cool_empty [OF inv P n] w True by blast
    moreover have "ucm_inv s'" using s'(2) by (simp add: cool_result_def)
    ultimately show ?thesis
      using none by (intro exI [of _ s'] exI [of _ "cool_finished fast (mm_update (set_cur_cool fast NULL 0) P)"]) simp
  next
    case False
    let ?P = "mm_update (set_cur_cool fast p level) P"
    let ?t = "s\<lparr>procs := (procs s)(pr \<mapsto> ?P)\<rparr>"
    have ckP: "process_clock ?P = process_clock P" by simp
    obtain c l u where u: "cool_loop cfg fast pr COOLING_PAGES p p level ?t = Inr (c, l, u)"
      "partial_cool_impl cfg pr fast s = andThen (upd_mm pr (set_cur_cool_list fast l) u) (\<lambda>s. Inr (c, s))"
      "ucm_inv u" "cooled_to cfg P fast pr s u"
      using partial_cool_main [OF inv P ck n(1) w] False by blast
    obtain cur where c: "walk_at fast pr s p cur level"
      "ahead fast pr s cur level = ahead fast pr s [] NUM_HOTNESS_LEVELS"
      "work cfg P fast pr s cur level = work cfg P fast pr s [] NUM_HOTNESS_LEVELS"
      using scan_complete(2) [OF inv sc False, of cfg P] by blast
    have "ucm_inv ?t"
      by (rule ucm_inv_bookmark [OF inv P])
        (use walk_start_on_tier [OF inv P w] bookmark_on_tier [OF inv P] in \<open>auto split: if_splits\<close>)
    moreover have "procs ?t pr = Some ?P" by simp
    moreover have "tier_clocks_ok ?P fast pr ?t"
      using ck by (simp add: tier_clocks_ok_def on_tier_def clocks_ok_def)
    moreover have "walk_at fast pr ?t p cur level"
      using c(1) by (simp add: walk_at_def)
    moreover have "all_settled cfg ?P fast pr ?t (ahead fast pr ?t cur level)"
      using ahead_all [OF inv, of cfg P fast pr] c(2)
      by (simp add: all_settled_def settled_def ahead_def clock_cong [OF ckP])
    moreover have "work cfg ?P fast pr ?t cur level < COOLING_PAGES"
      using work_bound [of cfg P fast pr s] few c(3)
      by (simp add: work_def weight_def settled_def clock_cong [OF ckP])
    ultimately obtain s' where s': "cool_loop cfg fast pr COOLING_PAGES p p level ?t = Inr (NULL, 0, s')"
      "procs s' = (procs ?t)(pr \<mapsto> cool_finished fast ?P)" "all_settled cfg ?P fast pr s' {}"
      using cool_loop_complete [of ?t pr ?P fast p cur level cfg COOLING_PAGES p] by blast
    then have u': "c = NULL" "l = 0" "u = s'" using u(1) by simp_all
    let ?Q = "mm_update (set_cur_cool_list fast 0) (cool_finished fast ?P)"
    let ?s = "s'\<lparr>procs := (procs s')(pr \<mapsto> ?Q)\<rparr>"
    have "partial_cool_impl cfg pr fast s = Inr (NULL, ?s)"
      using u(2) u' s'(2) by simp
    moreover have "ucm_inv ?s"
      by (rule ucm_inv_proc [of s' pr "cool_finished fast ?P"]) (use u(3) u' s'(2) in simp_all)
    moreover have "pg_list ?s x = Some (bin fast pr (cooled_level cfg P (pages s x)))"
      if "1 \<le> k" "pg_list s x = Some (bin fast pr k)" for x k
    proof -
      have "pl_wf s'" using u(3) u' by (simp add: ucm_inv_def)
      moreover have "all_settled cfg P fast pr s' {}"
        using s'(3) by (simp add: all_settled_def settled_def clock_cong [OF ckP])
      ultimately show ?thesis
        using settled_final [of s' cfg P fast pr s k x] u(4) u' that hot [OF that(2)] by simp
    qed
    ultimately show ?thesis
      by (intro exI [of _ ?s] exI [of _ ?Q]) simp
  qed
qed

section \<open>A walk that makes no progress\<close>

text \<open>
  A walk that meets only settled pages until its budget is used up changes nothing and
  returns the page it started from.
\<close>

lemma cool_page_settled:
  assumes inv: "ucm_inv s" and P: "procs s pr = Some P" and ck: "tier_clocks_ok P fast pr s"
    and p: "page_seq s (bin fast pr level) = xs @ p # ys" and st: "settled cfg P s p"
  shows "cool_page cfg fast pr p level s = Inr (last_of NULL xs, s)"
proof -
  have wf: "pl_wf s" using inv by (simp add: ucm_inv_def)
  have pl: "pg_list s p = Some (bin fast pr level)"
    using p by (simp add: pl_wf_mem [OF wf])
  have "clocks_ok P (pages s p)"
    using ck pl by (auto simp: tier_clocks_ok_def on_tier_def)
  moreover have "in_dram (pages s p) = fast" "hot (pages s p) = level" "pg_pid (pages s p) = pid P"
    by (rule ucm_inv_bin [OF inv pl]; use P in auto)+
  ultimately show ?thesis
    using P pl st page_neighbours(2) [OF wf p]
    by (simp add: cool_page_def tmp_accesses_ok Let_def settled_def flip: cooled_level_def)
qed

lemma cool_loop_settled:
  assumes "ucm_inv s" and "procs s pr = Some P" and "tier_clocks_ok P fast pr s"
    and "page_seq s (bin fast pr level) = cur @ ys" and "\<forall>x \<in> set cur. settled cfg P s x"
    and "n \<le> length cur"
  shows "cool_loop cfg fast pr n (last_of NULL cur) c level s = Inr (c, level, s)"
  using assms
proof (induction n arbitrary: cur ys)
  case (Suc n)
  then obtain xs p where cur: "cur = xs @ [p]"
    by (cases cur rule: rev_cases) auto
  have "p \<noteq> NULL"
    using pl_wf_nonnull [of s "bin fast pr level"] Suc.prems(1,4) cur by (auto simp: ucm_inv_def)
  moreover have "cool_page cfg fast pr p level s = Inr (last_of NULL xs, s)"
    using cool_page_settled [OF Suc.prems(1-3), of level xs p ys] Suc.prems(4,5) cur by simp
  moreover have "cool_loop cfg fast pr n (last_of NULL xs) c level s = Inr (c, level, s)"
    using Suc.IH [of xs "p # ys"] Suc.prems cur by simp
  ultimately show ?case
    using cur by simp
qed simp

lemma cooling_stuck:
  assumes inv: "ucm_inv s" and P: "procs s pr = Some P" and ck: "tier_clocks_ok P fast pr s"
    and n: "need_cool fast (mm P)" and c: "cur_cool fast (mm P) = p" "cur_cool_list fast (mm P) = level"
    and p: "page_seq s (bin fast pr level) = xs @ p # ys" and st: "\<forall>x \<in> set (xs @ [p]). settled cfg P s x"
    and many: "COOLING_PAGES \<le> length xs + 1"
  shows "partial_cool_impl cfg pr fast s = Inr (p, s)"
proof -
  have wf: "pl_wf s" using inv by (simp add: ucm_inv_def)
  have pl: "pg_list s p = Some (bin fast pr level)" and nn: "p \<noteq> NULL"
    using p pl_wf_nonnull [OF wf, of "bin fast pr level"] by (auto simp: pl_wf_mem [OF wf])
  have h: "hot (pages s p) = level" "pg_pid (pages s p) = pid P"
    by (rule ucm_inv_bin [OF inv pl]; use P in auto)+
  have "mm_update (set_cur_cool fast p level) P = P"
    using c by (cases P, cases "mm P") (auto simp: set_cur_cool_def cur_cool_def cur_cool_list_def split: if_splits)
  then have 1: "upd_mm pr (set_cur_cool fast p level) s = Inr s"
    using P by (simp add: map_upd_triv)
  have "mm_update (set_cur_cool_list fast level) P = P"
    using c by (cases P, cases "mm P") (auto simp: set_cur_cool_list_def cur_cool_list_def split: if_splits)
  then have 2: "upd_mm pr (set_cur_cool_list fast level) s = Inr s"
    using P by (simp add: map_upd_triv)
  have "cool_loop cfg fast pr COOLING_PAGES p p level s = Inr (p, level, s)"
    using cool_loop_settled [OF inv P ck, of level "xs @ [p]" ys cfg COOLING_PAGES p] p st many by simp
  then show ?thesis
    using P n c nn pl h 1 2 by (simp add: partial_cool_impl_def)
qed

end
