(* ===== verification/Mm_Drain.thy ===== *)
theory Mm_Drain
  imports Cooling_Complete
begin

text \<open>
  The three drain loops in sequence (\<open>mm_drain_async_requests\<close> of \<open>src/ucm/mm-async.c\<close>):
  the requests a process has collected are all in order (\<open>requests_ok\<close>), and draining them
  returns, keeps them in order, and leaves the free ring empty. Pages that are in the free
  ring and in a hot or cold ring at the same time are freed first and skipped later.
\<close>

definition requests_ok :: "ptr \<Rightarrow> ucm_state \<Rightarrow> bool" where
  "requests_ok pr s \<longleftrightarrow> (\<exists>P. procs s pr = Some P \<and>
     free_ring_ok pr s (ring_list (free_page_ring (mm P))) \<and>
     ring_wf (hot_ring (mm P)) \<and> ring_wf (cold_ring (mm P)) \<and>
     (\<forall>p \<in> set (ring_list (hot_ring (mm P))) \<union> set (ring_list (cold_ring (mm P))). level_ready pr s p))"

lemma drained_ready:
  assumes d: "drained pr ps s t" and r: "level_ready pr s x"
  shows "level_ready pr t x"
proof -
  obtain P P' where P: "procs s pr = Some P" "procs t = (procs s)(pr \<mapsto> P')" "drained_proc s ps P P'"
    "pg_list t x = (if x \<in> set ps then Some (tier_free (in_dram (pages s x))) else pg_list s x)"
    "pages t x = (if x \<in> set ps then freed_page (pages s x) else pages s x)"
    using d unfolding drained_def by auto
  have "process_clock P' = process_clock P"
    using P(3) by (auto simp: drained_proc_def)
  then show ?thesis
    using r P(1,2,4,5) clock_cong(1) [of P' P]
    by (cases "x \<in> set ps") (auto simp: level_ready_def freed_page_def reset_page_stats_def)
qed

lemma ring_fuel:
  "ring_wf r \<Longrightarrow> length (ring_list r) < ring_cap r"
  using ring_count_bound [of r] by (auto simp: ring_bound_def ring_wf_def)

lemma handle_hot_requests_ok:
  assumes inv: "ucm_inv s" and P: "procs s pr = Some P" and r: "ring_wf (hot_ring (mm P))"
    and ready: "\<forall>p \<in> set (ring_list (hot_ring (mm P))). level_ready pr s p"
  obtains k s' Q where "handle_hot_requests cfg pr s = Inr s'" "ucm_inv s'"
    "served cfg pr (take k (ring_list (hot_ring (mm P)))) s s'" "procs s' pr = Some Q"
    "ring_wf (hot_ring (mm Q))" "ring_list (hot_ring (mm Q)) = drop k (ring_list (hot_ring (mm P)))"
    "cold_ring (mm Q) = cold_ring (mm P)"
    "k < length (ring_list (hot_ring (mm P))) \<Longrightarrow> HOT_RING_REQS_THRESHOLD \<le>
       length (filter (\<lambda>p. present (pages s p)) (take k (ring_list (hot_ring (mm P)))))"
  using hot_reqs.loop_ok [OF inv P r refl ready ring_fuel [OF r], of cfg 0] P
  by (auto simp: handle_hot_requests_def)

lemma handle_cold_requests_ok:
  assumes inv: "ucm_inv s" and P: "procs s pr = Some P" and r: "ring_wf (cold_ring (mm P))"
    and ready: "\<forall>p \<in> set (ring_list (cold_ring (mm P))). level_ready pr s p"
  obtains k s' Q where "handle_cold_requests cfg pr s = Inr s'" "ucm_inv s'"
    "served cfg pr (take k (ring_list (cold_ring (mm P)))) s s'" "procs s' pr = Some Q"
    "ring_wf (cold_ring (mm Q))" "ring_list (cold_ring (mm Q)) = drop k (ring_list (cold_ring (mm P)))"
    "hot_ring (mm Q) = hot_ring (mm P)"
    "k < length (ring_list (cold_ring (mm P))) \<Longrightarrow> COLD_RING_REQS_THRESHOLD \<le>
       length (filter (\<lambda>p. present (pages s p)) (take k (ring_list (cold_ring (mm P)))))"
  using cold_reqs.loop_ok [OF inv P r refl ready ring_fuel [OF r], of cfg 0] P
  by (auto simp: handle_cold_requests_def)

lemma served_free_ring:
  assumes "served cfg pr ps s t" and "procs s pr = Some P" and "procs t pr = Some Q"
  shows "free_page_ring (mm Q) = free_page_ring (mm P)"
  using assms ring_step_frame(3) unfolding served_def by fastforce

text \<open>The three loops one after another: the states in between and the process in each.\<close>

record drain_trace =
  after_free :: ucm_state
  after_hot :: ucm_state
  proc_free :: hemem_process
  proc_end :: hemem_process
  hot_served :: nat
  cold_served :: nat

definition drain_run :: "config \<Rightarrow> ptr \<Rightarrow> hemem_process \<Rightarrow> ucm_state \<Rightarrow> drain_trace \<Rightarrow> ucm_state \<Rightarrow> bool" where
  "drain_run cfg pr P s d s' \<longleftrightarrow>
     (let fs = ring_list (free_page_ring (mm P)); hs = ring_list (hot_ring (mm P));
          cs = ring_list (cold_ring (mm P)); t = after_free d; u = after_hot d;
          P1 = proc_free d; P3 = proc_end d; k = hot_served d; k' = cold_served d
      in mm_drain_async_requests cfg pr s = Inr s' \<and> ucm_inv s' \<and>
         drained pr fs s t \<and> free_ring_ok pr t [] \<and> procs t pr = Some P1 \<and>
         (\<forall>p \<in> set hs \<union> set cs. level_ready pr t p) \<and>
         served cfg pr (take k hs) t u \<and>
         (k < length hs \<longrightarrow> HOT_RING_REQS_THRESHOLD \<le> length (filter (\<lambda>p. present (pages t p)) (take k hs))) \<and>
         served cfg pr (take k' cs) u s' \<and> procs s' pr = Some P3 \<and>
         (k' < length cs \<longrightarrow> COLD_RING_REQS_THRESHOLD \<le> length (filter (\<lambda>p. present (pages u p)) (take k' cs))) \<and>
         ring_wf (hot_ring (mm P3)) \<and> ring_list (hot_ring (mm P3)) = drop k hs \<and>
         ring_wf (cold_ring (mm P3)) \<and> ring_list (cold_ring (mm P3)) = drop k' cs \<and>
         free_page_ring (mm P3) = free_page_ring (mm P1))"

lemma drain_runD:
  assumes "drain_run cfg pr P s d s'"
  shows "mm_drain_async_requests cfg pr s = Inr s'" and "ucm_inv s'"
    and "drained pr (ring_list (free_page_ring (mm P))) s (after_free d)"
    and "free_ring_ok pr (after_free d) []" and "procs (after_free d) pr = Some (proc_free d)"
    and "\<forall>p \<in> set (ring_list (hot_ring (mm P))) \<union> set (ring_list (cold_ring (mm P))). level_ready pr (after_free d) p"
    and "served cfg pr (take (hot_served d) (ring_list (hot_ring (mm P)))) (after_free d) (after_hot d)"
    and "served cfg pr (take (cold_served d) (ring_list (cold_ring (mm P)))) (after_hot d) s'"
    and "procs s' pr = Some (proc_end d)"
    and "ring_wf (hot_ring (mm (proc_end d)))" and "ring_wf (cold_ring (mm (proc_end d)))"
    and "ring_list (hot_ring (mm (proc_end d))) = drop (hot_served d) (ring_list (hot_ring (mm P)))"
    and "ring_list (cold_ring (mm (proc_end d))) = drop (cold_served d) (ring_list (cold_ring (mm P)))"
    and "free_page_ring (mm (proc_end d)) = free_page_ring (mm (proc_free d))"
  using assms unfolding drain_run_def Let_def by blast+

lemma drain_run_all:
  assumes d: "drain_run cfg pr P s d s'"
    and "length (ring_list (hot_ring (mm P))) \<le> HOT_RING_REQS_THRESHOLD"
    and "length (ring_list (cold_ring (mm P))) \<le> COLD_RING_REQS_THRESHOLD"
  shows "length (ring_list (hot_ring (mm P))) \<le> hot_served d"
    and "length (ring_list (cold_ring (mm P))) \<le> cold_served d"
proof -
  have f: "length (filter Q (take k xs)) \<le> k" for Q k and xs :: "ptr list"
    using length_filter_le [of Q "take k xs"] by (simp add: le_trans)
  have "hot_served d < length (ring_list (hot_ring (mm P))) \<longrightarrow> HOT_RING_REQS_THRESHOLD \<le> hot_served d"
    "cold_served d < length (ring_list (cold_ring (mm P))) \<longrightarrow> COLD_RING_REQS_THRESHOLD \<le> cold_served d"
    using d f unfolding drain_run_def Let_def by (meson le_trans)+
  then show "length (ring_list (hot_ring (mm P))) \<le> hot_served d"
    "length (ring_list (cold_ring (mm P))) \<le> cold_served d"
    using assms(2,3) by linarith+
qed

lemma mm_drain_run:
  assumes inv: "ucm_inv s" and ok: "requests_ok pr s" and P: "procs s pr = Some P"
  shows "\<exists>d s'. drain_run cfg pr P s d s'"
proof -
  have fr: "free_ring_ok pr s (ring_list (free_page_ring (mm P)))"
    and w: "ring_wf (hot_ring (mm P))" "ring_wf (cold_ring (mm P))"
    and rd: "\<forall>p \<in> set (ring_list (hot_ring (mm P))) \<union> set (ring_list (cold_ring (mm P))). level_ready pr s p"
    using ok P by (auto simp: requests_ok_def)
  let ?fs = "ring_list (free_page_ring (mm P))"
  obtain t where t: "handle_free_page_ring pr s = Inr t" "ucm_inv t" "drained pr ?fs s t"
    "free_ring_ok pr t []"
    using inv fr by (rule handle_free_page_ring_ok)
  obtain P1 where P1: "procs t pr = Some P1" "hot_ring (mm P1) = hot_ring (mm P)"
    "cold_ring (mm P1) = cold_ring (mm P)"
    using t(3) P by (auto simp: drained_def drained_proc_def)
  have rd1: "\<forall>p \<in> set (ring_list (hot_ring (mm P))) \<union> set (ring_list (cold_ring (mm P))). level_ready pr t p"
    using rd drained_ready [OF t(3)] by simp
  have w1: "ring_wf (hot_ring (mm P1))" "ring_wf (cold_ring (mm P1))"
    and r1: "\<forall>p \<in> set (ring_list (hot_ring (mm P1))). level_ready pr t p"
    using w P1 rd1 by simp_all
  obtain k u P2 where u: "handle_hot_requests cfg pr t = Inr u" "ucm_inv u"
    "served cfg pr (take k (ring_list (hot_ring (mm P1)))) t u" "procs u pr = Some P2"
    "ring_wf (hot_ring (mm P2))" "ring_list (hot_ring (mm P2)) = drop k (ring_list (hot_ring (mm P1)))"
    "cold_ring (mm P2) = cold_ring (mm P1)"
    "k < length (ring_list (hot_ring (mm P1))) \<Longrightarrow> HOT_RING_REQS_THRESHOLD \<le>
       length (filter (\<lambda>p. present (pages t p)) (take k (ring_list (hot_ring (mm P1)))))"
    using handle_hot_requests_ok [OF t(2) P1(1) w1(1) r1, where cfg = cfg] by blast
  have w2: "ring_wf (cold_ring (mm P2))"
    and r2: "\<forall>p \<in> set (ring_list (cold_ring (mm P2))). level_ready pr u p"
    using w1 u(7) P1 rd1 served_ready [OF u(3)] by simp_all
  obtain k' s' P3 where s': "handle_cold_requests cfg pr u = Inr s'" "ucm_inv s'"
    "served cfg pr (take k' (ring_list (cold_ring (mm P2)))) u s'" "procs s' pr = Some P3"
    "ring_wf (cold_ring (mm P3))" "ring_list (cold_ring (mm P3)) = drop k' (ring_list (cold_ring (mm P2)))"
    "hot_ring (mm P3) = hot_ring (mm P2)"
    "k' < length (ring_list (cold_ring (mm P2))) \<Longrightarrow> COLD_RING_REQS_THRESHOLD \<le>
       length (filter (\<lambda>p. present (pages u p)) (take k' (ring_list (cold_ring (mm P2)))))"
    using handle_cold_requests_ok [OF u(2,4) w2 r2, where cfg = cfg] by blast
  have "free_page_ring (mm P3) = free_page_ring (mm P1)"
    using served_free_ring [OF u(3) P1(1) u(4)] served_free_ring [OF s'(3) u(4) s'(4)] by simp
  moreover have "mm_drain_async_requests cfg pr s = Inr s'"
    using t(1) u(1) s'(1) by (simp add: mm_drain_async_requests_def)
  ultimately have "drain_run cfg pr P s \<lparr>after_free = t, after_hot = u, proc_free = P1, proc_end = P3,
      hot_served = k, cold_served = k'\<rparr> s'"
    using s'(2-8) u(3,5-8) t(3,4) P1 rd1 by (simp add: drain_run_def)
  then show ?thesis by blast
qed

text \<open>
  Draining returns; afterwards the free ring is empty, the pages that were in it are on the
  free list of their tier, and each of the two level rings is empty or has served as many
  requests as one call allows.
\<close>

lemma mm_drain_ok:
  assumes inv: "ucm_inv s" and ok: "requests_ok pr s" and P: "procs s pr = Some P"
  obtains s' Q where "mm_drain_async_requests cfg pr s = Inr s'" "ucm_inv s'" "requests_ok pr s'"
    "mm_step s s'" "procs s' pr = Some Q" "ring_list (free_page_ring (mm Q)) = []"
    "\<And>p. p \<in> set (ring_list (free_page_ring (mm P))) \<Longrightarrow>
       pg_list s' p = Some (tier_free (in_dram (pages s p)))"
proof -
  obtain d s' where r: "drain_run cfg pr P s d s'"
    using mm_drain_run [OF assms] by blast
  note d = drain_runD [OF r]
  let ?P = "proc_end d"
  have "level_ready pr s' p"
    if "p \<in> set (ring_list (hot_ring (mm ?P))) \<union> set (ring_list (cold_ring (mm ?P)))" for p
    using that d(6,12,13) served_ready [OF d(7)] served_ready [OF d(8)] by (auto dest: in_set_dropD)
  moreover have e: "ring_wf (free_page_ring (mm ?P))" "ring_list (free_page_ring (mm ?P)) = []"
    using d(4,5,14) by (auto simp: free_ring_ok_def)
  ultimately have "requests_ok pr s'"
    using d(9-11) by (auto simp: requests_ok_def free_ring_ok_def)
  moreover have "mm_step s s'"
    using d(3,7,8) by (auto simp: drained_def served_def intro: mm_step_trans)
  moreover have "pg_list s' p = Some (tier_free (in_dram (pages s p)))"
    if "p \<in> set (ring_list (free_page_ring (mm P)))" for p
  proof -
    have "pg_list (after_free d) p = Some (tier_free (in_dram (pages s p)))"
      "\<not> present (pages (after_free d) p)"
      using d(3) that by (auto simp: drained_def freed_page_def reset_page_stats_def)
    then show ?thesis
      using d(7,8) served_present [OF d(7), of p] by (auto simp: served_def)
  qed
  ultimately show thesis
    using that d(1,2,9) e(2) by blast
qed

end
