(* ===== verification/Process_Mgr.thy ===== *)
theory Process_Mgr
  imports Mm_Async
begin

text \<open>
  The life of a process: its creation and destruction (\<open>src/ucm/type/process.c\<close>), its
  registration in the process table and the process list (\<open>src/ucm/proc-mgr.c\<close>), and the
  removal of a process with everything it owns (\<open>ucm_remove_process\<close> of
  \<open>src/ucm/ucm.c\<close>).
\<close>

definition CAPACITY :: nat where "CAPACITY = 128 * 1024 * 1024"

section \<open>Creation\<close>

text \<open>
  The memory \<open>calloc\<close> and \<open>malloc\<close> return is a parameter: the address of the process, null
  when the allocation fails, and the three buffers of the rings. The level lists of the
  new process and its links are zeroed with it.
\<close>

definition process_mem_init :: "bool \<Rightarrow> ptr list option \<Rightarrow> ptr list option \<Rightarrow> ptr list option
    \<Rightarrow> process_mem result" where
  "process_mem_init malloc_ok hot_buf cold_buf free_buf =
     andThen (ring_buf_init malloc_ok hot_buf (of_nat CAPACITY)) (\<lambda>hr.
     andThen (ring_buf_init malloc_ok cold_buf (of_nat CAPACITY)) (\<lambda>cr.
     andThen (ring_buf_init malloc_ok free_buf (of_nat CAPACITY)) (\<lambda>fr.
     Inr \<lparr>mem_allocated = 0, current_fastmem = 0, current_slowmem = 0, max_fastmem = 0,
          cur_cool_in_fastmem_list = 0, cur_cool_in_slowmem_list = 0,
          cur_cool_in_fastmem = NULL, cur_cool_in_slowmem = NULL, epoch_did_cool = False,
          need_cool_fastmem = False, need_cool_slowmem = False, cools = 0, hot_ring = hr,
          cold_ring = cr, free_page_ring = fr, pages_table = [], cxl_offset_to_page = []\<rparr>)))"

definition process_policy_init :: process_policy where
  "process_policy_init =
     \<lparr>access_count = (\<lambda>_. 0), sample_count = (\<lambda>_. 0), current_miss_ratio = Fin (-1),
      fastmem_delta = 0, deviation_ratio = Fin 0, migration_up_bytes = 0,
      migration_down_bytes = 0\<rparr>"

definition process_stats_init :: process_stats where
  "process_stats_init =
     \<lparr>miss_faults = 0, miss_but_allocated_faults = 0, up_count = 0, down_count = 0,
      wp_wait_count = 0, wp_wait_us = 0, unknown_page_count = 0\<rparr>"

definition calloc_process :: "ptr \<Rightarrow> ucm_state \<Rightarrow> ucm_state" where
  "calloc_process p s = s\<lparr>
     plists := (\<lambda>q. case q of
        Fastmem_Bin p' i \<Rightarrow> if p' = p then empty_page_list else plists s q
      | Slowmem_Bin p' i \<Rightarrow> if p' = p then empty_page_list else plists s q
      | _ \<Rightarrow> plists s q),
     pr_next := (pr_next s)(p := NULL), pr_prev := (pr_prev s)(p := NULL),
     pr_list := (pr_list s)(p := False), held := held s - {p},
     target_miss_ratio := (target_miss_ratio s)(p := Fin 0)\<rparr>"

definition hemem_process_init :: "ptr \<Rightarrow> bool \<Rightarrow> ptr list option \<Rightarrow> ptr list option \<Rightarrow>
    ptr list option \<Rightarrow> int \<Rightarrow> ucm_state \<Rightarrow> (ptr \<times> ucm_state) result" where
  "hemem_process_init addr malloc_ok hot_buf cold_buf free_buf pd s =
     (if addr = NULL then Inr (NULL, s)
      else andThen (process_mem_init malloc_ok hot_buf cold_buf free_buf) (\<lambda>m.
           let s = calloc_process addr s
           in Inr (addr, s\<lparr>procs := (procs s)(addr \<mapsto>
                \<lparr>pid = pd, uffd = 0, exited = False, valid_uffd = False, remap_fd = 0,
                 zero_pages = False, still_migrating = False, process_clock = (\<lambda>_. 0),
                 mm = m, policy = process_policy_init, pstats = process_stats_init\<rparr>)\<rparr>)))"

section \<open>Destruction\<close>

text \<open>
  The loop over one level list. Pages stay on the list while it runs, so its fuel is one
  more than the number of its entries.
\<close>

fun free_mem_loop :: "nat \<Rightarrow> ptr \<Rightarrow> list_id \<Rightarrow> ptr \<Rightarrow> u64 \<Rightarrow> ucm_state \<Rightarrow> (u64 \<times> ucm_state) result" where
  "free_mem_loop 0 process l page n s = Inl Out_Of_Fuel"
| "free_mem_loop (Suc fuel) process l page n s =
     (let page = next_page l page s
      in if page = NULL then Inr (n, s)
         else andThen (mm_remove_page process page s) (free_mem_loop fuel process l page (n + 1)))"

definition free_mem_list :: "ptr \<Rightarrow> list_id \<Rightarrow> ucm_state \<Rightarrow> (u64 \<times> ucm_state) result" where
  "free_mem_list process l s =
     free_mem_loop (Suc (unat (numentries (plists s l)))) process l NULL 0 s"

fun free_mem_lists :: "ptr \<Rightarrow> list_id list \<Rightarrow> u64 \<Rightarrow> ucm_state \<Rightarrow> (u64 \<times> ucm_state) result" where
  "free_mem_lists process [] n s = Inr (n, s)"
| "free_mem_lists process (l # ls) n s =
     andThen (free_mem_list process l s) (\<lambda>(k, s). free_mem_lists process ls (n + k) s)"

definition process_mem_destroy :: "config \<Rightarrow> ptr \<Rightarrow> ucm_state \<Rightarrow> ucm_state result" where
  "process_mem_destroy cfg process s =
     andThen (free_mem_lists process
        (map (fastmem_lists process) [0..<NUM_HOTNESS_LEVELS] @
         map (slowmem_lists process) [0..<NUM_HOTNESS_LEVELS]) 0 s) (\<lambda>(n_freed, s).
     mm_drain_async_requests cfg process s)"

definition hemem_process_destroy :: "config \<Rightarrow> ptr \<Rightarrow> ucm_state \<Rightarrow> ucm_state result" where
  "hemem_process_destroy cfg process s =
     andThen (process_mem_destroy cfg process s) (\<lambda>s.
     Inr (s\<lparr>procs := (procs s)(process := None)\<rparr>))"

section \<open>The process table\<close>

definition pid_key :: "ucm_state \<Rightarrow> ptr \<Rightarrow> int" where
  "pid_key s p = (case procs s p of None \<Rightarrow> -1 | Some pr \<Rightarrow> pid pr)"

definition add_process :: "config \<Rightarrow> ptr \<Rightarrow> ucm_state \<Rightarrow> ucm_state result" where
  "add_process cfg process s =
     andThen (get_proc process s) (\<lambda>pr.
     assertC (HASH_FIND (pid_key s) (proc_map s) (pid pr) = NULL) (
     andThen (HASH_ADD (pid pr) process (proc_map s)) (\<lambda>t.
     enqueue_process cfg process (s\<lparr>proc_map := t\<rparr>))))"

definition remove_process :: "config \<Rightarrow> ptr \<Rightarrow> ucm_state \<Rightarrow> ucm_state result" where
  "remove_process cfg process s =
     andThen (HASH_DELETE process (proc_map s)) (\<lambda>t.
     andThen (process_list_remove cfg process (s\<lparr>proc_map := t\<rparr>)) (\<lambda>s.
     andThen (lock_process process s) (\<lambda>s.
     andThen (upd_mm process (\<lambda>m. m\<lparr>current_fastmem := 0, current_slowmem := 0\<rparr>) s) (\<lambda>s.
     unlock_process process s))))"

definition find_process :: "int \<Rightarrow> ucm_state \<Rightarrow> ptr" where
  "find_process pd s = HASH_FIND (pid_key s) (proc_map s) pd"

definition ucm_remove_process :: "config \<Rightarrow> ptr \<Rightarrow> ucm_state \<Rightarrow> ucm_state result" where
  "ucm_remove_process cfg process s =
     andThen (remove_process cfg process s) (hemem_process_destroy cfg process)"

text \<open>
  \<open>alive\<close> stands for the probe of the \<open>/proc\<close> file system. The macro that walks the list
  reads the next process before the body runs.
\<close>

fun prune_loop :: "config \<Rightarrow> (int \<Rightarrow> bool) \<Rightarrow> nat \<Rightarrow> ptr \<Rightarrow> u64 \<Rightarrow> ucm_state \<Rightarrow> (u64 \<times> ucm_state) result" where
  "prune_loop cfg alive 0 iter n s = Inl Out_Of_Fuel"
| "prune_loop cfg alive (Suc fuel) iter n s =
     (if iter = NULL then Inr (n, s)
      else let nxt = pr_next s iter
           in andThen (get_proc iter s) (\<lambda>pr.
              if \<not> alive (pid pr)
              then andThen (ucm_remove_process cfg iter s)
                     (prune_loop cfg alive fuel nxt (n + 1))
              else prune_loop cfg alive fuel nxt n s))"

definition proc_mgr_prune :: "config \<Rightarrow> (int \<Rightarrow> bool) \<Rightarrow> ucm_state \<Rightarrow> (u64 \<times> ucm_state) result" where
  "proc_mgr_prune cfg alive s =
     prune_loop cfg alive (Suc (unat (pl_numentries (processes_list s))))
       (pl_first (processes_list s)) 0 s"

definition proc_mgr_init :: "ucm_state \<Rightarrow> ucm_state" where
  "proc_mgr_init s = s\<lparr>processes_list := \<lparr>pl_first = NULL, pl_last = NULL, pl_numentries = 0\<rparr>\<rparr>"

end
