(* ===== verification/Migration.thy ===== *)
theory Migration
  imports Process_Mgr
begin

text \<open>
  Allocation and migration of pages: the page allocators of \<open>src/ucm/policy/alloc.c\<close>, the
  choice of migration candidates of \<open>src/ucm/policy/migrate.c\<close>, the remap request of
  \<open>src/ucm/ipc/ipc.c\<close>, and the migration of \<open>src/ucm/migration.c\<close>, which copies a page to
  a free page of the other tier, has the application remap it, and swaps the two pages'
  places.

  What the kernel and the application answer is a parameter (\<open>ucm_env\<close>): the reply to a
  remap request and the result of the write-protection call, each a function of the state
  at the time of the call, so that every call may be answered differently.
\<close>

section \<open>The environment\<close>

record hemem_page_app =
  app_va :: u64
  app_devdax_offset :: u64
  app_in_dram :: bool
  app_pt :: pagetypes

datatype app_reply =
    No_Memory
  | Send_Failed
  | Connection_Closed
  | Read_Error
  | Short_Reply
  | Reply bool u64

datatype ipc_result = IPC_SUCCESS | IPC_ERRED | IPC_APP_EXITED | IPC_INVALID_MSG

datatype ioctl_result = Ioctl_Ok | Ioctl_Gone | Ioctl_Error

record ucm_env =
  env_remap :: "ucm_state \<Rightarrow> ptr \<Rightarrow> hemem_page_app \<Rightarrow> app_reply"
  env_wp :: "ucm_state \<Rightarrow> ptr \<Rightarrow> bool \<Rightarrow> ioctl_result"

text \<open>
  The remap request: \<open>Reply ok va\<close> is a complete reply with its status and the address it
  confirms; a reply for another address is a failed assertion.
\<close>

definition ipc_remap_pages :: "ucm_env \<Rightarrow> ptr \<Rightarrow> hemem_page_app \<Rightarrow> ucm_state \<Rightarrow> ipc_result result" where
  "ipc_remap_pages env process page s =
     andThen (get_proc process s) (\<lambda>pr.
     case env_remap env s process page of
       No_Memory \<Rightarrow> Inr IPC_ERRED
     | Send_Failed \<Rightarrow> Inr IPC_ERRED
     | Connection_Closed \<Rightarrow> Inr IPC_APP_EXITED
     | Read_Error \<Rightarrow> Inr IPC_ERRED
     | Short_Reply \<Rightarrow> Inr IPC_INVALID_MSG
     | Reply ok v \<Rightarrow> assertC (v = app_va page) (Inr (if ok then IPC_SUCCESS else IPC_ERRED)))"

section \<open>Allocation\<close>

definition take_page :: "bool \<Rightarrow> ptr \<Rightarrow> ptr \<Rightarrow> ucm_state \<Rightarrow> (ptr \<times> ucm_state) result" where
  "take_page fast process page s =
     assertC (in_dram (pages s page) = fast) (
     assertC (\<not> present (pages s page)) (
     andThen (get_proc process s) (\<lambda>pr.
     let s = upd_page page (\<lambda>p. p\<lparr>present := True, pg_pid := pid pr\<rparr>) s;
         sz = pt_to_pagesize (pt (pages s page))
     in andThen (upd_mm process (\<lambda>m. if fast
            then m\<lparr>current_fastmem := current_fastmem m + sz\<rparr>
            else m\<lparr>current_slowmem := current_slowmem m + sz\<rparr>) s) (\<lambda>s.
        andThen (unlock_process process s) (\<lambda>s. Inr (page, s))))))"

definition allocate_fastmem_preferred :: "ptr \<Rightarrow> ucm_state \<Rightarrow> (ptr \<times> ucm_state) result" where
  "allocate_fastmem_preferred process s =
     andThen (lock_process process s) (\<lambda>s.
     andThen (get_proc process s) (\<lambda>pr.
     andThen (if current_fastmem (mm pr) < max_fastmem (mm pr) then get_free_fastmem_page s
              else Inr (NULL, s)) (\<lambda>(page, s).
     if page \<noteq> NULL then take_page True process page s
     else andThen (get_free_slowmem_page s) (\<lambda>(page, s).
          if page \<noteq> NULL then take_page False process page s
          else Inr (NULL, s)))))"

definition allocate_slowmem_preferred :: "ptr \<Rightarrow> ucm_state \<Rightarrow> (ptr \<times> ucm_state) result" where
  "allocate_slowmem_preferred process s =
     andThen (lock_process process s) (\<lambda>s.
     andThen (get_free_slowmem_page s) (\<lambda>(page, s).
     if page \<noteq> NULL then take_page False process page s
     else andThen (get_free_fastmem_page s) (\<lambda>(page, s).
          if page \<noteq> NULL then take_page True process page s
          else Inr (NULL, s))))"

datatype ALLOC_MODE = FASTMEM_PREFERRED | SLOWMEM_PREFERRED

fun get_alloc_fn_by_mode :: "ALLOC_MODE \<Rightarrow> ptr \<Rightarrow> ucm_state \<Rightarrow> (ptr \<times> ucm_state) result" where
  "get_alloc_fn_by_mode FASTMEM_PREFERRED = allocate_fastmem_preferred"
| "get_alloc_fn_by_mode SLOWMEM_PREFERRED = allocate_slowmem_preferred"

section \<open>Candidates\<close>

definition PEBS_MAX_DEMOTION_TIER :: nat where
  "PEBS_MAX_DEMOTION_TIER = NUM_HOTNESS_LEVELS - 2"
definition MIN_MIGRATION_EPOCH_INTERVAL :: u64 where "MIN_MIGRATION_EPOCH_INTERVAL = 5"

definition migratable :: "u64 \<Rightarrow> hemem_page \<Rightarrow> bool" where
  "migratable curr_epoch p =
     (let min_migration_epoch = (if last_migrated_epoch p = 0 then 0
            else last_migrated_epoch p + MIN_MIGRATION_EPOCH_INTERVAL)
      in curr_epoch \<ge> min_migration_epoch)"

text \<open>The inner loop over one list; it visits each entry at most once.\<close>

fun find_candidate_in :: "nat \<Rightarrow> ptr \<Rightarrow> list_id \<Rightarrow> ptr \<Rightarrow> ucm_state \<Rightarrow> (ptr \<times> ucm_state) result" where
  "find_candidate_in 0 process l p s = Inl Out_Of_Fuel"
| "find_candidate_in (Suc fuel) process l p s =
     (let p = next_page l p s
      in if p = NULL then Inr (NULL, s)
         else assertC (va (pages s p) \<noteq> 0) (
              if migratable (scan_epoch s) (pages s p)
              then andThen (page_list_remove l p s) (\<lambda>s.
                   andThen (get_proc process s) (\<lambda>pr.
                   assertC (pg_pid (pages s p) = pid pr) (Inr (p, s))))
              else find_candidate_in fuel process l p s))"

fun find_candidate :: "ptr \<Rightarrow> list_id list \<Rightarrow> ucm_state \<Rightarrow> (ptr \<times> ucm_state) result" where
  "find_candidate process [] s = Inr (NULL, s)"
| "find_candidate process (l # ls) s =
     andThen (find_candidate_in (Suc (unat (numentries (plists s l)))) process l NULL s)
       (\<lambda>(p, s). if p \<noteq> NULL then Inr (p, s) else find_candidate process ls s)"

definition find_hottest_slowmem_page :: "ptr \<Rightarrow> ucm_state \<Rightarrow> (ptr \<times> ucm_state) result" where
  "find_hottest_slowmem_page process s =
     find_candidate process (map (slowmem_lists process) (rev [0..<NUM_HOTNESS_LEVELS])) s"

definition find_coldest_fastmem_page :: "ptr \<Rightarrow> ucm_state \<Rightarrow> (ptr \<times> ucm_state) result" where
  "find_coldest_fastmem_page process s =
     find_candidate process (map (fastmem_lists process) [0..<PEBS_MAX_DEMOTION_TIER]) s"

definition find_oldest_fastmem_page :: "ptr \<Rightarrow> ucm_state \<Rightarrow> (ptr \<times> ucm_state) result" where
  "find_oldest_fastmem_page process s = dequeue_page (fastmem_lists process COLD) s"

section \<open>Migration of one page\<close>

definition ucm_wp_page :: "ucm_env \<Rightarrow> ptr \<Rightarrow> bool \<Rightarrow> ucm_state \<Rightarrow> ucm_state result" where
  "ucm_wp_page env page protect s =
     (let addr = va (pages s page)
      in assertC (addr \<noteq> 0) (
         assertC (addr mod HUGEPAGE_SIZE = 0) (
         case env_wp env s page protect of
           Ioctl_Ok \<Rightarrow> Inr s
         | Ioctl_Gone \<Rightarrow> Inr s
         | Ioctl_Error \<Rightarrow> Inl Assert_Fail)))"

definition ucm_migrate_one_page :: "config \<Rightarrow> ucm_env \<Rightarrow> ptr \<Rightarrow> ptr \<Rightarrow> bool \<Rightarrow> u64 \<Rightarrow>
    ucm_state \<Rightarrow> ucm_state result" where
  "ucm_migrate_one_page cfg env process page dst_is_fastmem dst_offset s =
     assertC (page \<noteq> NULL) (
     assertC (if dst_is_fastmem then \<not> in_dram (pages s page) else in_dram (pages s page)) (
     let pagesize = pt_to_pagesize (pt (pages s page));
         old_addr_offset = devdax_offset (pages s page);
         new_addr_offset = dst_offset;
         new_tier_sz = (if dst_is_fastmem then get_fastmem_size s else get_slowmem_size s);
         old_tier_sz = (if dst_is_fastmem then get_slowmem_size s else get_fastmem_size s)
     in assertC (old_addr_offset < old_tier_sz) (
        assertC (old_addr_offset + pagesize \<le> old_tier_sz) (
        assertC (new_addr_offset < new_tier_sz) (
        assertC (new_addr_offset + pagesize \<le> new_tier_sz) (
        let old_addr = devdax_offset_to_addr old_addr_offset (\<not> dst_is_fastmem) s;
            new_addr = devdax_offset_to_addr new_addr_offset dst_is_fastmem s
        in assertC (old_addr mod pagesize = 0) (
           assertC (new_addr mod pagesize = 0) (
           let s = hemem_memcpy new_addr old_addr pagesize s
           in andThen (if dst_is_fastmem then ucm_stats_record_migration_up process page pagesize s
                       else ucm_stats_record_migration_down process page pagesize s) (\<lambda>s.
              let s = upd_page page (devdax_offset_update (\<lambda>_. dst_offset)) s;
                  page_app = \<lparr>app_va = va (pages s page),
                              app_devdax_offset = devdax_offset (pages s page),
                              app_in_dram = dst_is_fastmem, app_pt = pt (pages s page)\<rparr>
              in andThen (ipc_remap_pages env process page_app s) (\<lambda>rc.
                 case rc of
                   IPC_SUCCESS \<Rightarrow>
                     let s = upd_page page (in_dram_update (\<lambda>_. dst_is_fastmem)) s
                     in if dst_is_fastmem then mm_remove_page_from_cxl process page s
                        else mm_add_page_to_cxl process page s
                 | IPC_APP_EXITED \<Rightarrow> ucm_remove_process cfg process s
                 | _ \<Rightarrow> Inl Assert_Fail))))))))))"

definition begin_migration :: "ucm_env \<Rightarrow> ptr \<Rightarrow> ptr \<Rightarrow> ucm_state \<Rightarrow> ucm_state result" where
  "begin_migration env process page s =
     andThen (get_proc process s) (\<lambda>pr.
     assertC (pg_pid (pages s page) = pid pr) (
     check Deadlock (\<not> remap_lock (pages s page)) (
     let s = upd_page page (\<lambda>p. p\<lparr>remap_lock := True, migrating := True,
               migration_uffd_unmap_pending := True, last_migrated_epoch := scan_epoch s,
               migration_access_comp :=
                 max (migration_access_comp p) (pt_to_cacheline_count (pt p))\<rparr>) s
     in ucm_wp_page env page True s)))"

definition demote_one_page :: "config \<Rightarrow> ucm_env \<Rightarrow> ptr \<Rightarrow> ptr \<Rightarrow> u64 \<Rightarrow> ucm_state \<Rightarrow> ucm_state result" where
  "demote_one_page cfg env process page slowmem_offset s =
     andThen (begin_migration env process page s) (\<lambda>s.
     andThen (ucm_migrate_one_page cfg env process page False slowmem_offset s) (\<lambda>s.
     let sz = pt_to_pagesize (pt (pages s page))
     in andThen (upd_mm process (\<lambda>m. m\<lparr>current_fastmem := current_fastmem m - sz,
                   current_slowmem := current_slowmem m + sz\<rparr>) s) (\<lambda>s.
        assertC (\<not> in_dram (pages s page)) (
        Inr (upd_page page (\<lambda>p. p\<lparr>migrating := False, remap_lock := False\<rparr>) s)))))"

definition promote_one_page :: "config \<Rightarrow> ucm_env \<Rightarrow> ptr \<Rightarrow> ptr \<Rightarrow> u64 \<Rightarrow> ucm_state \<Rightarrow> ucm_state result" where
  "promote_one_page cfg env process page fastmem_offset s =
     andThen (begin_migration env process page s) (\<lambda>s.
     andThen (ucm_migrate_one_page cfg env process page True fastmem_offset s) (\<lambda>s.
     let sz = pt_to_pagesize (pt (pages s page))
     in andThen (upd_mm process (\<lambda>m. m\<lparr>current_fastmem := current_fastmem m + sz,
                   current_slowmem := current_slowmem m - sz\<rparr>) s) (\<lambda>s.
        assertC (in_dram (pages s page)) (
        Inr (upd_page page (\<lambda>p. p\<lparr>migrating := False, remap_lock := False\<rparr>) s)))))"

section \<open>Migration up to a number of bytes\<close>

text \<open>
  The two candidate functions of the policy in use are arguments. An iteration takes a
  page off the level lists of the source tier, so the loops are given one more than the
  number of pages on those lists as fuel.
\<close>

type_synonym candidate_fn = "ptr \<Rightarrow> ucm_state \<Rightarrow> (ptr \<times> ucm_state) result"

definition pages_on :: "(nat \<Rightarrow> list_id) \<Rightarrow> ucm_state \<Rightarrow> nat" where
  "pages_on bins s = sum_list (map (\<lambda>i. unat (numentries (plists s (bins i)))) [0..<NUM_HOTNESS_LEVELS])"

definition assert_clean_page :: "ptr \<Rightarrow> ucm_state \<Rightarrow> ucm_state result" where
  "assert_clean_page np s =
     assertC (hot (pages s np) = COLD) (
     assertC (accesses (pages s np) FASTMEM = 0 \<and> tot_accesses (pages s np) FASTMEM = 0) (
     assertC (accesses (pages s np) SLOWMEM = 0 \<and> tot_accesses (pages s np) SLOWMEM = 0) (Inr s)))"

fun migrate_down_loop :: "config \<Rightarrow> ucm_env \<Rightarrow> candidate_fn \<Rightarrow> nat \<Rightarrow> ptr \<Rightarrow> u64 \<Rightarrow> u64 \<Rightarrow>
    ucm_state \<Rightarrow> (u64 \<times> ucm_state) result" where
  "migrate_down_loop cfg env find_demotion 0 process bytes migrated s = Inl Out_Of_Fuel"
| "migrate_down_loop cfg env find_demotion (Suc fuel) process bytes migrated s =
     (if \<not> migrated < bytes \<or> migrated \<ge> PEBS_MIGRATE_RATE then Inr (migrated, s)
      else andThen (find_demotion process s) (\<lambda>(cp, s).
        if cp = NULL then Inr (migrated, s)
        else andThen (get_proc process s) (\<lambda>pr.
          assertC (pg_pid (pages s cp) = pid pr) (
          assertC (va (pages s cp) \<noteq> 0) (
          andThen (if cp = cur_cool_in_fastmem (mm pr)
                   then assertC (in_dram (pages s cp)) (upd_mm process (\<lambda>m.
                     m\<lparr>cur_cool_in_fastmem := NULL, cur_cool_in_fastmem_list := 0\<rparr>) s)
                   else Inr s) (\<lambda>s.
          andThen (get_free_slowmem_page s) (\<lambda>(np, s).
          if np \<noteq> NULL
          then assertC (\<not> present (pages s np)) (
               assertC (pg_pid (pages s np) = -1) (
               let old_offset = devdax_offset (pages s cp)
               in andThen (mm_find_page process (va (pages s cp)) s) (\<lambda>f.
                  if f = NULL then migrate_down_loop cfg env find_demotion fuel process bytes migrated s
                  else andThen (demote_one_page cfg env process cp (devdax_offset (pages s np)) s) (\<lambda>s.
                    let s = upd_page np (\<lambda>p. p\<lparr>devdax_offset := old_offset, in_dram := True,
                              present := False\<rparr>) s
                    in andThen (assert_clean_page np s) (\<lambda>s.
                       andThen (enqueue_page (slowmem_lists process (hot (pages s cp))) cp s) (\<lambda>s.
                       andThen (return_free_fastmem_page np s) (\<lambda>s.
                       migrate_down_loop cfg env find_demotion fuel process bytes
                         (migrated + pt_to_pagesize (pt (pages s cp))) s)))))))
          else andThen (enqueue_page (fastmem_lists process (hot (pages s cp))) cp s)
                 (\<lambda>s. Inr (migrated, s)))))))))"

definition process_migrate_down_bytes :: "config \<Rightarrow> ucm_env \<Rightarrow> candidate_fn \<Rightarrow> ptr \<Rightarrow> u64 \<Rightarrow>
    ucm_state \<Rightarrow> (u64 \<times> ucm_state) result" where
  "process_migrate_down_bytes cfg env find_demotion process bytes s =
     migrate_down_loop cfg env find_demotion (Suc (pages_on (fastmem_lists process) s))
       process bytes 0 s"

fun migrate_up_loop :: "config \<Rightarrow> ucm_env \<Rightarrow> candidate_fn \<Rightarrow> nat \<Rightarrow> ptr \<Rightarrow> u64 \<Rightarrow> u64 \<Rightarrow>
    ucm_state \<Rightarrow> (u64 \<times> ucm_state) result" where
  "migrate_up_loop cfg env find_promotion 0 process bytes migrated s = Inl Out_Of_Fuel"
| "migrate_up_loop cfg env find_promotion (Suc fuel) process bytes migrated s =
     (if \<not> migrated < bytes \<or> migrated \<ge> PEBS_MIGRATE_RATE then Inr (migrated, s)
      else andThen (find_promotion process s) (\<lambda>(p, s).
        if p = NULL then Inr (migrated, s)
        else andThen (get_proc process s) (\<lambda>pr.
          andThen (if p = cur_cool_in_slowmem (mm pr)
                   then assertC (\<not> in_dram (pages s p)) (upd_mm process (\<lambda>m.
                     m\<lparr>cur_cool_in_slowmem := NULL, cur_cool_in_slowmem_list := 0\<rparr>) s)
                   else Inr s) (\<lambda>s.
          assertC (pg_pid (pages s p) = pid pr) (
          assertC (va (pages s p) \<noteq> 0) (
          andThen (tmp_accesses pr (pages s p)) (\<lambda>(a, b).
          let new_hotness = access_to_index cfg a b
          in andThen (get_free_fastmem_page s) (\<lambda>(np, s).
             if np = NULL
             then let s = upd_page p (hot_update (\<lambda>_. new_hotness)) s
                  in andThen (enqueue_page (slowmem_lists process (hot (pages s p))) p s)
                       (\<lambda>s. Inr (migrated, s))
             else assertC (\<not> present (pages s np)) (
                  assertC (pg_pid (pages s np) = -1) (
                  let old_offset = devdax_offset (pages s p)
                  in andThen (promote_one_page cfg env process p (devdax_offset (pages s np)) s) (\<lambda>s.
                     let s = upd_page np (\<lambda>q. q\<lparr>devdax_offset := old_offset, in_dram := False,
                               present := False\<rparr>) s
                     in andThen (assert_clean_page np s) (\<lambda>s.
                        let s = upd_page p (hot_update (\<lambda>_. new_hotness)) s
                        in andThen (enqueue_page (fastmem_lists process
                              (if CONFIG_PEBS cfg then hot (pages s p) else COLD)) p s) (\<lambda>s.
                           andThen (return_free_slowmem_page np s) (\<lambda>s.
                           migrate_up_loop cfg env find_promotion fuel process bytes
                             (migrated + pt_to_pagesize (pt (pages s p))) s))))))))))))))"

definition process_migrate_up_bytes :: "config \<Rightarrow> ucm_env \<Rightarrow> candidate_fn \<Rightarrow> ptr \<Rightarrow> u64 \<Rightarrow>
    ucm_state \<Rightarrow> (u64 \<times> ucm_state) result" where
  "process_migrate_up_bytes cfg env find_promotion process bytes s =
     migrate_up_loop cfg env find_promotion (Suc (pages_on (slowmem_lists process) s))
       process bytes 0 s"

end
