(* ===== verification/Alloc_Correct.thy ===== *)
theory Alloc_Correct
  imports Mm_Drain Migration
begin

text \<open>
  Correctness of the page allocators of \<open>src/ucm/policy/alloc.c\<close>: which tier a page comes
  from, what the process is charged, and what happens to the lock of the process.
\<close>

section \<open>The parts an operation on pages leaves alone\<close>

text \<open>The list of processes, the process table and the layout of the two tiers.\<close>

definition same_registry :: "ucm_state \<Rightarrow> ucm_state \<Rightarrow> bool" where
  "same_registry s s' \<longleftrightarrow> pr_next s' = pr_next s \<and> pr_prev s' = pr_prev s \<and> pr_list s' = pr_list s \<and>
     processes_list s' = processes_list s \<and> target_miss_ratio s' = target_miss_ratio s \<and>
     proc_map s' = proc_map s \<and> fastmem_sz s' = fastmem_sz s \<and> slowmem_sz s' = slowmem_sz s \<and>
     fastmem_ptr s' = fastmem_ptr s \<and> slowmem_ptr s' = slowmem_ptr s \<and> scan_epoch s' = scan_epoch s"

lemma same_registry_refl [simp]: "same_registry s s"
  by (simp add: same_registry_def)

lemma same_registry_trans: "\<lbrakk>same_registry s t; same_registry t u\<rbrakk> \<Longrightarrow> same_registry s u"
  by (simp add: same_registry_def)

lemma mm_step_registry: "mm_step s s' \<Longrightarrow> same_registry s s'"
  by (auto simp: mm_step_def same_registry_def)

lemma page_step_registry: "page_step s s' \<Longrightarrow> same_registry s s'"
  by (rule mm_step_registry [OF page_mm_step])

lemma same_registry_seq:
  assumes "same_registry s s'"
  shows "proc_seq s' = proc_seq s" and "pr_wf s' = pr_wf s"
  using assms by (simp_all add: same_registry_def proc_seq_def pr_wf_def is_proclist_def)

section \<open>Taking a page off a free list\<close>

definition charge :: "bool \<Rightarrow> u64 \<Rightarrow> hemem_process \<Rightarrow> hemem_process" where
  "charge fast n P = mm_update (\<lambda>m. if fast then m\<lparr>current_fastmem := current_fastmem m + n\<rparr>
     else m\<lparr>current_slowmem := current_slowmem m + n\<rparr>) P"

lemma charge_frame [simp]:
  "pid (charge fast n P) = pid P" "uffd (charge fast n P) = uffd P"
  "cur_cool f (mm (charge fast n P)) = cur_cool f (mm P)"
  "process_clock (charge fast n P) = process_clock P"
  "free_page_ring (mm (charge fast n P)) = free_page_ring (mm P)"
  "hot_ring (mm (charge fast n P)) = hot_ring (mm P)"
  "cold_ring (mm (charge fast n P)) = cold_ring (mm P)"
  "pages_table (mm (charge fast n P)) = pages_table (mm P)"
  "cxl_offset_to_page (mm (charge fast n P)) = cxl_offset_to_page (mm P)"
  by (simp_all add: charge_def cur_cool_def)

definition taken_page :: "int \<Rightarrow> hemem_page \<Rightarrow> hemem_page" where
  "taken_page i pg = pg\<lparr>present := True, pg_pid := i\<rparr>"

text \<open>The last page of the free list is taken, belongs to the process and is on no list.\<close>

definition took :: "bool \<Rightarrow> ptr \<Rightarrow> hemem_process \<Rightarrow> ptr \<Rightarrow> ucm_state \<Rightarrow> ucm_state \<Rightarrow> bool" where
  "took fast pr P p s s' \<longleftrightarrow> same_registry s s' \<and> held s' = held s \<and>
     page_seq s (tier_free fast) = butlast (page_seq s (tier_free fast)) @ [p] \<and>
     page_seq s' = (page_seq s)(tier_free fast := butlast (page_seq s (tier_free fast))) \<and>
     pg_list s' = (pg_list s)(p := None) \<and>
     pages s' = (pages s)(p := taken_page (pid P) (pages s p)) \<and>
     procs s' = (procs s)(pr \<mapsto> charge fast (pt_to_pagesize (pt (pages s p))) P) \<and>
     pa_to_proc_map s' = pa_to_proc_map s \<and> ucm_mem s' = ucm_mem s \<and> stats s' = stats s"

lemma ucm_inv_unlink:
  assumes inv: "ucm_inv s" and p: "pg_list s p = Some (tier_free t)"
    and s': "pl_wf s'" "procs s' = procs s" "pg_list s' = (pg_list s)(p := None)"
      "\<And>x. x \<noteq> p \<Longrightarrow> pages s' x = pages s x"
  shows "ucm_inv s'"
proof -
  have "pages_ok s'"
  proof (rule pages_okI [OF _ same_pids_eq [OF s'(2)], where p = p])
    show "pages_ok s" using inv by (simp add: ucm_inv_def)
  qed (use s' in auto)
  moreover have "bookmarks_ok s'"
  proof (rule bookmarks_okI [OF _ s'(2)])
    show "bookmarks_ok s" using inv by (simp add: ucm_inv_def)
    show "\<exists>j. pg_list s' x = Some (bin f c j)" if "pg_list s x = Some (bin f c i)" for x f c i
      using that p s'(3) by (cases "x = p") auto
  qed
  ultimately show ?thesis
    using s'(1) by (simp add: ucm_inv_def)
qed

lemma ucm_inv_held [simp]:
  "ucm_inv (s\<lparr>held := h\<rparr>) = ucm_inv s"
  "page_seq (s\<lparr>held := h\<rparr>) = page_seq s"
  "pl_wf (s\<lparr>held := h\<rparr>) = pl_wf s"
  by (rule ucm_inv_cong page_parts_cong; simp)+

lemma get_free_page:
  "get_free_fastmem_page s = dequeue_page (tier_free True) s"
  "get_free_slowmem_page s = dequeue_page (tier_free False) s"
  by (simp_all add: get_free_fastmem_page_def get_free_slowmem_page_def)

lemma take_page_ok:
  assumes inv: "ucm_inv s" and P: "procs s pr = Some P" and h: "pr \<notin> held s"
    and fp: "page_seq s (tier_free fast) = xs @ [p]"
  obtains s1 s' where "dequeue_page (tier_free fast) (s\<lparr>held := insert pr (held s)\<rparr>) = Inr (p, s1)"
    "take_page fast pr p s1 = Inr (p, s')" "p \<noteq> NULL" "ucm_inv s'" "took fast pr P p s s'"
proof -
  let ?h = "s\<lparr>held := insert pr (held s)\<rparr>"
  have wf: "pl_wf s" using inv by (simp add: ucm_inv_def)
  have wfh: "pl_wf ?h" "page_seq ?h (tier_free fast) = xs @ [p]" using wf fp by simp_all
  obtain s1 where s1: "dequeue_page (tier_free fast) ?h = Inr (p, s1)" "pl_wf s1" "page_step ?h s1"
    "page_seq s1 = (page_seq ?h)(tier_free fast := xs)" "pg_list s1 = (pg_list ?h)(p := None)"
    "pages s1 = pages ?h"
    using wfh by (rule dequeue_step)
  have pl: "pg_list s p = Some (tier_free fast)"
    using fp by (simp add: pl_wf_mem [OF wf])
  have nn: "p \<noteq> NULL" using pl_wf_nonnull [OF wf, of "tier_free fast"] fp by auto
  have fr: "in_dram (pages s p) = fast" "\<not> present (pages s p)"
    using ucm_inv_list [OF inv pl] by (simp_all add: list_ok_free free_page_def)
  have pr1: "procs s1 = procs s" and h1: "held s1 = insert pr (held s)"
    using page_step_frame(1,7) [OF s1(3)] by simp_all
  let ?n = "pt_to_pagesize (pt (pages s p))"
  let ?u = "upd_page p (\<lambda>pg. pg\<lparr>present := True, pg_pid := pid P\<rparr>) s1"
  let ?v = "?u\<lparr>procs := (procs ?u)(pr \<mapsto> charge fast ?n P)\<rparr>"
  let ?s = "?v\<lparr>held := held s\<rparr>"
  have "take_page fast pr p s1 = Inr (p, ?s)"
    using fr P pr1 h1 h s1(6) by (cases fast) (simp_all add: take_page_def charge_def upd_page_def Let_def)
  moreover have "ucm_inv ?u"
    by (rule ucm_inv_unlink [OF inv pl]) (use s1 pr1 in simp_all)
  then have "ucm_inv ?v"
    by (rule ucm_inv_proc [where P = P]) (use P pr1 in simp_all)
  then have "ucm_inv ?s" by simp
  moreover have "took fast pr P p s ?s"
  proof -
    have "same_registry s ?s"
      using page_step_registry [OF s1(3)] by (simp add: same_registry_def upd_page_def)
    moreover have "pa_to_proc_map ?s = pa_to_proc_map s" "ucm_mem ?s = ucm_mem s" "stats ?s = stats s"
      using page_step_frame(2,4,6) [OF s1(3)] by (simp_all add: upd_page_def)
    ultimately show ?thesis
      using s1 pr1 fp by (simp add: took_def taken_page_def)
  qed
  ultimately show thesis
    using that s1(1) nn by blast
qed

section \<open>The two allocators\<close>

lemma free_list_cases:
  obtains "page_seq s q = []" | xs p where "page_seq s q = xs @ [p]"
  by (cases "page_seq s q" rule: rev_cases) auto

lemma allocate_fastmem_preferred_ok:
  assumes inv: "ucm_inv s" and P: "procs s pr = Some P" and h: "pr \<notin> held s"
  shows "allocate_fastmem_preferred pr s = Inr (NULL, s\<lparr>held := insert pr (held s)\<rparr>) \<and>
       (current_fastmem (mm P) < max_fastmem (mm P) \<longrightarrow> page_seq s Fastmem_Free = []) \<and>
       page_seq s Slowmem_Free = [] \<or>
     (\<exists>fast p s'. allocate_fastmem_preferred pr s = Inr (p, s') \<and> p \<noteq> NULL \<and> ucm_inv s' \<and>
       took fast pr P p s s' \<and>
       (fast \<longleftrightarrow> current_fastmem (mm P) < max_fastmem (mm P) \<and> page_seq s Fastmem_Free \<noteq> []))"
proof -
  let ?h = "s\<lparr>held := insert pr (held s)\<rparr>"
  have wf: "pl_wf ?h" using inv by (simp add: ucm_inv_def)
  define quota where "quota \<longleftrightarrow> current_fastmem (mm P) < max_fastmem (mm P)"
  have fe: "dequeue_page (tier_free f) ?h = Inr (NULL, ?h)" if "page_seq s (tier_free f) = []" for f
    using dequeue_page_empty [OF wf] that by simp
  show ?thesis
  proof (cases "quota \<and> page_seq s Fastmem_Free \<noteq> []")
    case True
    then obtain xs p where "page_seq s (tier_free True) = xs @ [p]"
      by (metis bin_fold(7) rev_exhaust)
    from take_page_ok [OF inv P h this] obtain s1 s' where
      "dequeue_page (tier_free True) ?h = Inr (p, s1)" "take_page True pr p s1 = Inr (p, s')"
      "p \<noteq> NULL" "ucm_inv s'" "took True pr P p s s'" .
    then show ?thesis
      using True h P unfolding allocate_fastmem_preferred_def get_free_page quota_def by auto
  next
    case False
    have first: "(if quota then dequeue_page (tier_free True) ?h else Inr (NULL, ?h)) = Inr (NULL, ?h)"
      using False fe [of True] by simp
    show ?thesis
    proof (cases "page_seq s Slowmem_Free = []")
      case True
      then have "allocate_fastmem_preferred pr s = Inr (NULL, ?h)"
        using first h P fe [of False] unfolding allocate_fastmem_preferred_def get_free_page quota_def
        by simp
      then show ?thesis
        using True False by (simp add: quota_def)
    next
      case ne: False
      then obtain xs p where "page_seq s (tier_free False) = xs @ [p]"
        by (metis bin_fold(8) rev_exhaust)
      from take_page_ok [OF inv P h this] obtain s1 s' where
        "dequeue_page (tier_free False) ?h = Inr (p, s1)" "take_page False pr p s1 = Inr (p, s')"
        "p \<noteq> NULL" "ucm_inv s'" "took False pr P p s s'" .
      then show ?thesis
        using first False h P unfolding allocate_fastmem_preferred_def get_free_page quota_def by auto
    qed
  qed
qed

lemma allocate_slowmem_preferred_ok:
  assumes inv: "ucm_inv s" and P: "procs s pr = Some P" and h: "pr \<notin> held s"
  shows "allocate_slowmem_preferred pr s = Inr (NULL, s\<lparr>held := insert pr (held s)\<rparr>) \<and>
       page_seq s Fastmem_Free = [] \<and> page_seq s Slowmem_Free = [] \<or>
     (\<exists>fast p s'. allocate_slowmem_preferred pr s = Inr (p, s') \<and> p \<noteq> NULL \<and> ucm_inv s' \<and>
       took fast pr P p s s' \<and> (fast \<longleftrightarrow> page_seq s Slowmem_Free = []))"
proof -
  let ?h = "s\<lparr>held := insert pr (held s)\<rparr>"
  have wf: "pl_wf ?h" using inv by (simp add: ucm_inv_def)
  have fe: "dequeue_page (tier_free f) ?h = Inr (NULL, ?h)" if "page_seq s (tier_free f) = []" for f
    using dequeue_page_empty [OF wf] that by simp
  show ?thesis
  proof (cases "page_seq s (tier_free False)" rule: rev_cases)
    case (snoc xs p)
    from take_page_ok [OF inv P h this] obtain s1 s' where
      "dequeue_page (tier_free False) ?h = Inr (p, s1)" "take_page False pr p s1 = Inr (p, s')"
      "p \<noteq> NULL" "ucm_inv s'" "took False pr P p s s'" .
    then show ?thesis
      using snoc h unfolding allocate_slowmem_preferred_def get_free_page by auto
  next
    case Nil
    show ?thesis
    proof (cases "page_seq s (tier_free True)" rule: rev_cases)
      case (snoc xs p)
      from take_page_ok [OF inv P h this] obtain s1 s' where
        "dequeue_page (tier_free True) ?h = Inr (p, s1)" "take_page True pr p s1 = Inr (p, s')"
        "p \<noteq> NULL" "ucm_inv s'" "took True pr P p s s'" .
      then show ?thesis
        using Nil fe [of False] h unfolding allocate_slowmem_preferred_def get_free_page by auto
    next
      case nil: Nil
      then show ?thesis
        using Nil fe [of False] fe [of True] h
        unfolding allocate_slowmem_preferred_def get_free_page by simp
    qed
  qed
qed

section \<open>The contract of an allocator\<close>

text \<open>
  What the callers rely on: either a page of one of the tiers has been taken for the
  process, or there is none and the allocator returns null with the lock of the process
  still held.
\<close>

definition alloc_spec :: "candidate_fn \<Rightarrow> bool" where
  "alloc_spec alloc \<longleftrightarrow> (\<forall>s pr P. ucm_inv s \<longrightarrow> procs s pr = Some P \<longrightarrow> pr \<notin> held s \<longrightarrow>
     alloc pr s = Inr (NULL, s\<lparr>held := insert pr (held s)\<rparr>) \<and> page_seq s Slowmem_Free = [] \<or>
     (\<exists>fast p s'. alloc pr s = Inr (p, s') \<and> p \<noteq> NULL \<and> ucm_inv s' \<and> took fast pr P p s s'))"

lemma alloc_spec_modes: "alloc_spec (get_alloc_fn_by_mode mode)"
  unfolding alloc_spec_def
proof (intro allI impI)
  fix s pr P
  assume a: "ucm_inv s" "procs s pr = Some P" "pr \<notin> held s"
  show "get_alloc_fn_by_mode mode pr s = Inr (NULL, s\<lparr>held := insert pr (held s)\<rparr>) \<and>
      page_seq s Slowmem_Free = [] \<or>
    (\<exists>fast p s'. get_alloc_fn_by_mode mode pr s = Inr (p, s') \<and> p \<noteq> NULL \<and> ucm_inv s' \<and>
      took fast pr P p s s')"
    using allocate_fastmem_preferred_ok [OF a] allocate_slowmem_preferred_ok [OF a]
    by (cases mode) auto
qed

end
