(* ===== verification/Hash_Tables.thy ===== *)
theory Hash_Tables
  imports Ucm_State
begin

text \<open>
  The hash tables behind the lookups of \<open>src/ucm/mm.c\<close>, \<open>src/ucm/proc-mgr.c\<close> and
  \<open>src/ucm/ds/pa-proc-map.c\<close>. A table is in order when no key and no element occurs twice
  and every element still has the key it was added with; then a lookup is the lookup of a
  finite map, and adding and deleting are its updates.
\<close>

definition tab_ok :: "(ptr \<Rightarrow> 'k) \<Rightarrow> 'k htab \<Rightarrow> bool" where
  "tab_ok key t \<longleftrightarrow> distinct (map fst t) \<and> distinct (map snd t) \<and>
     (\<forall>(k, e) \<in> set t. key e = k \<and> e \<noteq> NULL)"

abbreviation tab_elems :: "'k htab \<Rightarrow> ptr set" where
  "tab_elems t \<equiv> snd ` set t"

lemma tab_okD:
  "\<lbrakk>tab_ok key t; (k, e) \<in> set t\<rbrakk> \<Longrightarrow> key e = k"
  "\<lbrakk>tab_ok key t; (k, e) \<in> set t\<rbrakk> \<Longrightarrow> e \<noteq> NULL"
  "\<lbrakk>tab_ok key t; e \<in> tab_elems t\<rbrakk> \<Longrightarrow> (key e, e) \<in> set t"
  by (auto simp: tab_ok_def)

lemma tab_ok_Nil [simp]: "tab_ok key []"
  by (simp add: tab_ok_def)

lemma tab_ok_cong:
  "\<lbrakk>\<And>e. e \<in> tab_elems t \<Longrightarrow> key' e = key e\<rbrakk> \<Longrightarrow> tab_ok key' t = tab_ok key t"
  by (fastforce simp: tab_ok_def)

lemma HASH_FIND_map_of:
  assumes "tab_ok key t"
  shows "HASH_FIND key t k = (case map_of t k of None \<Rightarrow> NULL | Some e \<Rightarrow> e)"
  using assms
proof (induction t)
  case (Cons x t)
  then have "HASH_FIND key t k = (case map_of t k of None \<Rightarrow> NULL | Some e \<Rightarrow> e)"
    by (simp add: tab_ok_def)
  then show ?case
    using Cons.prems by (cases x) (auto simp: tab_ok_def)
qed simp

lemma HASH_FIND_eq:
  assumes "tab_ok key t" and "e \<noteq> NULL"
  shows "HASH_FIND key t k = e \<longleftrightarrow> (k, e) \<in> set t"
  using assms tab_okD(2) [OF assms(1)]
  by (fastforce simp: HASH_FIND_map_of tab_ok_def dest: map_of_SomeD split: option.splits)

lemma HASH_FIND_null:
  assumes "tab_ok key t"
  shows "HASH_FIND key t k = NULL \<longleftrightarrow> k \<notin> fst ` set t"
proof (cases "map_of t k")
  case None
  then show ?thesis
    using assms None map_of_eq_None_iff [of t k] by (simp add: HASH_FIND_map_of)
next
  case (Some e)
  then have "(k, e) \<in> set t" by (rule map_of_SomeD)
  then show ?thesis
    using assms Some tab_okD(2) [OF assms] by (force simp: HASH_FIND_map_of)
qed

lemma HASH_ADD_ok:
  assumes "tab_ok key t" and "e \<notin> tab_elems t" and "k \<notin> fst ` set t" and "key e = k" and "e \<noteq> NULL"
  shows "HASH_ADD k e t = Inr ((k, e) # t)" and "tab_ok key ((k, e) # t)"
  using assms by (auto simp: HASH_ADD_def tab_ok_def)

definition tab_del :: "ptr \<Rightarrow> 'k htab \<Rightarrow> 'k htab" where
  "tab_del e t = filter (\<lambda>(k, e'). e' \<noteq> e) t"

lemma HASH_DELETE_ok:
  assumes "tab_ok key t" and "e \<in> tab_elems t"
  shows "HASH_DELETE e t = Inr (tab_del e t)" and "tab_ok key (tab_del e t)"
    and "tab_elems (tab_del e t) = tab_elems t - {e}"
proof -
  show "HASH_DELETE e t = Inr (tab_del e t)"
    using assms(2) by (simp add: HASH_DELETE_def tab_del_def)
  show "tab_ok key (tab_del e t)"
    using assms(1) by (auto simp: tab_ok_def tab_del_def distinct_map_filter)
  show "tab_elems (tab_del e t) = tab_elems t - {e}"
    by (force simp: tab_del_def)
qed

text \<open>What the clients see: a lookup after an insertion and after a deletion.\<close>

lemma find_after_add:
  assumes "tab_ok key t" and "e \<notin> tab_elems t" and "key e \<notin> fst ` set t" and "e \<noteq> NULL"
  shows "HASH_ADD (key e) e t = Inr ((key e, e) # t)"
    and "HASH_FIND key ((key e, e) # t) k = (if k = key e then e else HASH_FIND key t k)"
  using assms HASH_ADD_ok [OF assms(1-3) refl assms(4)] by simp_all

lemma find_after_delete:
  assumes "tab_ok key t" and "e \<in> tab_elems t"
  shows "HASH_FIND key (tab_del e t) k = (if k = key e then NULL else HASH_FIND key t k)"
proof -
  note d = HASH_DELETE_ok(2) [OF assms]
  have mem: "(k', e') \<in> set (tab_del e t) \<longleftrightarrow> (k', e') \<in> set t \<and> e' \<noteq> e" for k' e'
    by (auto simp: tab_del_def)
  have un: "e' = e" if "(key e, e') \<in> set t" for e'
    using assms that tab_okD(3) [OF assms] by (auto simp: tab_ok_def dest: eq_key_imp_eq_value)
  show ?thesis
  proof (cases "k = key e")
    case True
    then have "k \<notin> fst ` set (tab_del e t)" using mem un by force
    then show ?thesis using True HASH_FIND_null [OF d] by simp
  next
    case False
    let ?f = "HASH_FIND key t k"
    show ?thesis
    proof (cases "?f = NULL")
      case True
      then have "k \<notin> fst ` set (tab_del e t)"
        using HASH_FIND_null [OF assms(1)] mem by force
      then show ?thesis using False True HASH_FIND_null [OF d] by simp
    next
      case nn: False
      then have "(k, ?f) \<in> set t" using HASH_FIND_eq [OF assms(1) nn] by blast
      moreover have "?f \<noteq> e"
        using False calculation tab_okD(1) [OF assms(1)] by auto
      ultimately show ?thesis
        using False HASH_FIND_eq [OF d nn] mem by simp
    qed
  qed
qed

end
