(* ===== verification/Ucm.thy ===== *)
theory Ucm
  imports Migration
begin

text \<open>
  The entry points of \<open>src/ucm/ucm.c\<close> that serve an application's requests, and the
  handlers of \<open>src/ucm/ipc/ipc.c\<close> that call them: allocation with its roll back when
  memory runs out, fixed mappings, deallocation, and the addition and removal of
  processes.

  The loops advance by the size of a page, at least 4 KiB, over a range of \<open>length\<close>
  bytes; their fuel is the number of such steps in the range plus two.
\<close>

section \<open>Allocation\<close>

definition page_resp :: "u64 \<Rightarrow> hemem_page \<Rightarrow> hemem_page_app" where
  "page_resp addr p = \<lparr>app_va = addr, app_devdax_offset = devdax_offset p,
     app_in_dram = in_dram p, app_pt = pt p\<rparr>"

definition range_fuel :: "u64 \<Rightarrow> nat" where
  "range_fuel len = unat (len div BASEPAGE_SIZE) + 2"

text \<open>The body of the loop for one page; \<open>None\<close> when the allocator has no page.\<close>

definition ucm_allocate_one :: "candidate_fn \<Rightarrow> ptr \<Rightarrow> u64 \<Rightarrow> ucm_state \<Rightarrow>
    (hemem_page_app option \<times> ucm_state) result" where
  "ucm_allocate_one alloc process page_boundary s =
     andThen (mm_find_page process page_boundary s) (\<lambda>f.
     assertC (f = NULL) (
     andThen (alloc process s) (\<lambda>(page, s).
     if page = NULL then Inr (None, s)
     else
       let offset = devdax_offset (pages s page); fast = in_dram (pages s page);
           pagesize = pt_to_pagesize (pt (pages s page));
           s = hemem_memset (devdax_offset_to_addr offset fast s) 0 pagesize s;
           s = s\<lparr>stats := (stats s)\<lparr>st_memsets := st_memsets (stats s) + 1\<rparr>\<rparr>
       in andThen (get_proc process s) (\<lambda>pr.
          let s = upd_page page (\<lambda>p. p\<lparr>va := page_boundary, pg_pid := pid pr,
                    pg_uffd := uffd pr\<rparr>) s
          in assertC (va (pages s page) \<noteq> 0) (
             assertC (va (pages s page) mod HUGEPAGE_SIZE = 0) (
             let s = upd_page page (\<lambda>p. p\<lparr>migrating := False, migrations_up := 0,
                       migrations_down := 0\<rparr>) s
             in andThen (mm_add_page process page s) (\<lambda>s.
                andThen (enqueue_page (if in_dram (pages s page) then fastmem_lists process COLD
                           else slowmem_lists process COLD) page s) (\<lambda>s.
                andThen (ucm_stats_record_page_allocated process pagesize s) (\<lambda>s.
                Inr (Some \<lparr>app_va = page_boundary, app_devdax_offset = offset,
                       app_in_dram = fast, app_pt = pt (pages s page)\<rparr>, s))))))))))"

fun rollback_pages :: "ptr \<Rightarrow> hemem_page_app list \<Rightarrow> ucm_state \<Rightarrow> ucm_state result" where
  "rollback_pages process [] s = Inr s"
| "rollback_pages process (p # ps) s =
     andThen (mm_find_page process (app_va p) s) (\<lambda>page.
     assertC (page \<noteq> NULL) (
     andThen (mm_remove_page process page s) (rollback_pages process ps)))"

fun ucm_allocate_loop :: "candidate_fn \<Rightarrow> nat \<Rightarrow> ptr \<Rightarrow> u64 \<Rightarrow> u64 \<Rightarrow> hemem_page_app list \<Rightarrow>
    ucm_state \<Rightarrow> (int \<times> hemem_page_app list \<times> ucm_state) result" where
  "ucm_allocate_loop alloc 0 process page_boundary range_end resps s = Inl Out_Of_Fuel"
| "ucm_allocate_loop alloc (Suc fuel) process page_boundary range_end resps s =
     (if \<not> page_boundary < range_end then Inr (int (length resps), resps, s)
      else andThen (ucm_allocate_one alloc process page_boundary s) (\<lambda>(r, s).
        case r of
          None \<Rightarrow> andThen (rollback_pages process resps s) (\<lambda>s. Inr (-1, resps, s))
        | Some resp \<Rightarrow>
            ucm_allocate_loop alloc fuel process (page_boundary + pt_to_pagesize (app_pt resp))
              range_end (resps @ [resp]) s))"

definition ucm_allocate_memory :: "candidate_fn \<Rightarrow> ptr \<Rightarrow> u64 \<Rightarrow> u64 \<Rightarrow> ucm_state \<Rightarrow>
    (int \<times> hemem_page_app list \<times> ucm_state) result" where
  "ucm_allocate_memory alloc process start_addr len s =
     ucm_allocate_loop alloc (range_fuel len) process start_addr (start_addr + len) [] s"

section \<open>Fixed mappings and deallocation\<close>

fun ucm_map_fixed_loop :: "nat \<Rightarrow> ptr \<Rightarrow> u64 \<Rightarrow> u64 \<Rightarrow> hemem_page_app list \<Rightarrow>
    ucm_state \<Rightarrow> (int \<times> hemem_page_app list \<times> ucm_state) result" where
  "ucm_map_fixed_loop 0 process page_boundary range_end resps s = Inl Out_Of_Fuel"
| "ucm_map_fixed_loop (Suc fuel) process page_boundary range_end resps s =
     (if \<not> page_boundary < range_end then Inr (int (length resps), resps, s)
      else andThen (mm_find_page process page_boundary s) (\<lambda>page.
        assertC (page \<noteq> NULL) (
        let pagesize = pt_to_pagesize (pt (pages s page));
            resp = page_resp page_boundary (pages s page);
            s = upd_page page (map_fixed_uffd_unmap_pending_update (\<lambda>_. True)) s
        in andThen (ucm_stats_record_page_allocated process pagesize s)
             (ucm_map_fixed_loop fuel process (page_boundary + pagesize) range_end
               (resps @ [resp])))))"

definition ucm_map_fixed :: "ptr \<Rightarrow> u64 \<Rightarrow> u64 \<Rightarrow> ucm_state \<Rightarrow>
    (int \<times> hemem_page_app list \<times> ucm_state) result" where
  "ucm_map_fixed process start_addr len s =
     ucm_map_fixed_loop (range_fuel len) process start_addr (start_addr + len) [] s"

fun ucm_deallocate_loop :: "nat \<Rightarrow> ptr \<Rightarrow> u64 \<Rightarrow> u64 \<Rightarrow> u64 \<Rightarrow> ucm_state \<Rightarrow> (u64 \<times> ucm_state) result" where
  "ucm_deallocate_loop 0 process page_boundary range_end n_freed s = Inl Out_Of_Fuel"
| "ucm_deallocate_loop (Suc fuel) process page_boundary range_end n_freed s =
     (if \<not> page_boundary < range_end then Inr (n_freed, s)
      else andThen (mm_find_page process page_boundary s) (\<lambda>page.
        if page \<noteq> NULL
        then let pagesize = pt_to_pagesize (pt (pages s page))
             in andThen (mm_remove_page process page s) (\<lambda>s.
                andThen (ucm_stats_record_page_freed process pagesize s)
                  (ucm_deallocate_loop fuel process (page_boundary + pagesize) range_end
                    (n_freed + 1)))
        else ucm_deallocate_loop fuel process (page_boundary + get_default_page_size)
               range_end n_freed s))"

definition ucm_deallocate_memory :: "ptr \<Rightarrow> u64 \<Rightarrow> u64 \<Rightarrow> ucm_state \<Rightarrow> (u64 \<times> ucm_state) result" where
  "ucm_deallocate_memory process start_addr len s =
     (let range_end = start_addr + len;
          page_boundary = start_addr AND NOT (HUGEPAGE_SIZE - 1)
      in ucm_deallocate_loop (range_fuel (range_end - page_boundary)) process page_boundary
           range_end 0 s)"

section \<open>Requests of the application\<close>

datatype status_code = SUCCESS | FAILED | INVALID_REQUEST | NO_SPACE

record alloc_response =
  al_status :: status_code
  al_num_pages :: u64
  al_pages :: "hemem_page_app list"

text \<open>
  A request carries the pid of its header. \<open>host_pid\<close> is what
  \<open>map_nspid_to_pid\<close> of \<open>src/ucm/support/container.c\<close> makes of the requested pid and its
  name space, negative when there is no such process; the other parameters are the memory
  the new process is built from.
\<close>

definition ipc_handle_add_process :: "config \<Rightarrow> int \<Rightarrow> double \<Rightarrow> bool \<Rightarrow> ptr \<Rightarrow> bool \<Rightarrow>
    ptr list option \<Rightarrow> ptr list option \<Rightarrow> ptr list option \<Rightarrow> ucm_state \<Rightarrow> (ptr \<times> ucm_state) result" where
  "ipc_handle_add_process cfg host_pid req_miss_ratio req_zero addr malloc_ok hot_buf cold_buf free_buf s =
     assertC (\<not> host_pid < 0) (
     let process = find_process host_pid s; found = (process \<noteq> NULL)
     in andThen (if found then Inr (process, s)
                 else andThen (hemem_process_init addr malloc_ok hot_buf cold_buf free_buf host_pid s)
                        (\<lambda>(p, s). assertC (p \<noteq> NULL) (Inr (p, s)))) (\<lambda>(process, s).
        let s = (if ordered_processes cfg
                 then s\<lparr>target_miss_ratio := (target_miss_ratio s)(process := req_miss_ratio)\<rparr>
                 else s)
        in andThen (upd_proc process (\<lambda>pr. pr\<lparr>zero_pages := req_zero,
                      mm := (mm pr)\<lparr>max_fastmem := get_fastmem_size s\<rparr>\<rparr>) s) (\<lambda>s.
           andThen (if \<not> found then add_process cfg process s else Inr s) (\<lambda>s.
           Inr (process, s)))))"

definition ipc_handle_remove_process :: "config \<Rightarrow> int \<Rightarrow> ucm_state \<Rightarrow> (status_code \<times> ucm_state) result" where
  "ipc_handle_remove_process cfg pd s =
     (let process = find_process pd s
      in andThen (if process \<noteq> NULL
                  then andThen (upd_proc process (exited_update (\<lambda>_. True)) s)
                         (ucm_remove_process cfg process)
                  else Inr s) (\<lambda>s. Inr (SUCCESS, s)))"

definition ipc_handle_alloc_space :: "candidate_fn \<Rightarrow> int \<Rightarrow> u64 \<Rightarrow> u64 \<Rightarrow> bool \<Rightarrow> ucm_state \<Rightarrow>
    (int \<times> alloc_response \<times> ucm_state) result" where
  "ipc_handle_alloc_space alloc pd addr len map_fixed s =
     (let process = find_process pd s
      in if process = NULL
         then Inr (-1, \<lparr>al_status = FAILED, al_num_pages = 0, al_pages = []\<rparr>, s)
         else andThen (if map_fixed then ucm_map_fixed process addr len s
                       else ucm_allocate_memory alloc process addr len s) (\<lambda>(num_pages, resps, s).
              let failed = num_pages < 0
              in Inr (0, \<lparr>al_status = (if failed then FAILED else SUCCESS),
                      al_num_pages = (if failed then 0 else word_of_int num_pages),
                      al_pages = resps\<rparr>, s)))"

definition ipc_handle_free_space :: "int \<Rightarrow> u64 \<Rightarrow> u64 \<Rightarrow> ucm_state \<Rightarrow> (int \<times> status_code \<times> ucm_state) result" where
  "ipc_handle_free_space pd addr len s =
     (let process = find_process pd s
      in if process = NULL then Inr (-1, FAILED, s)
         else andThen (ucm_deallocate_memory process addr len s) (\<lambda>(n, s). Inr (0, SUCCESS, s)))"

definition ipc_handle_get_process_remap_fd :: "int \<Rightarrow> int \<Rightarrow> ucm_state \<Rightarrow> (int \<times> status_code \<times> ucm_state) result" where
  "ipc_handle_get_process_remap_fd fd pd s =
     (let process = find_process pd s
      in if process = NULL then Inr (-1, FAILED, s)
         else andThen (upd_proc process (remap_fd_update (\<lambda>_. fd)) s) (\<lambda>s. Inr (0, SUCCESS, s)))"

end
