(* ===== verification/Sys_Inv.thy ===== *)
theory Sys_Inv
  imports Alloc_Correct Hash_Tables Ucm
begin

text \<open>
  The invariant of the whole manager between two operations: besides the invariant of the
  lists, the page tables of every process hold exactly the pages on its level lists that
  are not waiting to be freed, the free ring holds those that are, the table of slow-tier
  addresses agrees with them, hot and cold requests are for pages of the process, and no
  two pages share a frame of memory.
\<close>

section \<open>Owners and frames\<close>

text \<open>The process on whose level lists a page is.\<close>

definition owner :: "ucm_state \<Rightarrow> ptr \<Rightarrow> ptr option" where
  "owner s p = (case pg_list s p of
     Some (Fastmem_Bin pr i) \<Rightarrow> Some pr
   | Some (Slowmem_Bin pr i) \<Rightarrow> Some pr
   | _ \<Rightarrow> None)"

lemma bin_not_free [simp]:
  "bin f p i \<noteq> Fastmem_Free" "Fastmem_Free \<noteq> bin f p i"
  "bin f p i \<noteq> Slowmem_Free" "Slowmem_Free \<noteq> bin f p i"
  by (simp_all add: bin_def)

lemma owner_simps [simp]:
  "pg_list s p = Some (bin f pr i) \<Longrightarrow> owner s p = Some pr"
  "pg_list s p = Some (tier_free f) \<Longrightarrow> owner s p = None"
  "pg_list s p = None \<Longrightarrow> owner s p = None"
  by (simp_all add: owner_def bin_def tier_free_def)

lemma owner_eq: "owner s p = Some pr \<longleftrightarrow> (\<exists>f i. pg_list s p = Some (bin f pr i))"
proof -
  have "\<exists>f i. q = bin f pr i" if "q = Fastmem_Bin pr i \<or> q = Slowmem_Bin pr i" for q i
    using that by (metis bin_fold(5,6))
  then show ?thesis
    by (fastforce simp: owner_def bin_def split: option.splits list_id.splits if_splits)
qed

lemma owner_tier:
  assumes "ucm_inv s" and "owner s p = Some pr"
  obtains i where "pg_list s p = Some (bin (in_dram (pages s p)) pr i)"
proof -
  obtain f i where fi: "pg_list s p = Some (bin f pr i)"
    using assms(2) by (auto simp: owner_eq)
  with assms(1) have "in_dram (pages s p) = f" by (rule ucm_inv_bin)
  then show thesis using that fi by simp
qed

text \<open>What the tables read of a page.\<close>

definition page_id :: "hemem_page \<Rightarrow> u64 \<times> u64 \<times> bool \<times> bool \<times> pagetypes \<times> pa_proc_map_entry \<times> bool" where
  "page_id pg = (va pg, devdax_offset pg, in_dram pg, in_free_ring pg, pt pg, pa_proc_entry pg, remap_lock pg)"

lemma page_id_eq:
  "page_id a = page_id b \<longleftrightarrow> va a = va b \<and> devdax_offset a = devdax_offset b \<and>
     in_dram a = in_dram b \<and> in_free_ring a = in_free_ring b \<and> pt a = pt b \<and>
     pa_proc_entry a = pa_proc_entry b \<and> remap_lock a = remap_lock b"
  by (simp add: page_id_def)

definition tier_size :: "ucm_state \<Rightarrow> bool \<Rightarrow> u64" where
  "tier_size s fast = (if fast then fastmem_sz s else slowmem_sz s)"

definition frame_ok :: "ucm_state \<Rightarrow> hemem_page \<Rightarrow> bool" where
  "frame_ok s pg \<longleftrightarrow> pt pg = HUGEP \<and> unat (devdax_offset pg) mod 2 ^ 21 = 0 \<and>
     unat (devdax_offset pg) + 2 ^ 21 \<le> unat (tier_size s (in_dram pg))"

definition frames_ok :: "ucm_state \<Rightarrow> bool" where
  "frames_ok s \<longleftrightarrow> (\<forall>p. pg_list s p \<noteq> None \<longrightarrow> frame_ok s (pages s p)) \<and>
     (\<forall>p q. pg_list s p \<noteq> None \<longrightarrow> pg_list s q \<noteq> None \<longrightarrow> in_dram (pages s p) = in_dram (pages s q) \<longrightarrow>
        devdax_offset (pages s p) = devdax_offset (pages s q) \<longrightarrow> p = q)"

section \<open>Tables and rings\<close>

definition mapped :: "ucm_state \<Rightarrow> ptr \<Rightarrow> ptr set" where
  "mapped s pr = {p. owner s p = Some pr \<and> \<not> in_free_ring (pages s p)}"

definition slow_mapped :: "ucm_state \<Rightarrow> ptr \<Rightarrow> ptr set" where
  "slow_mapped s pr = {p \<in> mapped s pr. \<not> in_dram (pages s p)}"

definition tables_ok :: "ucm_state \<Rightarrow> ptr \<Rightarrow> process_mem \<Rightarrow> bool" where
  "tables_ok s pr m \<longleftrightarrow>
     tab_ok (va_key s) (pages_table m) \<and> tab_elems (pages_table m) = mapped s pr \<and>
     tab_ok (offset_key s) (cxl_offset_to_page m) \<and>
     tab_elems (cxl_offset_to_page m) = slow_mapped s pr"

definition free_reqs_ok :: "ucm_state \<Rightarrow> ptr \<Rightarrow> process_mem \<Rightarrow> bool" where
  "free_reqs_ok s pr m \<longleftrightarrow> ring_wf (free_page_ring m) \<and> distinct (ring_list (free_page_ring m)) \<and>
     set (ring_list (free_page_ring m)) = {p. owner s p = Some pr \<and> in_free_ring (pages s p)}"

definition level_reqs_ok :: "ucm_state \<Rightarrow> ptr \<Rightarrow> process_mem \<Rightarrow> bool" where
  "level_reqs_ok s pr m \<longleftrightarrow> ring_wf (hot_ring m) \<and> ring_wf (cold_ring m) \<and>
     (\<forall>p \<in> set (ring_list (hot_ring m)) \<union> set (ring_list (cold_ring m)). owner s p = Some pr)"

definition clocks_all_ok :: "ucm_state \<Rightarrow> ptr \<Rightarrow> hemem_process \<Rightarrow> bool" where
  "clocks_all_ok s pr P \<longleftrightarrow> (\<forall>p. owner s p = Some pr \<longrightarrow> clocks_ok P (pages s p))"

definition proc_ok :: "ucm_state \<Rightarrow> ptr \<Rightarrow> hemem_process \<Rightarrow> bool" where
  "proc_ok s pr P \<longleftrightarrow> tables_ok s pr (mm P) \<and> free_reqs_ok s pr (mm P) \<and>
     level_reqs_ok s pr (mm P) \<and> clocks_all_ok s pr P"

definition pa_map_ok :: "ucm_state \<Rightarrow> bool" where
  "pa_map_ok s \<longleftrightarrow> tab_ok (pa_key s) (pa_to_proc_map s) \<and>
     (\<forall>p. p \<in> tab_elems (pa_to_proc_map s) \<longleftrightarrow> (\<exists>pr. p \<in> slow_mapped s pr)) \<and>
     (\<forall>p. ppe_used (pa_proc_entry (pages s p)) \<longleftrightarrow> p \<in> tab_elems (pa_to_proc_map s)) \<and>
     (\<forall>p pr. p \<in> slow_mapped s pr \<longrightarrow> pa_proc_entry (pages s p) =
        \<lparr>ppe_pa = devdax_offset (pages s p), ppe_proc = pr, ppe_used = True\<rparr>)"

definition registry_ok :: "ucm_state \<Rightarrow> bool" where
  "registry_ok s \<longleftrightarrow> pr_wf s \<and> set (proc_seq s) = dom (procs s) \<and>
     tab_ok (pid_key s) (proc_map s) \<and> tab_elems (proc_map s) = dom (procs s)"

text \<open>Between two operations no page is being remapped, and pages have aligned addresses.\<close>

definition pages_idle :: "ucm_state \<Rightarrow> bool" where
  "pages_idle s \<longleftrightarrow> (\<forall>p. \<not> remap_lock (pages s p)) \<and>
     (\<forall>p. owner s p \<noteq> None \<longrightarrow> va (pages s p) mod HUGEPAGE_SIZE = 0)"

text \<open>The tiers are mapped at aligned addresses and do not overlap.\<close>

definition tiers_ok :: "ucm_state \<Rightarrow> bool" where
  "tiers_ok s \<longleftrightarrow> fastmem_ptr s mod HUGEPAGE_SIZE = 0 \<and> slowmem_ptr s mod HUGEPAGE_SIZE = 0 \<and>
     unat (fastmem_ptr s) + unat (fastmem_sz s) < 2 ^ 64 \<and>
     unat (slowmem_ptr s) + unat (slowmem_sz s) < 2 ^ 64 \<and>
     (unat (fastmem_ptr s) + unat (fastmem_sz s) \<le> unat (slowmem_ptr s) \<or>
      unat (slowmem_ptr s) + unat (slowmem_sz s) \<le> unat (fastmem_ptr s))"

definition sys_ok :: "ucm_state \<Rightarrow> bool" where
  "sys_ok s \<longleftrightarrow> ucm_inv s \<and> frames_ok s \<and> pa_map_ok s \<and> procs s NULL = None \<and>
     pages_idle s \<and> tiers_ok s \<and> (\<forall>p. owner s p = None \<longrightarrow> \<not> in_free_ring (pages s p)) \<and>
     (\<forall>pr P. procs s pr = Some P \<longrightarrow> proc_ok s pr P)"

definition sys_inv :: "ucm_state \<Rightarrow> bool" where
  "sys_inv s \<longleftrightarrow> sys_ok s \<and> registry_ok s \<and> held s = {}"

lemma sys_okD:
  assumes "sys_ok s"
  shows "ucm_inv s" and "frames_ok s" and "pa_map_ok s" and "procs s NULL = None"
    and "owner s p = None \<Longrightarrow> \<not> in_free_ring (pages s p)"
    and "procs s pr = Some P \<Longrightarrow> proc_ok s pr P"
  using assms by (simp_all add: sys_ok_def)

text \<open>The invariant does not read the locks, the counters and the contents of the memory.\<close>

lemma sys_ok_cong:
  assumes l: "pg_next s' = pg_next s" "pg_prev s' = pg_prev s" "pg_list s' = pg_list s" "plists s' = plists s"
    and p: "pages s' = pages s" "procs s' = procs s" "pa_to_proc_map s' = pa_to_proc_map s"
    and z: "fastmem_sz s' = fastmem_sz s" "slowmem_sz s' = slowmem_sz s"
      "fastmem_ptr s' = fastmem_ptr s" "slowmem_ptr s' = slowmem_ptr s"
  shows "sys_ok s' = sys_ok s"
proof -
  have ow: "owner s' = owner s" by (simp add: owner_def fun_eq_iff l)
  then have mp: "mapped s' = mapped s" "slow_mapped s' = slow_mapped s"
    by (simp_all add: mapped_def slow_mapped_def fun_eq_iff p)
  have key: "pa_key s' = pa_key s"
    by (simp add: fun_eq_iff pa_key_def p)
  have "ucm_inv s' = ucm_inv s" by (rule ucm_inv_cong) (simp_all add: l p)
  moreover have "frames_ok s' = frames_ok s"
    by (simp add: frames_ok_def frame_ok_def tier_size_def l p z)
  moreover have "pa_map_ok s' = pa_map_ok s" by (simp add: pa_map_ok_def key mp p)
  moreover have "pages_idle s' = pages_idle s" "tiers_ok s' = tiers_ok s"
    by (simp_all add: pages_idle_def tiers_ok_def p ow z)
  moreover have "proc_ok s' = proc_ok s"
    by (simp add: proc_ok_def tables_ok_def free_reqs_ok_def level_reqs_ok_def clocks_all_ok_def
        fun_eq_iff mp p ow)
  ultimately show ?thesis by (simp add: sys_ok_def ow p)
qed

lemma sys_ok_frame [simp]:
  "sys_ok (s\<lparr>held := h\<rparr>) = sys_ok s"
  "sys_ok (s\<lparr>stats := st\<rparr>) = sys_ok s"
  "sys_ok (s\<lparr>ucm_mem := m\<rparr>) = sys_ok s"
  "sys_ok (s\<lparr>free_ring_requests := n\<rparr>) = sys_ok s"
  by (rule sys_ok_cong; simp)+

lemma mem_frame [simp]:
  "pl_wf (s\<lparr>stats := st\<rparr>) = pl_wf (s :: ucm_state)"
  "pl_wf (s\<lparr>ucm_mem := m\<rparr>) = pl_wf s"
  "pl_wf (s\<lparr>pa_to_proc_map := tab\<rparr>) = pl_wf s"
  "page_seq (s\<lparr>stats := st\<rparr>) = page_seq s"
  "page_seq (s\<lparr>ucm_mem := m\<rparr>) = page_seq s"
  "page_seq (s\<lparr>pa_to_proc_map := tab\<rparr>) = page_seq s"
  "ucm_inv (s\<lparr>stats := st\<rparr>) = ucm_inv s"
  "ucm_inv (s\<lparr>ucm_mem := m\<rparr>) = ucm_inv s"
  "ucm_inv (s\<lparr>pa_to_proc_map := tab\<rparr>) = ucm_inv s"
  by (rule page_parts_cong ucm_inv_cong; simp)+

text \<open>A page is owned by a process that exists.\<close>

lemma owner_proc:
  assumes "ucm_inv s" and "owner s p = Some pr"
  obtains P where "procs s pr = Some P" "pg_pid (pages s p) = pid P" "present (pages s p)" "p \<noteq> NULL"
    "va (pages s p) \<noteq> 0"
proof -
  obtain f i where "pg_list s p = Some (bin f pr i)"
    using assms(2) by (auto simp: owner_eq)
  with assms(1) show thesis
    by (rule ucm_inv_bin) (use that in auto)
qed

lemma mapped_proc: "\<lbrakk>ucm_inv s; p \<in> mapped s pr\<rbrakk> \<Longrightarrow> \<exists>P. procs s pr = Some P"
  by (rule owner_proc [of s p pr]) (auto simp: mapped_def)

section \<open>Operations that keep owners and identities\<close>

text \<open>
  Serving requests, cooling and marking pages change levels, rings of requests and
  counters, but neither the owner of a page nor anything the tables read.
\<close>

definition same_owners :: "ucm_state \<Rightarrow> ucm_state \<Rightarrow> bool" where
  "same_owners s s' \<longleftrightarrow> owner s' = owner s \<and> (\<forall>p. page_id (pages s' p) = page_id (pages s p)) \<and>
     (\<forall>p. (pg_list s' p = None) = (pg_list s p = None)) \<and>
     pa_to_proc_map s' = pa_to_proc_map s \<and> dom (procs s') = dom (procs s) \<and>
     fastmem_sz s' = fastmem_sz s \<and> slowmem_sz s' = slowmem_sz s"

lemma same_owners_mapped:
  assumes "same_owners s s'"
  shows "mapped s' pr = mapped s pr" and "slow_mapped s' pr = slow_mapped s pr"
  using assms by (auto simp: same_owners_def mapped_def slow_mapped_def page_id_eq)

lemma same_owners_keys:
  assumes "same_owners s s'"
  shows "va_key s' = va_key s" and "offset_key s' = offset_key s" and "pa_key s' = pa_key s"
  using assms by (auto simp: same_owners_def page_id_eq pa_key_def fun_eq_iff)

lemma frames_ok_cong:
  assumes f: "frames_ok s" and l: "\<And>p. (pg_list s' p = None) = (pg_list s p = None)"
    and p: "\<And>p. devdax_offset (pages s' p) = devdax_offset (pages s p)"
      "\<And>p. in_dram (pages s' p) = in_dram (pages s p)" "\<And>p. pt (pages s' p) = pt (pages s p)"
    and z: "fastmem_sz s' = fastmem_sz s" "slowmem_sz s' = slowmem_sz s"
  shows "frames_ok s'"
proof -
  have "frame_ok s' (pages s' p) = frame_ok s (pages s p)" for p
    by (simp add: frame_ok_def p z tier_size_def)
  then show ?thesis
    using f l by (simp add: frames_ok_def p)
qed

lemma same_owners_frames: "\<lbrakk>same_owners s s'; frames_ok s\<rbrakk> \<Longrightarrow> frames_ok s'"
  by (rule frames_ok_cong) (simp_all add: same_owners_def page_id_eq)

lemma same_owners_pa_map: "\<lbrakk>same_owners s s'; pa_map_ok s\<rbrakk> \<Longrightarrow> pa_map_ok s'"
  using same_owners_keys(3) [of s s'] same_owners_mapped(2) [of s s']
  by (simp add: pa_map_ok_def same_owners_def page_id_eq)

lemma same_owners_tables: "same_owners s s' \<Longrightarrow> tables_ok s' pr m = tables_ok s pr m"
  using same_owners_keys [of s s'] same_owners_mapped [of s s'] by (simp add: tables_ok_def)

lemma same_owners_reqs:
  "same_owners s s' \<Longrightarrow> free_reqs_ok s' pr m = free_reqs_ok s pr m"
  "same_owners s s' \<Longrightarrow> level_reqs_ok s' pr m = level_reqs_ok s pr m"
  by (simp_all add: same_owners_def free_reqs_ok_def level_reqs_ok_def page_id_eq)

lemma proc_parts_mm:
  "\<lbrakk>pages_table m' = pages_table m; cxl_offset_to_page m' = cxl_offset_to_page m\<rbrakk> \<Longrightarrow>
     tables_ok s pr m' = tables_ok s pr m"
  "free_page_ring m' = free_page_ring m \<Longrightarrow> free_reqs_ok s pr m' = free_reqs_ok s pr m"
  "\<lbrakk>hot_ring m' = hot_ring m; cold_ring m' = cold_ring m\<rbrakk> \<Longrightarrow>
     level_reqs_ok s pr m' = level_reqs_ok s pr m"
  by (simp_all add: tables_ok_def free_reqs_ok_def level_reqs_ok_def)

lemma pid_key_cong:
  assumes "\<And>pr. map_option pid (procs s' pr) = map_option pid (procs s pr)"
  shows "pid_key s' = pid_key s"
proof
  fix p show "pid_key s' p = pid_key s p"
    using assms [of p] by (auto simp: pid_key_def split: option.splits)
qed

lemma registry_ok_cong:
  assumes r: "same_registry s s'" and p: "\<And>pr. map_option pid (procs s' pr) = map_option pid (procs s pr)"
    and ok: "registry_ok s"
  shows "registry_ok s'"
proof -
  have "procs s' x = None \<longleftrightarrow> procs s x = None" for x
    using p [of x] by (metis map_option_is_None)
  then have "dom (procs s') = dom (procs s)" by (auto simp: dom_def)
  moreover have "proc_map s' = proc_map s" using r by (simp add: same_registry_def)
  ultimately show ?thesis
    using ok same_registry_seq [OF r] pid_key_cong [OF p] by (simp add: registry_ok_def)
qed

text \<open>
  An operation for one process: the pages of the other processes keep their owner and their
  contents, and what the invariant says of the process itself holds again.
\<close>

definition others_kept :: "ptr \<Rightarrow> ucm_state \<Rightarrow> ucm_state \<Rightarrow> bool" where
  "others_kept pr s s' \<longleftrightarrow> (\<forall>p c. c \<noteq> pr \<longrightarrow>
     (owner s' p = Some c \<longleftrightarrow> owner s p = Some c) \<and> (owner s p = Some c \<longrightarrow> pages s' p = pages s p))"

lemma others_kept_mapped:
  assumes "others_kept pr s s'" and "c \<noteq> pr"
  shows "mapped s' c = mapped s c" and "slow_mapped s' c = slow_mapped s c"
proof -
  have "owner s' p = Some c \<and> \<not> in_free_ring (pages s' p) \<longleftrightarrow>
      owner s p = Some c \<and> \<not> in_free_ring (pages s p)" for p
    using assms by (metis others_kept_def)
  then show m: "mapped s' c = mapped s c" by (simp add: mapped_def)
  have "in_dram (pages s' p) = in_dram (pages s p)" if "p \<in> mapped s c" for p
    using assms that by (simp add: others_kept_def mapped_def)
  then show "slow_mapped s' c = slow_mapped s c"
    using m by (auto simp: slow_mapped_def)
qed

lemma others_kept_proc:
  assumes k: "others_kept pr s s'" and c: "c \<noteq> pr" and ok: "proc_ok s c C"
  shows "proc_ok s' c C"
proof -
  have pg: "pages s' p = pages s p" if "owner s p = Some c" for p
    using k c that by (simp add: others_kept_def)
  have ow: "owner s' p = Some c \<longleftrightarrow> owner s p = Some c" for p
    using k c by (simp add: others_kept_def)
  note m = others_kept_mapped [OF k c]
  have e: "tab_elems (pages_table (mm C)) = mapped s c" "tab_elems (cxl_offset_to_page (mm C)) = slow_mapped s c"
    using ok by (simp_all add: proc_ok_def tables_ok_def)
  have "va_key s' p = va_key s p" if "p \<in> tab_elems (pages_table (mm C))" for p
    using that pg unfolding e by (simp add: mapped_def)
  then have 1: "tab_ok (va_key s') (pages_table (mm C)) = tab_ok (va_key s) (pages_table (mm C))"
    by (rule tab_ok_cong)
  have "offset_key s' p = offset_key s p" if "p \<in> tab_elems (cxl_offset_to_page (mm C))" for p
    using that pg unfolding e by (simp add: mapped_def slow_mapped_def)
  then have 2: "tab_ok (offset_key s') (cxl_offset_to_page (mm C)) = tab_ok (offset_key s) (cxl_offset_to_page (mm C))"
    by (rule tab_ok_cong)
  have "{p. owner s' p = Some c \<and> in_free_ring (pages s' p)} = {p. owner s p = Some c \<and> in_free_ring (pages s p)}"
    using ow pg by auto
  then show ?thesis
    using ok 1 2 m ow pg
    by (simp add: proc_ok_def tables_ok_def free_reqs_ok_def level_reqs_ok_def clocks_all_ok_def)
qed

lemma sys_ok_local:
  assumes inv: "sys_ok s" and u: "ucm_inv s'" and fr: "frames_ok s'" and pa: "pa_map_ok s'"
    and i: "pages_idle s'"
    and r: "same_registry s s'"
    and P: "procs s pr = Some P" "procs s' = (procs s)(pr \<mapsto> P')" "pid P' = pid P"
    and ok: "proc_ok s' pr P'" and k: "others_kept pr s s'"
    and f: "\<And>p. owner s' p = None \<Longrightarrow> \<not> in_free_ring (pages s' p)"
  shows "sys_ok s'"
proof -
  have "proc_ok s' c C" if "procs s' c = Some C" for c C
    using that P ok inv others_kept_proc [OF k, of c C]
    by (cases "c = pr") (auto simp: sys_ok_def)
  then show ?thesis
    using inv u fr pa i f r P(1,2) by (auto simp: sys_ok_def tiers_ok_def same_registry_def)
qed

text \<open>What such an operation may do to a process.\<close>

definition proc_keeps :: "ucm_state \<Rightarrow> ptr \<Rightarrow> hemem_process \<Rightarrow> hemem_process \<Rightarrow> bool" where
  "proc_keeps s' pr P P' \<longleftrightarrow> pid P' = pid P \<and> pages_table (mm P') = pages_table (mm P) \<and>
     cxl_offset_to_page (mm P') = cxl_offset_to_page (mm P) \<and>
     free_page_ring (mm P') = free_page_ring (mm P) \<and>
     level_reqs_ok s' pr (mm P') \<and> clocks_all_ok s' pr P'"

lemma sys_ok_same_owners:
  assumes inv: "sys_ok s" and u: "ucm_inv s'" and so: "same_owners s s'" and r: "same_registry s s'"
    and P: "procs s pr = Some P" "procs s' = (procs s)(pr \<mapsto> P')"
    and k: "proc_keeps s' pr P P'" and o: "\<And>p c. c \<noteq> pr \<Longrightarrow> owner s p = Some c \<Longrightarrow> pages s' p = pages s p"
  shows "sys_ok s'"
proof (rule sys_ok_local [OF inv u _ _ _ r P])
  show "frames_ok s'" "pa_map_ok s'"
    using inv same_owners_frames [OF so] same_owners_pa_map [OF so] by (simp_all add: sys_ok_def)
  show "pages_idle s'"
    using inv so by (simp add: sys_ok_def pages_idle_def same_owners_def page_id_eq)
  have "proc_ok s pr P" using inv P(1) by (simp add: sys_ok_def)
  then show "proc_ok s' pr P'"
    using k proc_parts_mm(1,2) [of "mm P'" "mm P"]
    by (simp add: proc_ok_def proc_keeps_def same_owners_tables [OF so] same_owners_reqs [OF so])
  show "pid P' = pid P" using k by (simp add: proc_keeps_def)
  show "others_kept pr s s'" using so o by (auto simp: others_kept_def same_owners_def)
  show "\<not> in_free_ring (pages s' p)" if "owner s' p = None" for p
    using that so inv by (simp add: same_owners_def page_id_eq sys_ok_def)
qed

text \<open>The invariant reads of a process its pid, clocks, bookmarks, tables and rings.\<close>

definition proc_same :: "hemem_process \<Rightarrow> hemem_process \<Rightarrow> bool" where
  "proc_same P P' \<longleftrightarrow> pid P' = pid P \<and> process_clock P' = process_clock P \<and>
     (\<forall>f. cur_cool f (mm P') = cur_cool f (mm P)) \<and> pages_table (mm P') = pages_table (mm P) \<and>
     cxl_offset_to_page (mm P') = cxl_offset_to_page (mm P) \<and>
     free_page_ring (mm P') = free_page_ring (mm P) \<and> hot_ring (mm P') = hot_ring (mm P) \<and>
     cold_ring (mm P') = cold_ring (mm P)"

lemma sys_ok_proc_same:
  assumes inv: "sys_ok s" and P: "procs s pr = Some P" and k: "proc_same P P'"
  shows "sys_ok (s\<lparr>procs := (procs s)(pr \<mapsto> P')\<rparr>)" (is "sys_ok ?s")
proof (rule sys_ok_same_owners [OF inv _ _ _ P, where s' = ?s])
  have ok: "proc_ok s pr P" and u: "ucm_inv s" using inv P by (simp_all add: sys_ok_def)
  show "ucm_inv ?s"
    by (rule ucm_inv_proc [OF u P]) (use k in \<open>simp_all add: proc_same_def\<close>)
  show so: "same_owners s ?s" using P by (auto simp: same_owners_def owner_def)
  have "level_reqs_ok ?s pr (mm P')"
    using ok k proc_parts_mm(3) [of "mm P'" "mm P"]
    by (simp add: same_owners_reqs(2) [OF so] proc_ok_def proc_same_def)
  moreover have "clocks_all_ok ?s pr P'"
    using ok so k by (simp add: proc_ok_def clocks_all_ok_def clocks_ok_def same_owners_def proc_same_def)
  ultimately show "proc_keeps ?s pr P P'" using k by (simp add: proc_keeps_def proc_same_def)
qed (simp_all add: same_registry_def)

section \<open>What operations keep\<close>

lemma registry_tiers:
  assumes "same_registry s s'"
  shows "tier_size s' = tier_size s" and "tiers_ok s' = tiers_ok s" and "scan_epoch s' = scan_epoch s"
    and "devdax_offset_to_addr off f s' = devdax_offset_to_addr off f s"
  using assms by (simp_all add: same_registry_def tier_size_def tiers_ok_def devdax_offset_to_addr_def fun_eq_iff)

text \<open>The bytes of a page, wherever its frame is.\<close>

definition page_data :: "ucm_state \<Rightarrow> ptr \<Rightarrow> u64 \<Rightarrow> 8 word" where
  "page_data s p k = ucm_mem s (devdax_offset_to_addr (devdax_offset (pages s p)) (in_dram (pages s p)) s + k)"

definition same_data :: "ucm_state \<Rightarrow> ucm_state \<Rightarrow> bool" where
  "same_data s s' \<longleftrightarrow> (\<forall>p k. owner s p \<noteq> None \<longrightarrow> k < HUGEPAGE_SIZE \<longrightarrow> page_data s' p k = page_data s p k)"

text \<open>Different frames do not overlap.\<close>

definition frame_at :: "ucm_state \<Rightarrow> bool \<Rightarrow> u64 \<Rightarrow> bool" where
  "frame_at s fast off \<longleftrightarrow> unat off mod 2 ^ 21 = 0 \<and> unat off + 2 ^ 21 \<le> unat (tier_size s fast)"

lemma frame_span:
  assumes t: "tiers_ok s" and f: "frame_at s c x"
  shows "unat (devdax_offset_to_addr x c s) = unat (devdax_offset_to_addr 0 c s) + unat x"
    and "unat (devdax_offset_to_addr x c s) + 2 ^ 21 \<le> unat (devdax_offset_to_addr 0 c s) + unat (tier_size s c)"
    and "unat (devdax_offset_to_addr 0 c s) + unat (tier_size s c) < 2 ^ 64"
proof -
  have le: "unat x + 2 ^ 21 \<le> unat (tier_size s c)" using f by (simp add: frame_at_def)
  show top: "unat (devdax_offset_to_addr 0 c s) + unat (tier_size s c) < 2 ^ 64"
    using t by (simp add: tiers_ok_def devdax_offset_to_addr_def tier_size_def)
  have "devdax_offset_to_addr x c s = devdax_offset_to_addr 0 c s + x"
    by (simp add: devdax_offset_to_addr_def)
  then show "unat (devdax_offset_to_addr x c s) = unat (devdax_offset_to_addr 0 c s) + unat x"
    using le top by (simp add: unat_word_ariths)
  then show "unat (devdax_offset_to_addr x c s) + 2 ^ 21 \<le> unat (devdax_offset_to_addr 0 c s) + unat (tier_size s c)"
    using le by simp
qed

lemma aligned_apart:
  assumes "(m :: nat) mod d = 0" and "n mod d = 0" and "m < n"
  shows "m + d \<le> n"
proof -
  obtain i j where "m = d * i" "n = d * j" using assms(1,2) by (auto simp: mod_eq_0_iff_dvd elim!: dvdE)
  moreover from this assms(3) have "Suc i \<le> j" by simp
  ultimately show ?thesis by (metis add.commute mult_Suc_right mult_le_mono2)
qed

lemma frames_disjoint:
  assumes t: "tiers_ok s" and f: "frame_at s a x" "frame_at s b y" and ne: "a \<noteq> b \<or> x \<noteq> y"
  shows "unat (devdax_offset_to_addr x a s) + 2 ^ 21 \<le> unat (devdax_offset_to_addr y b s) \<or>
    unat (devdax_offset_to_addr y b s) + 2 ^ 21 \<le> unat (devdax_offset_to_addr x a s)"
proof (cases "a = b")
  case True
  then have "unat x \<noteq> unat y" using ne by (simp add: word_unat_eq_iff)
  then have "unat x + 2 ^ 21 \<le> unat y \<or> unat y + 2 ^ 21 \<le> unat x"
    using f aligned_apart [of "unat x" "2 ^ 21" "unat y"] aligned_apart [of "unat y" "2 ^ 21" "unat x"]
    unfolding frame_at_def by linarith
  then show ?thesis using True frame_span(1) [OF t f(1)] frame_span(1) [OF t f(2)] by auto
next
  case False
  have "unat (devdax_offset_to_addr 0 a s) + unat (tier_size s a) \<le> unat (devdax_offset_to_addr 0 b s) \<or>
      unat (devdax_offset_to_addr 0 b s) + unat (tier_size s b) \<le> unat (devdax_offset_to_addr 0 a s)"
    using t False by (cases a; cases b) (auto simp: tiers_ok_def devdax_offset_to_addr_def tier_size_def)
  then show ?thesis using frame_span [OF t f(1)] frame_span [OF t f(2)] by linarith
qed

lemma frame_apart:
  assumes t: "tiers_ok s" and f: "frame_at s a x" "frame_at s b y" and ne: "a \<noteq> b \<or> x \<noteq> y"
    and k: "k < HUGEPAGE_SIZE"
  shows "\<not> devdax_offset_to_addr x a s + k - devdax_offset_to_addr y b s < HUGEPAGE_SIZE"
proof -
  let ?x = "devdax_offset_to_addr x a s" and ?y = "devdax_offset_to_addr y b s"
  have kn: "unat k < 2 ^ 21" using k by (simp add: word_less_nat_alt HUGEPAGE_SIZE_def)
  have hi: "unat ?x + 2 ^ 21 \<le> 2 ^ 64" "unat ?y + 2 ^ 21 \<le> 2 ^ 64"
    using frame_span(2,3) [OF t f(1)] frame_span(2,3) [OF t f(2)] by linarith+
  have s: "unat (?x + k) = unat ?x + unat k" using kn hi by (simp add: unat_word_ariths)
  have "2 ^ 21 \<le> unat (?x + k - ?y)"
    using frames_disjoint [OF t f ne] kn hi by (auto simp: unat_sub_if' s)
  then show ?thesis by (simp add: word_less_nat_alt HUGEPAGE_SIZE_def)
qed

lemma frame_ok_at: "frames_ok s \<Longrightarrow> pg_list s p \<noteq> None \<Longrightarrow> frame_at s (in_dram (pages s p)) (devdax_offset (pages s p))"
  by (simp add: frames_ok_def frame_ok_def frame_at_def)

text \<open>
  The common part of what an operation for one process promises: the invariant holds again,
  the locks are as before, the process table and list, the other processes and the contents
  of every page are untouched.
\<close>

definition listed :: "ucm_state \<Rightarrow> ptr set" where
  "listed s = {p. pg_list s p \<noteq> None}"

lemma listed_frame [simp]: "listed (s\<lparr>held := h\<rparr>) = listed s" "listed (s\<lparr>procs := f\<rparr>) = listed s"
  by (simp_all add: listed_def)

definition kept :: "ptr \<Rightarrow> ucm_state \<Rightarrow> ucm_state \<Rightarrow> bool" where
  "kept pr s s' \<longleftrightarrow> sys_ok s' \<and> held s' = held s \<and> same_registry s s' \<and> same_data s s' \<and> listed s' = listed s \<and>
     (\<exists>P P'. procs s pr = Some P \<and> procs s' = (procs s)(pr \<mapsto> P') \<and> pid P' = pid P)"

lemma keptD:
  assumes "kept pr s s'"
  shows "sys_ok s'" and "held s' = held s" and "same_registry s s'" and "same_data s s'"
    and "listed s' = listed s"
  using assms by (simp_all add: kept_def)

lemma kept_quiet:
  assumes "sys_ok s'" and "held s' = held s" and "same_registry s s'" and m: "ucm_mem s' = ucm_mem s"
    and "listed s' = listed s"
    and p: "\<And>p. devdax_offset (pages s' p) = devdax_offset (pages s p)"
      "\<And>p. in_dram (pages s' p) = in_dram (pages s p)"
    and P: "procs s pr = Some P" "procs s' = (procs s)(pr \<mapsto> P')" "pid P' = pid P"
  shows "kept pr s s'"
  using assms(1-3,5) P registry_tiers(4) [OF assms(3)]
  by (auto simp: kept_def same_data_def page_data_def m p)

lemma kept_same_owners:
  assumes "sys_ok s'" and "held s' = held s" and "same_registry s s'" and "ucm_mem s' = ucm_mem s"
    and "same_owners s s'" and "procs s pr = Some P" "procs s' = (procs s)(pr \<mapsto> P')" "pid P' = pid P"
  shows "kept pr s s'"
  using assms(1-4) _ _ _ assms(6-8)
  by (rule kept_quiet) (use assms(5) in \<open>simp_all add: same_owners_def page_id_eq listed_def\<close>)

lemma kept_refl: "\<lbrakk>sys_ok s; procs s pr = Some P\<rbrakk> \<Longrightarrow> kept pr s s"
  by (rule kept_quiet [where P = P and P' = P]) (simp_all add: fun_upd_idem)

lemma kept_held:
  "kept pr (s\<lparr>held := h\<rparr>) (s'\<lparr>held := h\<rparr>) = (kept pr (s\<lparr>held := held s'\<rparr>) s')"
  by (auto simp: kept_def same_data_def page_data_def same_registry_def devdax_offset_to_addr_def owner_def)

lemma kept_trans:
  assumes 1: "kept pr s t" and 2: "kept pr t u" and o: "\<And>p. owner s p \<noteq> None \<Longrightarrow> owner t p \<noteq> None"
  shows "kept pr s u"
proof -
  obtain P P' where P: "procs s pr = Some P" "procs t = (procs s)(pr \<mapsto> P')" "pid P' = pid P"
    using 1 by (auto simp: kept_def)
  obtain Q' where Q: "procs u = (procs t)(pr \<mapsto> Q')" "pid Q' = pid P'"
    using 2 P(2) by (auto simp: kept_def)
  have "same_data s u" using 1 2 o by (simp add: kept_def same_data_def)
  moreover have "same_registry s u" using 1 2 by (auto simp: kept_def intro: same_registry_trans)
  ultimately show ?thesis using 1 2 P Q by (auto simp: kept_def)
qed

lemma kept_sys_inv: "\<lbrakk>sys_inv s; kept pr s s'\<rbrakk> \<Longrightarrow> sys_inv s'"
  unfolding sys_inv_def kept_def by (auto intro: registry_ok_cong)

section \<open>Marking a page hot or cold\<close>

lemma set_tl_subset: "set (tl xs) \<subseteq> set xs"
  by (cases xs) auto

lemma ring_put_any:
  assumes "ring_wf r"
  obtains r' where "ring_buf_put r x = Inr r'" "ring_wf r'"
    "set (ring_list r') \<subseteq> insert x (set (ring_list r))"
proof (cases "length (ring_list r) < ring_bound r")
  case True
  with assms obtain r' where "ring_buf_put r x = Inr r'" "ring_wf r'" "ring_list r' = ring_list r @ [x]"
    by (rule ring_put_refines)
  then show thesis using that by auto
next
  case False
  then have "length (ring_list r) = ring_bound r"
    using ring.bound_law [OF assms] by simp
  with assms obtain r' where "ring_buf_put r x = Inr r'" "ring_wf r'"
    "ring_list r' = tl (ring_list r) @ [x]"
    by (rule ring_put_full)
  then show thesis
    using that set_tl_subset by fastforce
qed

lemma list_ok_page_id:
  "list_ok s q (pg\<lparr>in_free_ring := b\<rparr>) = list_ok s q pg"
  by (cases q) (simp_all add: free_page_def bin_page_def)

text \<open>The state after a mark: the flag of the page, a ring of the process, a counter.\<close>

lemma sys_ok_marked:
  assumes inv: "sys_ok s" and P: "procs s pr = Some P" and o: "owner s p = Some pr"
    and P': "ring_step P P'" "\<And>f. cur_cool f (mm P') = cur_cool f (mm P)"
      "pages_table (mm P') = pages_table (mm P)" "cxl_offset_to_page (mm P') = cxl_offset_to_page (mm P)"
      "ring_wf (hot_ring (mm P'))" "ring_wf (cold_ring (mm P'))"
      "set (ring_list (hot_ring (mm P'))) \<subseteq> insert p (set (ring_list (hot_ring (mm P))))"
      "set (ring_list (cold_ring (mm P'))) \<subseteq> insert p (set (ring_list (cold_ring (mm P))))"
    and s': "s' = upd_page p (ring_present_update (\<lambda>_. True)) (s\<lparr>procs := (procs s)(pr \<mapsto> P'),
      hot_ring_requests := a, cold_ring_requests := b\<rparr>)"
  shows "kept pr s s'"
proof -
  let ?t = "upd_page p (ring_present_update (\<lambda>_. True)) s"
  have u: "ucm_inv ?t"
    by (rule ucm_inv_page) (use inv in \<open>simp_all add: sys_ok_def\<close>)
  have "ucm_inv (?t\<lparr>procs := (procs ?t)(pr \<mapsto> P')\<rparr>)"
    by (rule ucm_inv_proc [OF u, of pr P]) (use P P' ring_step_frame(2) [OF P'(1)] in simp_all)
  then have "ucm_inv s'"
    by (rule ucm_inv_cong [THEN iffD2, rotated -1]) (simp_all add: s' upd_page_def)
  moreover have so: "same_owners s s'"
    using P by (auto simp: same_owners_def s' upd_page_def owner_def page_id_def dom_def)
  moreover have "same_registry s s'" "procs s' = (procs s)(pr \<mapsto> P')"
    by (simp_all add: same_registry_def s' upd_page_def)
  moreover have "proc_keeps s' pr P P'"
  proof -
    have ok: "proc_ok s pr P" using inv P by (simp add: sys_ok_def)
    have "level_reqs_ok s pr (mm P')"
      using ok P'(5-8) o unfolding proc_ok_def level_reqs_ok_def by blast
    then have "level_reqs_ok s' pr (mm P')"
      by (simp add: same_owners_reqs(2) [OF so])
    moreover have "clocks_all_ok s' pr P'"
      using ok clock_cong(1) [OF ring_step_frame(1) [OF P'(1)]] so
      by (auto simp: proc_ok_def clocks_all_ok_def same_owners_def s' upd_page_def clocks_ok_def)
    ultimately show ?thesis
      using P' ring_step_frame [OF P'(1)] by (simp add: proc_keeps_def)
  qed
  moreover have "pages s' x = pages s x" if "c \<noteq> pr" "owner s x = Some c" for x c
    using that o by (auto simp: s' upd_page_def)
  ultimately have "sys_ok s'"
    using inv P by (intro sys_ok_same_owners [of s s' pr P P']) auto
  then show ?thesis
    using so P ring_step_frame(2) [OF P'(1)]
    by (intro kept_same_owners [of s' s pr P P']) (simp_all add: s' upd_page_def same_registry_def)
qed

lemma mark_async_ok:
  assumes inv: "sys_ok s" and o: "owner s p = Some pr"
  shows "\<exists>b s'. mm_mark_page_hot_async pr p s = Inr (b, s') \<and> kept pr s s' \<and> ring_present (pages s' p)"
    and "\<exists>b s'. mm_mark_page_cold_async pr p s = Inr (b, s') \<and> kept pr s s' \<and> ring_present (pages s' p)"
proof -
  obtain P where P: "procs s pr = Some P"
    using inv o by (auto simp: sys_ok_def elim: owner_proc)
  have w: "ring_wf (hot_ring (mm P))" "ring_wf (cold_ring (mm P))"
    using inv P by (auto simp: sys_ok_def proc_ok_def level_reqs_ok_def)
  show "\<exists>b s'. mm_mark_page_hot_async pr p s = Inr (b, s') \<and> kept pr s s' \<and> ring_present (pages s' p)"
  proof (cases "ring_present (pages s p)")
    case True
    then show ?thesis using kept_refl [OF inv P] by (auto simp: mm_mark_page_hot_async_def)
  next
    case False
    obtain r where r: "ring_buf_put (hot_ring (mm P)) p = Inr r" "ring_wf r"
      "set (ring_list r) \<subseteq> insert p (set (ring_list (hot_ring (mm P))))"
      using w(1) by (rule ring_put_any)
    let ?P = "mm_update (hot_ring_update (\<lambda>_. r)) P"
    let ?s = "upd_page p (ring_present_update (\<lambda>_. True)) (s\<lparr>procs := (procs s)(pr \<mapsto> ?P),
      hot_ring_requests := hot_ring_requests s + 1, cold_ring_requests := cold_ring_requests s\<rparr>)"
    have "kept pr s ?s"
      by (rule sys_ok_marked [OF inv P o, where P' = ?P and a = "hot_ring_requests s + 1"
            and b = "cold_ring_requests s"])
        (use r w in \<open>auto simp: cur_cool_def ring_step_basic\<close>)
    moreover have "mm_mark_page_hot_async pr p s = Inr (True, ?s)"
      using False P r(1) by (simp add: mm_mark_page_hot_async_def upd_page_def)
    ultimately show ?thesis by auto
  qed
  show "\<exists>b s'. mm_mark_page_cold_async pr p s = Inr (b, s') \<and> kept pr s s' \<and> ring_present (pages s' p)"
  proof (cases "ring_present (pages s p)")
    case True
    then show ?thesis using kept_refl [OF inv P] by (auto simp: mm_mark_page_cold_async_def)
  next
    case False
    obtain r where r: "ring_buf_put (cold_ring (mm P)) p = Inr r" "ring_wf r"
      "set (ring_list r) \<subseteq> insert p (set (ring_list (cold_ring (mm P))))"
      using w(2) by (rule ring_put_any)
    let ?P = "mm_update (cold_ring_update (\<lambda>_. r)) P"
    let ?s = "upd_page p (ring_present_update (\<lambda>_. True)) (s\<lparr>procs := (procs s)(pr \<mapsto> ?P),
      hot_ring_requests := hot_ring_requests s, cold_ring_requests := cold_ring_requests s + 1\<rparr>)"
    have "kept pr s ?s"
      by (rule sys_ok_marked [OF inv P o, where P' = ?P and a = "hot_ring_requests s"
            and b = "cold_ring_requests s + 1"])
        (use r w in \<open>auto simp: cur_cool_def ring_step_basic\<close>)
    moreover have "mm_mark_page_cold_async pr p s = Inr (True, ?s)"
      using False P r(1) by (simp add: mm_mark_page_cold_async_def upd_page_def)
    ultimately show ?thesis by auto
  qed
qed

end
