(* ===== verification/Example_State.thy ===== *)
theory Example_State
  imports Page_Invariant
begin

text \<open>
  A small concrete state of the manager on which the properties of the development are
  exercised: two processes, pages 1 and 2 on the free lists, pages 3 to 6 on level lists
  of the first process and page 7 on a level list of the second one. Page 4 has been
  handed to the free ring of the first process, page 3 to its hot ring and page 5 to its
  cold ring.
\<close>

definition proc1 :: ptr where "proc1 = 4096"
definition proc2 :: ptr where "proc2 = 8192"

definition example_page :: "int \<Rightarrow> bool \<Rightarrow> nat \<Rightarrow> u64 \<Rightarrow> u64 \<Rightarrow> hemem_page" where
  "example_page i fast level v off = hemem_page_alloc\<lparr>pg_pid := i, in_dram := fast,
     present := (i \<noteq> -1), hot := level, va := v, devdax_offset := off\<rparr>"

definition example_pages :: "ptr \<Rightarrow> hemem_page" where
  "example_pages =
     (\<lambda>_. hemem_page_alloc)
      (1 := example_page (-1) True 0 0 0,
       2 := example_page (-1) False 0 0 0,
       3 := (example_page 42 True 0 0x200000 0x200000)\<lparr>ring_present := True,
              accesses := (\<lambda>_. 0)(FASTMEM := 20), tot_accesses := (\<lambda>_. 0)(FASTMEM := 20)\<rparr>,
       4 := (example_page 42 True 3 0x400000 0x400000)\<lparr>in_free_ring := True\<rparr>,
       5 := (example_page 42 False 2 0x600000 0x200000)\<lparr>ring_present := True,
              pa_proc_entry := \<lparr>ppe_pa = 0x200000, ppe_proc = proc1, ppe_used = True\<rparr>\<rparr>,
       6 := (example_page 42 False 5 0x800000 0x400000)\<lparr>
              pa_proc_entry := \<lparr>ppe_pa = 0x400000, ppe_proc = proc1, ppe_used = True\<rparr>\<rparr>,
       7 := example_page 43 True 1 0x200000 0x600000)"

definition example_ring :: "ptr list \<Rightarrow> ring_buf_t" where
  "example_ring xs = \<lparr>rb_buffer = xs @ replicate (8 - length xs) NULL, rb_head = of_nat (length xs),
     rb_tail = 0, rb_capacity = 8\<rparr>"

definition example_mm :: process_mem where
  "example_mm = \<lparr>mem_allocated = 0, current_fastmem = 0, current_slowmem = 0, max_fastmem = 0,
     cur_cool_in_fastmem_list = 0, cur_cool_in_slowmem_list = 0, cur_cool_in_fastmem = NULL,
     cur_cool_in_slowmem = NULL, epoch_did_cool = False, need_cool_fastmem = False,
     need_cool_slowmem = False, cools = 0, hot_ring = example_ring [], cold_ring = example_ring [],
     free_page_ring = example_ring [], pages_table = [], cxl_offset_to_page = []\<rparr>"

definition example_proc :: "int \<Rightarrow> hemem_process" where
  "example_proc i =
     \<lparr>pid = i, uffd = 0, exited = False, valid_uffd = True, remap_fd = 5, zero_pages = False,
      still_migrating = False, process_clock = (\<lambda>_. 0), mm = example_mm,
      policy = \<lparr>access_count = (\<lambda>_. 0), sample_count = (\<lambda>_. 0), current_miss_ratio = Fin 0,
        fastmem_delta = 0, deviation_ratio = Fin 0, migration_up_bytes = 0,
        migration_down_bytes = 0\<rparr>,
      pstats = \<lparr>miss_faults = 0, miss_but_allocated_faults = 0, up_count = 0, down_count = 0,
        wp_wait_count = 0, wp_wait_us = 0, unknown_page_count = 0\<rparr>\<rparr>"

definition example_procs :: "ptr \<Rightarrow> hemem_process option" where
  "example_procs =
     Map.empty
      (proc1 \<mapsto> (example_proc 42)\<lparr>mm := example_mm\<lparr>
         mem_allocated := 0x800000, current_fastmem := 0x400000, current_slowmem := 0x400000,
         max_fastmem := 0x600000, cur_cool_in_fastmem := 4, cur_cool_in_fastmem_list := 3,
         need_cool_fastmem := True,
         free_page_ring := example_ring [4], hot_ring := example_ring [3],
         cold_ring := example_ring [5],
         pages_table := [(0x200000, 3), (0x600000, 5), (0x800000, 6)],
         cxl_offset_to_page := [(0x200000, 5), (0x400000, 6)]\<rparr>\<rparr>,
       proc2 \<mapsto> (example_proc 43)\<lparr>mm := example_mm\<lparr>
         mem_allocated := 0x200000, current_fastmem := 0x200000,
         pages_table := [(0x200000, 7)]\<rparr>\<rparr>)"

definition example_lists :: "list_id \<Rightarrow> ptr list" where
  "example_lists = (\<lambda>_. [])
     (Fastmem_Free := [1], Slowmem_Free := [2], Fastmem_Bin proc1 0 := [3],
      Fastmem_Bin proc1 3 := [4], Slowmem_Bin proc1 2 := [5], Slowmem_Bin proc1 5 := [6],
      Fastmem_Bin proc2 1 := [7])"

definition singleton_list :: "ptr \<Rightarrow> page_list" where
  "singleton_list p = \<lparr>first = p, last_page = p, numentries = 1\<rparr>"

definition example_heads :: "list_id \<Rightarrow> page_list" where
  "example_heads = (\<lambda>_. empty_page_list)
     (Fastmem_Free := singleton_list 1, Slowmem_Free := singleton_list 2,
      Fastmem_Bin proc1 0 := singleton_list 3, Fastmem_Bin proc1 3 := singleton_list 4,
      Slowmem_Bin proc1 2 := singleton_list 5, Slowmem_Bin proc1 5 := singleton_list 6,
      Fastmem_Bin proc2 1 := singleton_list 7)"

definition example_state :: ucm_state where
  "example_state =
     \<lparr>pg_next = (\<lambda>_. NULL), pg_prev = (\<lambda>_. NULL),
      pg_list = (\<lambda>_. None)
        (1 := Some Fastmem_Free, 2 := Some Slowmem_Free, 3 := Some (Fastmem_Bin proc1 0),
         4 := Some (Fastmem_Bin proc1 3), 5 := Some (Slowmem_Bin proc1 2),
         6 := Some (Slowmem_Bin proc1 5), 7 := Some (Fastmem_Bin proc2 1)),
      plists = example_heads,
      pr_next = (\<lambda>_. NULL)(proc1 := proc2), pr_prev = (\<lambda>_. NULL)(proc2 := proc1),
      pr_list = (\<lambda>p. p = proc1 \<or> p = proc2), held = {},
      target_miss_ratio = (\<lambda>_. Fin (1 / 2))(proc1 := Fin (1 / 4)),
      processes_list = \<lparr>pl_first = proc1, pl_last = proc2, pl_numentries = 2\<rparr>,
      pages = example_pages, procs = example_procs,
      pa_to_proc_map = [(0x200000, 5), (0x400000, 6)],
      proc_map = [(43, proc2), (42, proc1)],
      stats = \<lparr>st_mem_allocated = 0, st_pages_allocated = 0, st_pages_freed = 0, st_memsets = 0,
        st_wp_faults_handled = 0, st_missing_faults_handled = 0, st_migration_waits = 0,
        st_migrations_up = 0, st_migrations_down = 0, st_bytes_migrated = 0\<rparr>,
      cools_started = (\<lambda>_. 0), cools_completed = (\<lambda>_. 0), free_ring_requests = 0,
      hot_ring_requests = 0, cold_ring_requests = 0, free_ring_requests_handled = 0,
      hot_ring_requests_handled = 0, cold_ring_requests_handled = 0, scan_epoch = 0,
      cxl_unknown_proc_sample_cnt = 0,
      g_pebs_stats = \<lparr>total_samples_cnt = 0, non_hemem_proc_samples_cnt = 0,
        non_hemem_page_samples_cnt = 0, valid_samples_cnt = 0, cxl_samples_cnt = 0,
        zero_pages_cnt = 0, throttle_cnt = 0, unthrottle_cnt = 0, lost_samples = 0\<rparr>,
      physmem_mode = USE_DAX, fastmem_sz = 0x800000, slowmem_sz = 0x800000,
      fastmem_ptr = 0x10000000, slowmem_ptr = 0x20000000, ucm_mem = (\<lambda>_. 0)\<rparr>"

lemmas example_page_defs =
  example_state_def example_pages_def example_page_def hemem_page_alloc_def zero_entry_def

lemmas example_proc_defs =
  example_state_def example_procs_def example_proc_def example_mm_def

lemma proc_ptrs [simp]: "proc1 \<noteq> proc2" "proc2 \<noteq> proc1" "proc1 \<noteq> NULL" "proc2 \<noteq> NULL"
  by (simp_all add: proc1_def proc2_def)

lemma example_lists_ok: "pl_wf example_state" "page_seq example_state = example_lists"
proof -
  have "is_plist example_state q (example_lists q)" for q
    by (simp add: is_plist_def example_state_def example_lists_def example_heads_def
        singleton_list_def empty_page_list_def)
  moreover have "pg_next example_state p = NULL \<and> pg_prev example_state p = NULL" for p
    by (simp add: example_state_def)
  ultimately show "pl_wf example_state" "page_seq example_state = example_lists"
    by (rule pl_wfI; blast)+
qed

lemma example_procs_ok: "pr_idle example_state" "proc_seq example_state = [proc1, proc2]"
proof -
  have "is_proclist example_state [proc1, proc2]"
    by (auto simp: is_proclist_def example_state_def)
  moreover have "pr_next example_state p = NULL \<and> pr_prev example_state p = NULL"
    if "p \<notin> set [proc1, proc2]" for p
    using that by (simp add: example_state_def)
  ultimately have "pr_wf example_state" "proc_seq example_state = [proc1, proc2]"
    by (rule pr_wfI; blast)+
  then show "pr_idle example_state" "proc_seq example_state = [proc1, proc2]"
    by (simp_all add: pr_idle_def) (simp add: example_state_def)
qed

lemma example_inv: "ucm_inv example_state"
proof -
  have "pages_ok example_state"
    by (simp add: pages_ok_def example_page_defs example_procs_def example_proc_def free_page_def
        bin_page_def COLD_def NUM_HOTNESS_LEVELS_def)
  moreover have "bookmarks_ok example_state"
    by (auto simp: bookmarks_ok_def example_proc_defs cur_cool_def split: if_splits)
  ultimately show ?thesis
    by (simp add: ucm_inv_def example_lists_ok)
qed

end
