(* ===== verification/Ds_Properties.thy ===== *)
theory Ds_Properties
  imports Example_State
begin

text \<open>
  What the containers of the manager promise (\<open>src/ucm/ds\<close>): the request rings, the page
  lists and the list of processes, and the mapping from access counts to levels.
\<close>

section \<open>Request rings\<close>

text \<open>
  C18: requests put into a ring that has room for them come out of the consumer loop
  completely and in the order they were put in, after those already waiting, and the ring
  is empty afterwards.
\<close>

theorem ring_requests_in_order:
  assumes "ring_wf r" and "length (ring_list r) + length xs \<le> ring_bound r"
  shows "\<exists>r1 r2. put_all ring_buf_put xs r = Inr r1 \<and>
    drain ring_buf_get ring_buf_empty (ring_bound r) r1 = Inr (ring_list r @ xs, r2) \<and>
    ring_wf r2 \<and> ring_buf_empty r2"
  using assms by (rule ring.put_then_drain)

lemma example_ring_facts:
  "ring_wf (example_ring [4])" "ring_list (example_ring [4]) = [4]"
  "ring_bound (example_ring [4]) = 7"
  by (simp_all add: ring_wf_def ring_list_def ring_count_def ring_bound_def example_ring_def)

theorem ring_requests_in_order_witness:
  "\<exists>r1 r2. put_all ring_buf_put [5, 6] (example_ring [4]) = Inr r1 \<and>
    drain ring_buf_get ring_buf_empty 7 r1 = Inr ([4, 5, 6], r2) \<and> ring_wf r2 \<and> ring_buf_empty r2"
  using ring_requests_in_order [of "example_ring [4]" "[5, 6]"] by (simp add: example_ring_facts)

text \<open>
  C19: a put into a full ring is not refused. \<open>ring_buf_put\<close> drops the oldest request to make
  room, while \<open>ring_buf_put2\<close> reports -1 and leaves the ring as it was.
\<close>

theorem ring_put_when_full:
  assumes "ring_wf r" and "length (ring_list r) = ring_bound r"
  shows "\<exists>r'. ring_buf_put r x = Inr r' \<and> ring_wf r' \<and> ring_list r' = tl (ring_list r) @ [x] \<and>
    ring_buf_put2 r x = Inr (-1, r)"
  using assms by (rule ring_put_full [of r x]) blast

definition full_ring :: ring_buf_t where "full_ring = example_ring [1, 2, 3, 4, 5, 6, 7]"

lemma full_ring_facts:
  "ring_wf full_ring" "ring_list full_ring = [1, 2, 3, 4, 5, 6, 7]" "ring_bound full_ring = 7"
  by (simp_all add: full_ring_def ring_wf_def ring_list_def ring_count_def ring_bound_def
      example_ring_def upt_conv_Cons)

theorem ring_put_when_full_witness:
  "\<exists>r'. ring_buf_put full_ring 8 = Inr r' \<and> ring_wf r' \<and> ring_list r' = [2, 3, 4, 5, 6, 7, 8] \<and>
    ring_buf_put2 full_ring 8 = Inr (-1, full_ring)"
  using ring_put_when_full [of full_ring 8] by (simp add: full_ring_facts)

text \<open>
  C20: \<open>ring_buf_size\<close> is the number of waiting requests, except that a full ring, which
  holds one request less than its capacity, reports its capacity.
\<close>

theorem ring_buf_size_exact:
  assumes "ring_wf r"
  shows "unat (ring_buf_size r) =
    (if length (ring_list r) = ring_cap r - 1 then length (ring_list r) + 1
     else length (ring_list r))"
proof -
  have "2 \<le> ring_cap r"
    using assms by (simp add: ring_wf_def)
  then show ?thesis
    using ring_size_count [OF assms] ring_full_count [OF assms] by (auto simp: ring_bound_def)
qed

theorem ring_buf_size_exact_witness: "unat (ring_buf_size full_ring) = 8"
  using ring_buf_size_exact [of full_ring] full_ring_facts by (simp add: ring_bound_def)

section \<open>Page lists\<close>

text \<open>
  C21: pages put on an empty list one after another are dequeued in the same order, no
  other list changes, and nothing outside the links changes.
\<close>

theorem page_list_fifo:
  assumes "pl_wf s" and "page_seq s q = []" and "\<forall>p \<in> set ps. p \<noteq> NULL \<and> pg_list s p = None"
    and "distinct ps"
  shows "\<exists>s'. andThen (enqueue_all enqueue_page q ps s) (dequeue_n dequeue_page q (length ps))
      = Inr (ps, s') \<and> pl_wf s' \<and> link_step s s' \<and> page_seq s' = page_seq s"
  using assms pl.fifo_order [of s q ps] by (simp add: loose_page_def)

theorem page_list_fifo_witness:
  "\<exists>s'. andThen (enqueue_all enqueue_page (Fastmem_Bin proc2 0) [20, 21, 22] example_state)
      (dequeue_n dequeue_page (Fastmem_Bin proc2 0) 3) = Inr ([20, 21, 22], s') \<and> pl_wf s' \<and>
      link_step example_state s' \<and> page_seq s' = example_lists"
proof -
  have "page_seq example_state (Fastmem_Bin proc2 0) = []"
    by (simp add: example_lists_ok) (simp add: example_lists_def)
  moreover have "\<forall>p \<in> set [20, 21, 22]. p \<noteq> NULL \<and> pg_list example_state p = None"
    by (simp add: example_state_def)
  moreover have "length [20 :: ptr, 21, 22] = 3" "distinct [20 :: ptr, 21, 22]"
    by simp_all
  ultimately show ?thesis
    using page_list_fifo [of example_state "Fastmem_Bin proc2 0" "[20, 21, 22]"]
    by (simp only: example_lists_ok)
qed

text \<open>
  C22: a page can be taken from anywhere on a list and put on another one: exactly these two
  sequences change, the first loses the page and the second has it in front.
\<close>

theorem page_move:
  assumes "pl_wf s" and "p \<in> set (page_seq s q)" and "q \<noteq> q'"
  shows "\<exists>s'. andThen (page_list_remove q p s) (enqueue_page q' p) = Inr s' \<and> pl_wf s' \<and>
    link_step s s' \<and> pg_list s' p = Some q' \<and>
    page_seq s' = (page_seq s)(q := remove1 p (page_seq s q), q' := p # page_seq s q')"
proof -
  obtain s' where s': "andThen (page_list_remove q p s) (enqueue_page q' p) = Inr s'" "pl_wf s'"
    "link_step s s'"
    "page_seq s' = (page_seq s)(q := remove1 p (page_seq s q), q' := p # page_seq s q')"
    using pl.move_ok [OF assms] by blast
  moreover have "pg_list s' p = Some q'"
    using pl_wf_mem [OF s'(2)] s'(4) by simp
  ultimately show ?thesis by blast
qed

theorem page_move_witness:
  "\<exists>s'. andThen (page_list_remove (Fastmem_Bin proc1 3) 4 example_state)
      (enqueue_page (Fastmem_Bin proc1 0) 4) = Inr s' \<and> pl_wf s' \<and>
    page_seq s' (Fastmem_Bin proc1 0) = [4, 3] \<and> page_seq s' (Fastmem_Bin proc1 3) = []"
  using page_move [of example_state 4 "Fastmem_Bin proc1 3" "Fastmem_Bin proc1 0"]
  by (auto simp: example_lists_ok) (auto simp: example_lists_def)

section \<open>The process list\<close>


definition qos_build :: config where
  "qos_build = \<lparr>CONFIG_PEBS = True, CONFIG_PEBS_SKEWNESS = False, CONFIG_CXL_TELEM = False,
     CONFIG_POLICY_QOS = True, CONFIG_POLICY_FAIR_SHARE = False\<rparr>"

definition newcomer_state :: ucm_state where
  "newcomer_state = example_state\<lparr>target_miss_ratio :=
     (target_miss_ratio example_state)(12288 := Fin (1 / 3))\<rparr>"

lemma newcomer_facts:
  "pr_idle newcomer_state" "proc_seq newcomer_state = [proc1, proc2]"
  using example_procs_ok
  by (simp_all add: newcomer_state_def pr_idle_def pr_wf_def is_proclist_def proc_seq_def)


text \<open>
  C24: adding a process and removing it again, in either build, leaves the list of processes
  as it was, with no lock held, and changes nothing but the links of the list.
\<close>

theorem process_list_roundtrip:
  assumes "pr_idle s" and "e \<noteq> NULL" and "e \<notin> set (proc_seq s)"
  shows "\<exists>s'. andThen (enqueue_process cfg e s) (process_list_remove cfg e) = Inr s' \<and>
    pr_idle s' \<and> proc_link_step s s' \<and> proc_seq s' = proc_seq s"
  using assms by (rule pr.add_then_remove)

theorem process_list_roundtrip_witness:
  "\<exists>s'. andThen (enqueue_process qos_build 12288 newcomer_state)
      (process_list_remove qos_build 12288) = Inr s' \<and> pr_idle s' \<and> proc_seq s' = [proc1, proc2]"
  using process_list_roundtrip [of newcomer_state 12288 qos_build] newcomer_facts
  by (auto simp: proc1_def proc2_def)

text \<open>
  C25: removing a process that is not on the sorted list walks to the end and returns with
  the lock of the last process still held.
\<close>

theorem process_list_remove_leaks_lock:
  assumes "pr_idle s" and "proc_seq s \<noteq> []" and "p \<noteq> NULL" and "p \<notin> set (proc_seq s)"
    and "ordered_processes cfg"
  shows "process_list_remove cfg p s = Inr (s\<lparr>held := {last (proc_seq s)}\<rparr>)"
proof (cases "proc_seq s")
  case (Cons x xs)
  have "last_of x xs = last (proc_seq s)"
    by (simp add: Cons last_of_def)
  then show ?thesis
    using process_list_remove_ordered_absent [OF _ Cons assms(3,4)] assms(1,5)
    by (simp add: process_list_remove_def pr_idle_def)
qed (use assms in simp)

theorem process_list_remove_leaks_lock_witness:
  "process_list_remove qos_build 12288 example_state = Inr (example_state\<lparr>held := {proc2}\<rparr>)"
  using process_list_remove_leaks_lock [of example_state 12288 qos_build]
  by (simp add: example_procs_ok ordered_processes_def qos_build_def)
    (simp add: proc1_def proc2_def)

section \<open>Levels\<close>

text \<open>
  C26: a count is on level \<open>k\<close> or below exactly when it is below \<open>2 ^ k\<close>, the last level
  takes the rest: level 0 holds the pages without accesses, level \<open>k\<close> those with at least
  \<open>2 ^ (k - 1)\<close> and fewer than \<open>2 ^ k\<close>.
\<close>

theorem access_to_index_raw_bins:
  "access_to_index_raw n \<le> k \<longleftrightarrow> unat n < 2 ^ k \<or> NUM_HOTNESS_LEVELS \<le> k + 1"
  by (auto simp: access_to_index_raw_eq bit_length_iff min_le_iff_disj NUM_HOTNESS_LEVELS_def)

end
