(* ===== verification/Mm_Properties.thy ===== *)
theory Mm_Properties
  imports Sys_Inv Ds_Properties
begin

text \<open>
  What the per-process memory management promises: requests are served, cooling puts every
  page on the level its counts give, and allocation takes pages where the policy says.
\<close>

section \<open>Requests of the other threads\<close>

text \<open>
  C27: draining the requests of a process always returns. Afterwards the lists are in order,
  the free ring is empty, and every page that was in it is on the free list of its tier;
  requests for pages that were freed in the meantime are harmless.
\<close>

theorem drain_frees_pages:
  assumes "ucm_inv s" and "requests_ok pr s" and "procs s pr = Some P"
  shows "\<exists>s' P'. mm_drain_async_requests cfg pr s = Inr s' \<and> ucm_inv s' \<and> requests_ok pr s' \<and>
    procs s' pr = Some P' \<and> ring_list (free_page_ring (mm P')) = [] \<and>
    (\<forall>p \<in> set (ring_list (free_page_ring (mm P))).
       pg_list s' p = Some (tier_free (in_dram (pages s p))))"
  using mm_drain_ok [OF assms, of cfg] by metis

lemma ring_facts:
  "ring_wf (example_ring [])" "ring_list (example_ring []) = []"
  "ring_wf (example_ring [p])" "ring_list (example_ring [p]) = [p]"
  by (simp_all add: ring_wf_def ring_list_def ring_count_def ring_bound_def example_ring_def)

lemma example_bins:
  "pg_list example_state 3 = Some (bin True proc1 0)"
  "pg_list example_state 4 = Some (bin True proc1 3)"
  "pg_list example_state 5 = Some (bin False proc1 2)"
  "pg_list example_state 6 = Some (bin False proc1 5)"
  by (simp_all add: example_state_def bin_def)

lemma example_proc1:
  obtains P where "procs example_state proc1 = Some P" "pid P = 42" "process_clock P = (\<lambda>_. 0)"
    "free_page_ring (mm P) = example_ring [4]" "hot_ring (mm P) = example_ring [3]"
    "cold_ring (mm P) = example_ring [5]" "current_fastmem (mm P) = 0x400000"
    "max_fastmem (mm P) = 0x600000" "need_cool True (mm P)"
proof -
  have "procs example_state proc1 = example_procs proc1" by (simp add: example_state_def)
  then show thesis
    using that by (simp add: example_procs_def example_proc_def example_mm_def need_cool_def)
qed

lemma example_page_flags:
  "present (pages example_state 3)" "present (pages example_state 5)"
  "in_dram (pages example_state 4)" "local_clock (pages example_state p) = (\<lambda>_. 0)"
  by (simp_all add: example_page_defs)

lemma example_requests: "requests_ok proc1 example_state"
proof -
  obtain P where P: "procs example_state proc1 = Some P" "process_clock P = (\<lambda>_. 0)"
    "free_page_ring (mm P) = example_ring [4]" "hot_ring (mm P) = example_ring [3]"
    "cold_ring (mm P) = example_ring [5]"
    by (rule example_proc1)
  have "clocks_ok P (pages example_state p)" for p
    using P(2) by (simp add: clocks_ok_def example_page_flags)
  then have "level_ready proc1 example_state 3" "level_ready proc1 example_state 5"
    using P(1) by (auto simp: level_ready_def example_page_flags example_bins)
  moreover have "free_ring_ok proc1 example_state [4]"
    using P by (auto simp: free_ring_ok_def ring_facts example_bins)
  ultimately show ?thesis
    using P by (simp add: requests_ok_def ring_facts)
qed

theorem drain_frees_pages_witness:
  "\<exists>s'. mm_drain_async_requests qos_build proc1 example_state = Inr s' \<and> ucm_inv s' \<and>
    pg_list s' 4 = Some Fastmem_Free"
proof -
  obtain P where "procs example_state proc1 = Some P" "free_page_ring (mm P) = example_ring [4]"
    by (rule example_proc1)
  then show ?thesis
    using drain_frees_pages [OF example_inv example_requests, of P qos_build]
    by (auto simp: ring_facts example_page_flags)
qed

text \<open>
  C28: a request in the hot ring of a process puts its page on the list of the tier the page
  is in and of the level that its access counts give, halved once for every cooling round
  the page has missed. One call serves the whole ring if it holds fewer requests than the
  limit of a call.
\<close>

theorem hot_requests_relevel:
  assumes "ucm_inv s" and "procs s pr = Some P" and "ring_wf (hot_ring (mm P))"
    and "\<forall>p \<in> set (ring_list (hot_ring (mm P))). level_ready pr s p"
    and "length (ring_list (hot_ring (mm P))) \<le> HOT_RING_REQS_THRESHOLD"
  shows "\<exists>s' P'. handle_hot_requests cfg pr s = Inr s' \<and> ucm_inv s' \<and>
    procs s' pr = Some P' \<and> ring_list (hot_ring (mm P')) = [] \<and>
    (\<forall>p \<in> set (ring_list (hot_ring (mm P))). present (pages s p) \<longrightarrow>
       hot (pages s' p) = cooled_level cfg P (pages s p) \<and> \<not> ring_present (pages s' p) \<and>
       pg_list s' p = Some (bin (in_dram (pages s p)) pr (cooled_level cfg P (pages s p))))"
proof -
  let ?ps = "ring_list (hot_ring (mm P))"
  obtain k s' Q where s': "handle_hot_requests cfg pr s = Inr s'" "ucm_inv s'"
    "served cfg pr (take k ?ps) s s'" "procs s' pr = Some Q" "ring_list (hot_ring (mm Q)) = drop k ?ps"
    "k < length ?ps \<Longrightarrow> HOT_RING_REQS_THRESHOLD \<le> length (filter (\<lambda>p. present (pages s p)) (take k ?ps))"
    using handle_hot_requests_ok [OF assms(1-4), of cfg] by blast
  have "length (filter (\<lambda>p. present (pages s p)) (take k ?ps)) \<le> k"
    using length_filter_le [of _ "take k ?ps"] by (simp add: le_trans)
  then have k: "length ?ps \<le> k"
    using s'(6) assms(5) by linarith
  then show ?thesis
    using s'(1-5) assms(2) by (intro exI [of _ s'] exI [of _ Q]) (auto simp: served_def)
qed

lemma bit_length_20: "bit_length 20 = 5"
  by (simp add: bit_length.simps [of 20] bit_length.simps [of 10] bit_length.simps [of 5]
      bit_length.simps [of 2] bit_length.simps [of "Suc 0"] bit_length.simps [of 0])

theorem hot_requests_relevel_witness:
  "\<exists>s'. handle_hot_requests qos_build proc1 example_state = Inr s' \<and> ucm_inv s' \<and>
    pg_list s' 3 = Some (Fastmem_Bin proc1 5)"
proof -
  obtain P where P: "procs example_state proc1 = Some P" "hot_ring (mm P) = example_ring [3]"
    "process_clock P = (\<lambda>_. 0)"
    by (rule example_proc1)
  have "\<forall>p \<in> set (ring_list (hot_ring (mm P))). level_ready proc1 example_state p"
    using example_requests P(1) by (auto simp: requests_ok_def)
  moreover have "in_dram (pages example_state 3)" "accesses (pages example_state 3) = (\<lambda>_. 0)(FASTMEM := 20)"
    by (simp_all add: example_page_defs)
  moreover have "cooled_level qos_build P (pages example_state 3) = 5"
    using P(3) calculation
    by (simp add: cooled_level_def cooled_def example_page_flags access_to_index_def qos_build_def
        access_to_index_raw_eq bit_length_20 NUM_HOTNESS_LEVELS_def)
  ultimately show ?thesis
    using hot_requests_relevel [OF example_inv P(1), of qos_build] P(2)
    by (auto simp: ring_facts example_page_flags HOT_RING_REQS_THRESHOLD_def)
qed

section \<open>Cooling\<close>





text \<open>
  C30: a walk that resumes from its bookmark and meets only pages that are already on their
  level uses up its budget and returns the page it started from, with the state unchanged.
  The next call does the same: once a level list ends in \<open>COOLING_PAGES\<close> such pages, cooling
  never gets past them and the request is never completed.
\<close>

theorem cooling_never_advances:
  assumes "ucm_inv s" and "procs s pr = Some P" and "tier_clocks_ok P fast pr s"
    and "need_cool fast (mm P)" and "cur_cool fast (mm P) = p" and "cur_cool_list fast (mm P) = level"
    and "page_seq s (bin fast pr level) = xs @ p # ys" and "\<forall>x \<in> set (xs @ [p]). settled cfg P s x"
    and "COOLING_PAGES \<le> length xs + 1"
  shows "partial_cool_impl cfg pr fast s = Inr (p, s)"
  using assms by (rule cooling_stuck)

text \<open>A state with that many pages on level 1 of the first process, each accessed once.\<close>

definition stuck_pages :: "ptr list" where
  "stuck_pages = map (\<lambda>i. 0x10000 + of_nat i) [0..<COOLING_PAGES]"

definition stuck_base :: ucm_state where
  "stuck_base = example_state\<lparr>
     pages := (\<lambda>p. if p < 0x10000 then pages example_state p
       else (example_page 42 True 1 0x200000 0)\<lparr>accesses := (\<lambda>_. 0)(FASTMEM := 1)\<rparr>),
     procs := (procs example_state)(proc1 \<mapsto>
       mm_update (set_cur_cool True 0x10000 1) (the (procs example_state proc1)))\<rparr>"

definition stuck_state :: ucm_state where
  "stuck_state = (case enqueue_all enqueue_page (Fastmem_Bin proc1 1) stuck_pages stuck_base of
     Inr s \<Rightarrow> s | Inl _ \<Rightarrow> stuck_base)"

lemma stuck_page_addr: "i < COOLING_PAGES \<Longrightarrow> unat (0x10000 + of_nat i :: u64) = 0x10000 + i"
  by (simp add: COOLING_PAGES_def unat_word_ariths unat_of_nat)

lemma stuck_page_bounds: "p \<in> set stuck_pages \<Longrightarrow> p \<ge> 0x10000"
  using stuck_page_addr by (auto simp: stuck_pages_def word_le_nat_alt)

lemma stuck_pages_distinct: "distinct stuck_pages" "length stuck_pages = COOLING_PAGES"
  "hd stuck_pages = 0x10000"
proof -
  have "inj_on (\<lambda>i. 0x10000 + of_nat i :: u64) (set [0..<COOLING_PAGES])"
    by (rule inj_onI) (metis add_left_cancel atLeastLessThan_iff set_upt stuck_page_addr)
  then show "distinct stuck_pages"
    by (simp add: stuck_pages_def distinct_map)
qed (simp_all add: stuck_pages_def hd_map COOLING_PAGES_def)

lemma example_small: "pg_list example_state p = Some q \<Longrightarrow> p < 0x10000"
  by (auto simp: example_state_def split: if_splits)

lemma stuck_state_lists:
  "pl_wf stuck_state" "link_step stuck_base stuck_state"
  "page_seq stuck_state = example_lists(Fastmem_Bin proc1 1 := rev stuck_pages)"
proof -
  have "pl_wf stuck_base" "page_seq stuck_base = example_lists"
    by (simp_all add: stuck_base_def example_lists_ok)
  moreover have "\<forall>p \<in> set stuck_pages. loose_page stuck_base p"
    using stuck_page_bounds example_small
    by (fastforce simp: loose_page_def stuck_base_def)
  moreover have "example_lists (Fastmem_Bin proc1 1) = []"
    by (simp add: example_lists_def)
  ultimately show "pl_wf stuck_state" "link_step stuck_base stuck_state"
    "page_seq stuck_state = example_lists(Fastmem_Bin proc1 1 := rev stuck_pages)"
    using pl.enqueue_all_ok [of stuck_base stuck_pages "Fastmem_Bin proc1 1"] stuck_pages_distinct
    by (auto simp: stuck_state_def)
qed

lemma stuck_state_facts:
  "pages stuck_state = pages stuck_base" "procs stuck_state = procs stuck_base"
  using link_step_frame [OF stuck_state_lists(2)] by simp_all

lemma stuck_state_pages:
  assumes "pg_list stuck_state p = Some q"
  shows "p \<in> set stuck_pages \<and> q = Fastmem_Bin proc1 1 \<or> pg_list example_state p = Some q"
proof -
  have "p \<in> set (page_seq stuck_state q)"
    using assms by (simp add: pl_wf_mem [OF stuck_state_lists(1)])
  then show ?thesis
    by (auto simp: stuck_state_lists(3) pl_wf_mem [OF example_lists_ok(1)] example_lists_ok split: if_splits)
qed

lemma stuck_state_inv: "ucm_inv stuck_state"
proof -
  obtain P where P: "procs example_state proc1 = Some P" "pid P = 42" by (rule example_proc1)
  have prs: "procs stuck_state = (procs example_state)(proc1 \<mapsto> mm_update (set_cur_cool True 0x10000 1) P)"
    using P by (simp add: stuck_state_facts stuck_base_def)
  have lk: "list_ok stuck_state = list_ok example_state"
    by (rule list_ok_procs) (simp add: same_pids_def prs P)
  have "list_ok stuck_state q (pages stuck_state p)" if "pg_list stuck_state p = Some q" for p q
    using stuck_state_pages [OF that]
  proof
    assume "p \<in> set stuck_pages \<and> q = Fastmem_Bin proc1 1"
    then show ?thesis
      using stuck_page_bounds [of p] P
      by (auto simp: lk stuck_state_facts stuck_base_def bin_page_def example_page_def NUM_HOTNESS_LEVELS_def)
  next
    assume e: "pg_list example_state p = Some q"
    then show ?thesis
      using example_small [OF e] ucm_inv_list [OF example_inv e]
      by (simp add: lk stuck_state_facts stuck_base_def)
  qed
  then have "pages_ok stuck_state" by (simp add: pages_ok_def)
  moreover have "bookmarks_ok stuck_state"
  proof -
    have "0x10000 \<in> set (page_seq stuck_state (Fastmem_Bin proc1 1))"
      using stuck_pages_distinct(2,3) hd_in_set [of stuck_pages]
      by (fastforce simp: stuck_state_lists COOLING_PAGES_def)
    then have b: "pg_list stuck_state 0x10000 = Some (bin True proc1 1)"
      using pl_wf_mem [OF stuck_state_lists(1)] by simp
    have "cur_cool False (mm P) = NULL" "procs example_state pr = Some Q \<Longrightarrow> pr \<noteq> proc1 \<Longrightarrow> cur_cool f (mm Q) = NULL"
      for pr Q f
      using P by (auto simp: example_proc_defs cur_cool_def split: if_splits)
    then show ?thesis
      using b unfolding bookmarks_ok_def prs by (auto split: if_splits)
  qed
  ultimately show ?thesis
    using stuck_state_lists(1) by (simp add: ucm_inv_def)
qed

theorem cooling_never_advances_witness:
  "partial_cool_impl qos_build proc1 True stuck_state = Inr (0x10000, stuck_state)"
proof -
  obtain P0 where P0: "procs example_state proc1 = Some P0" "process_clock P0 = (\<lambda>_. 0)"
    "need_cool True (mm P0)"
    by (rule example_proc1)
  let ?P = "mm_update (set_cur_cool True 0x10000 1) P0"
  have P: "procs stuck_state proc1 = Some ?P"
    using P0(1) by (simp add: stuck_state_facts stuck_base_def)
  have "stuck_pages \<noteq> []"
    by (simp add: stuck_pages_def COOLING_PAGES_def)
  then obtain xs where xs: "stuck_pages = 0x10000 # xs"
    using stuck_pages_distinct(3) by (metis list.collapse)
  have lc: "local_clock (pages stuck_state p) = (\<lambda>_. 0)" for p
    by (simp add: stuck_state_facts stuck_base_def example_page_flags)
      (simp add: example_page_def hemem_page_alloc_def)
  then have "tier_clocks_ok ?P True proc1 stuck_state"
    using P0 by (simp add: tier_clocks_ok_def clocks_ok_def)
  moreover have st: "settled qos_build ?P stuck_state x" if "x \<in> set stuck_pages" for x
    using that stuck_page_bounds [OF that] P0(2) lc [of x]
    by (simp add: settled_def cooled_level_def cooled_def)
      (auto simp: stuck_state_facts stuck_base_def example_page_def access_to_index_def
        qos_build_def access_to_index_raw_eq bit_length.simps [of "Suc 0"] bit_length.simps [of 0] NUM_HOTNESS_LEVELS_def)
  have "\<forall>x \<in> set (rev xs @ [0x10000]). settled qos_build ?P stuck_state x"
    using st by (simp add: xs)
  moreover have "page_seq stuck_state (bin True proc1 1) = rev xs @ 0x10000 # []"
    by (simp add: stuck_state_lists xs)
  moreover have "COOLING_PAGES \<le> length (rev xs) + 1"
    using stuck_pages_distinct(2) unfolding xs by simp
  moreover have "cur_cool True (mm ?P) = 0x10000" "cur_cool_list True (mm ?P) = 1" "need_cool True (mm ?P)"
    using P0(3) by (simp_all add: cur_cool_def cur_cool_list_def set_cur_cool_def need_cool_def)
  ultimately show ?thesis
    using cooling_never_advances [OF stuck_state_inv P, of True "0x10000" 1 "rev xs" "[]" qos_build]
    by simp
qed

section \<open>Allocation\<close>

text \<open>
  C31: the allocator that prefers the fast tier takes the oldest page of the fast free list
  exactly when the process is below its quota and the list is not empty, and otherwise the
  oldest page of the slow free list; the page is marked present for the process, which is
  charged with its size, and no lock is left held. Without a page it returns null, and the
  lock of the process is left held.
\<close>

theorem fastmem_preferred_allocation:
  assumes "ucm_inv s" and "procs s pr = Some P" and "pr \<notin> held s"
  shows "allocate_fastmem_preferred pr s = Inr (NULL, s\<lparr>held := insert pr (held s)\<rparr>) \<and>
       (current_fastmem (mm P) < max_fastmem (mm P) \<longrightarrow> page_seq s Fastmem_Free = []) \<and>
       page_seq s Slowmem_Free = [] \<or>
     (\<exists>fast p s'. allocate_fastmem_preferred pr s = Inr (p, s') \<and> p \<noteq> NULL \<and> ucm_inv s' \<and>
       took fast pr P p s s' \<and>
       (fast \<longleftrightarrow> current_fastmem (mm P) < max_fastmem (mm P) \<and> page_seq s Fastmem_Free \<noteq> []))"
  using assms by (rule allocate_fastmem_preferred_ok)

theorem fastmem_preferred_allocation_witness:
  "\<exists>s'. allocate_fastmem_preferred proc1 example_state = Inr (1, s') \<and> ucm_inv s' \<and>
    page_seq s' Fastmem_Free = [] \<and> held s' = {} \<and> present (pages s' 1)"
proof -
  obtain P where P: "procs example_state proc1 = Some P" "current_fastmem (mm P) = 0x400000"
    "max_fastmem (mm P) = 0x600000"
    by (rule example_proc1)
  have h: "held example_state = {}" by (simp add: example_state_def)
  have l: "page_seq example_state Fastmem_Free = [1]" "page_seq example_state Slowmem_Free = [2]"
    by (simp_all add: example_lists_ok) (simp_all add: example_lists_def)
  obtain p s' where s': "allocate_fastmem_preferred proc1 example_state = Inr (p, s')" "ucm_inv s'"
    "took True proc1 P p example_state s'"
    using fastmem_preferred_allocation [OF example_inv P(1)] P(2,3) h l by auto
  moreover have "p = 1"
    using s'(3) l by (simp add: took_def)
  ultimately show ?thesis
    using l h by (auto simp: took_def taken_page_def)
qed

text \<open>
  C32: when both free lists are empty, both allocators return null with the lock of the
  process still held, so the next allocation for the process never gets the lock.
\<close>

theorem allocation_out_of_memory_deadlocks:
  assumes "ucm_inv s" and "procs s pr = Some P" and "pr \<notin> held s"
    and "page_seq s Fastmem_Free = []" and "page_seq s Slowmem_Free = []"
  shows "\<exists>s'. get_alloc_fn_by_mode mode pr s = Inr (NULL, s') \<and>
    get_alloc_fn_by_mode mode' pr s' = Inl Deadlock"
proof -
  let ?s = "s\<lparr>held := insert pr (held s)\<rparr>"
  have "\<not> took fast pr P p s s'" for fast p s'
    using assms(4,5) by (cases fast) (simp_all add: took_def)
  then have "get_alloc_fn_by_mode mode pr s = Inr (NULL, ?s)"
    using allocate_fastmem_preferred_ok [OF assms(1-3)] allocate_slowmem_preferred_ok [OF assms(1-3)]
    by (cases mode) auto
  moreover have "get_alloc_fn_by_mode mode' pr ?s = Inl Deadlock"
    by (cases mode') (simp_all add: allocate_fastmem_preferred_def allocate_slowmem_preferred_def
        lock_process_def)
  ultimately show ?thesis by blast
qed

definition oom_state :: ucm_state where
  "oom_state = example_state\<lparr>
     plists := example_heads(Fastmem_Free := empty_page_list, Slowmem_Free := empty_page_list),
     pg_list := (pg_list example_state)(1 := None, 2 := None)\<rparr>"

lemma oom_state_facts:
  "ucm_inv oom_state" "page_seq oom_state = example_lists(Fastmem_Free := [], Slowmem_Free := [])"
proof -
  have "is_plist oom_state q ((example_lists(Fastmem_Free := [], Slowmem_Free := [])) q)" for q
    by (simp add: is_plist_def oom_state_def example_state_def example_lists_def example_heads_def
        singleton_list_def empty_page_list_def)
  moreover have "pg_next oom_state p = NULL \<and> pg_prev oom_state p = NULL" for p
    by (simp add: oom_state_def example_state_def)
  ultimately have l: "pl_wf oom_state" "page_seq oom_state = example_lists(Fastmem_Free := [], Slowmem_Free := [])"
    by (rule pl_wfI; blast)+
  have "list_ok oom_state = list_ok example_state"
    by (rule list_ok_procs) (simp add: oom_state_def)
  then have "pages_ok oom_state"
    using example_inv by (auto simp: pages_ok_def ucm_inv_def) (auto simp: oom_state_def split: if_splits)
  moreover have "bookmarks_ok oom_state"
  proof (rule bookmarks_okI)
    show "bookmarks_ok example_state" using example_inv by (simp add: ucm_inv_def)
    show "\<exists>j. pg_list oom_state x = Some (bin f pr j)" if "pg_list example_state x = Some (bin f pr i)" for x f pr i
      using that by (auto simp: oom_state_def) (auto simp: example_state_def bin_def split: if_splits)
  qed (simp add: oom_state_def)
  ultimately show "ucm_inv oom_state" using l(1) by (simp add: ucm_inv_def)
  show "page_seq oom_state = example_lists(Fastmem_Free := [], Slowmem_Free := [])" by (rule l)
qed

theorem allocation_out_of_memory_deadlocks_witness:
  "\<exists>s'. get_alloc_fn_by_mode FASTMEM_PREFERRED proc1 oom_state = Inr (NULL, s') \<and>
    get_alloc_fn_by_mode FASTMEM_PREFERRED proc1 s' = Inl Deadlock"
proof -
  obtain P where "procs example_state proc1 = Some P" by (rule example_proc1)
  then have "procs oom_state proc1 = Some P" by (simp add: oom_state_def)
  moreover have "proc1 \<notin> held oom_state" by (simp add: oom_state_def example_state_def)
  ultimately show ?thesis
    using allocation_out_of_memory_deadlocks [OF oom_state_facts(1), where mode = FASTMEM_PREFERRED
        and mode' = FASTMEM_PREFERRED] by (simp add: oom_state_facts)
qed

end
