(* ===== verification/Qos.thy ===== *)
theory Qos
  imports Migration
begin

text \<open>
  The QoS policy (\<open>src/ucm/policy/qos.c\<close>) with the policy state of a process
  (\<open>src/ucm/policy/policy-state.c\<close>) and the process arrays it collects
  (\<open>src/ucm/ds/proc-array.c\<close>). Every epoch the policy drains the requests of each process,
  compares its miss ratio with its target, distributes a migration budget from processes
  below their target to processes above it, migrates, and cools.

  Ratios are the doubles of \<open>C_Double\<close>; \<open>int64_t\<close> values are integers, and conversions
  from 64-bit words read them with \<open>sint\<close>.
\<close>

section \<open>Arrays of processes\<close>

record process_array =
  pa_container :: "ptr list"
  pa_size :: u64
  pa_capacity :: u64

definition process_array_init :: "bool \<Rightarrow> u64 \<Rightarrow> process_array option" where
  "process_array_init calloc_ok capacity =
     (if \<not> calloc_ok then None
      else Some \<lparr>pa_container = replicate (unat capacity) NULL, pa_size = 0, pa_capacity = capacity\<rparr>)"

definition process_array_clear :: "process_array \<Rightarrow> process_array" where
  "process_array_clear arr = arr\<lparr>pa_size := 0\<rparr>"

definition process_array_append :: "process_array \<Rightarrow> ptr \<Rightarrow> (bool \<times> process_array) result" where
  "process_array_append arr p =
     (if pa_size arr \<ge> pa_capacity arr then Inr (False, arr)
      else check Out_Of_Bounds (unat (pa_size arr) < length (pa_container arr))
             (Inr (True, arr\<lparr>pa_container := (pa_container arr)[unat (pa_size arr) := p],
                             pa_size := pa_size arr + 1\<rparr>)))"

definition process_array_next :: "process_array \<Rightarrow> u64 \<Rightarrow> (ptr \<times> u64) result" where
  "process_array_next arr it_curr =
     (if it_curr \<ge> pa_size arr then Inr (NULL, it_curr)
      else check Out_Of_Bounds (unat it_curr < length (pa_container arr))
             (Inr (pa_container arr ! unat it_curr, it_curr + 1)))"

definition process_array_iter_init :: u64 where
  "process_array_iter_init = 0"

section \<open>The policy state of a process\<close>

definition process_policy_epoch_clear :: "nat \<Rightarrow> nat \<Rightarrow> process_policy \<Rightarrow> process_policy" where
  "process_policy_epoch_clear last_thread ncores po =
     po\<lparr>sample_count := (\<lambda>i. if last_thread < i \<and> i < ncores then 0 else sample_count po i)\<rparr>"

definition process_policy_calc_miss_ratio :: "config \<Rightarrow> process_policy \<Rightarrow> double result" where
  "process_policy_calc_miss_ratio cfg po =
     (let fast_tier_sampling_rate = (if CONFIG_CXL_TELEM cfg then PEBS_SAMPLE_PERIOD else 1);
          slow_tier_access = access_count po SLOWMEM;
          fast_tier_access = access_count po FASTMEM;
          miss_ratio = d_div (d_mul (Fin 1) (d_of_u64 slow_tier_access))
            (d_mul (Fin 1) (d_of_u64 (slow_tier_access + fast_tier_access * fast_tier_sampling_rate)))
      in assertC (d_le (Fin 0) miss_ratio \<and> d_le miss_ratio (Fin 1)) (Inr miss_ratio))"

definition EWMA_FRAC :: double where "EWMA_FRAC = Fin (1 / 2)"

definition update_process_miss_ratio :: "config \<Rightarrow> process_policy \<Rightarrow> double result" where
  "update_process_miss_ratio cfg po =
     (let curr_epoch_accesses = access_count po FASTMEM + access_count po SLOWMEM
      in if curr_epoch_accesses = 0 then Inr (Fin 0)
         else andThen (process_policy_calc_miss_ratio cfg po) (\<lambda>miss_ratio.
              if d_eq (current_miss_ratio po) (Fin (-1)) then Inr miss_ratio
              else Inr (d_add (d_mul EWMA_FRAC miss_ratio)
                     (d_mul (Fin (1 / 2)) (current_miss_ratio po)))))"

section \<open>The policy state\<close>

record qos_policy_state =
  enable_migration :: bool
  alloc_mode :: ALLOC_MODE
  per_process_migrate_share :: u64
  need_fastmem :: process_array
  take_fastmem :: process_array
  fastmem_demand_total :: double
  fastmem_supply_total :: double

definition MAX_PROCESSES :: u64 where "MAX_PROCESSES = 24"
definition QOS_NEED_MEMORY_THRESHOLD :: double where
  "QOS_NEED_MEMORY_THRESHOLD = round_double (105 / 100)"
definition QOS_TAKE_MEMORY_THRESHOLD :: double where
  "QOS_TAKE_MEMORY_THRESHOLD = round_double (95 / 100)"
definition QOS_DEVIATION_RATIO_MAX :: double where
  "QOS_DEVIATION_RATIO_MAX = Fin 100"

definition qos_policy_state_init :: "bool \<Rightarrow> bool \<Rightarrow> bool \<Rightarrow> bool \<Rightarrow> ALLOC_MODE \<Rightarrow> qos_policy_state option result" where
  "qos_policy_state_init state_ok need_ok take_ok migrate mode =
     (if \<not> state_ok then Inr None
      else case process_array_init need_ok MAX_PROCESSES of
             None \<Rightarrow> Inl Exit
           | Some need \<Rightarrow>
               (case process_array_init take_ok MAX_PROCESSES of
                  None \<Rightarrow> Inl Exit
                | Some tk \<Rightarrow> Inr (Some \<lparr>enable_migration = migrate, alloc_mode = mode,
                    per_process_migrate_share = 0, need_fastmem = need, take_fastmem = tk,
                    fastmem_demand_total = Fin 0, fastmem_supply_total = Fin 0\<rparr>)))"

definition qos_policy_init :: "bool \<Rightarrow> bool \<Rightarrow> bool \<Rightarrow> bool \<Rightarrow> ALLOC_MODE \<Rightarrow> qos_policy_state result" where
  "qos_policy_init state_ok need_ok take_ok migrate mode =
     andThen (qos_policy_state_init state_ok need_ok take_ok migrate mode) (\<lambda>st.
     case st of None \<Rightarrow> Inl Exit | Some q \<Rightarrow> Inr q)"

definition qos_allocate_page :: "qos_policy_state \<Rightarrow> candidate_fn" where
  "qos_allocate_page q process s = get_alloc_fn_by_mode (alloc_mode q) process s"

definition qos_find_demotion_candidate :: candidate_fn where
  "qos_find_demotion_candidate process s = find_coldest_fastmem_page process s"

definition qos_find_promotion_candidate :: candidate_fn where
  "qos_find_promotion_candidate process s = find_hottest_slowmem_page process s"

section \<open>Walking the processes\<close>

fun process_for_each :: "(ptr \<Rightarrow> 'a \<times> ucm_state \<Rightarrow> ('a \<times> ucm_state) result) \<Rightarrow> nat \<Rightarrow> ptr \<Rightarrow>
    'a \<times> ucm_state \<Rightarrow> ('a \<times> ucm_state) result" where
  "process_for_each body 0 iter st = Inl Out_Of_Fuel"
| "process_for_each body (Suc fuel) iter st =
     (if iter = NULL then Inr st
      else let nxt = pr_next (snd st) iter
           in andThen (get_proc iter (snd st)) (\<lambda>_.
              andThen (body iter st) (process_for_each body fuel nxt)))"

definition for_processes :: "(ptr \<Rightarrow> 'a \<times> ucm_state \<Rightarrow> ('a \<times> ucm_state) result) \<Rightarrow>
    'a \<times> ucm_state \<Rightarrow> ('a \<times> ucm_state) result" where
  "for_processes body st =
     process_for_each body (Suc (unat (pl_numentries (processes_list (snd st)))))
       (pl_first (processes_list (snd st))) st"

section \<open>Supply and demand\<close>

definition check_one_process :: "config \<Rightarrow> ptr \<Rightarrow> qos_policy_state \<times> ucm_state \<Rightarrow>
    (qos_policy_state \<times> ucm_state) result" where
  "check_one_process cfg process = (\<lambda>(q, s).
     andThen (lock_process process s) (\<lambda>s.
     andThen (mm_drain_async_requests cfg process s) (\<lambda>s.
     andThen (upd_policy process (fastmem_delta_update (\<lambda>_. 0)) s) (\<lambda>s.
     andThen (get_proc process s) (\<lambda>pr.
     andThen (update_process_miss_ratio cfg (policy pr)) (\<lambda>ratio.
     let target = target_miss_ratio s process; dev = d_div ratio target
     in andThen (upd_policy process (\<lambda>po. po\<lparr>current_miss_ratio := ratio,
                   access_count := (access_count po)(FASTMEM := 0, SLOWMEM := 0),
                   deviation_ratio := dev\<rparr>) s) (\<lambda>s.
        andThen
          (if d_less QOS_NEED_MEMORY_THRESHOLD dev
           then andThen (process_array_append (need_fastmem q) process) (\<lambda>(_, arr).
                let dev = d_min QOS_DEVIATION_RATIO_MAX dev
                in andThen (upd_policy process (deviation_ratio_update (\<lambda>_. dev)) s) (\<lambda>s.
                   Inr (q\<lparr>need_fastmem := arr,
                          fastmem_demand_total := d_add (fastmem_demand_total q) dev\<rparr>, s)))
           else if d_less dev QOS_TAKE_MEMORY_THRESHOLD
           then andThen (process_array_append (take_fastmem q) process) (\<lambda>(_, arr).
                let dev = d_min QOS_DEVIATION_RATIO_MAX (d_div target ratio)
                in andThen (upd_policy process (deviation_ratio_update (\<lambda>_. dev)) s) (\<lambda>s.
                   Inr (q\<lparr>take_fastmem := arr,
                          fastmem_supply_total := d_add (fastmem_supply_total q) dev\<rparr>, s)))
           else Inr (q, s))
          (\<lambda>(q, s). andThen (unlock_process process s) (\<lambda>s. Inr (q, s))))))))))"

definition check_mem_demand_supply :: "config \<Rightarrow> qos_policy_state \<times> ucm_state \<Rightarrow>
    (qos_policy_state \<times> ucm_state) result" where
  "check_mem_demand_supply cfg = (\<lambda>(q, s).
     for_processes (check_one_process cfg)
       (q\<lparr>take_fastmem := process_array_clear (take_fastmem q),
          need_fastmem := process_array_clear (need_fastmem q),
          fastmem_demand_total := Fin 0, fastmem_supply_total := Fin 0\<rparr>, s))"

section \<open>Budgets\<close>

text \<open>A share of a number of bytes, rounded down to whole pages in 64-bit arithmetic.\<close>

definition share_of :: "double \<Rightarrow> double \<Rightarrow> u64 \<Rightarrow> int result" where
  "share_of dev tot bytes =
     (let my_portion = d_div dev tot
      in andThen (d_to_int64 (d_mul my_portion (d_of_u64 bytes))) (\<lambda>delta.
         let w = word_of_int delta :: u64 in Inr (sint (w - w mod HUGEPAGE_SIZE))))"

text \<open>The loops over the arrays; an array has at most \<open>size\<close> elements to visit.\<close>

fun allocate_demotion_loop :: "nat \<Rightarrow> qos_policy_state \<Rightarrow> u64 \<Rightarrow> u64 \<Rightarrow> u64 \<Rightarrow> ucm_state \<Rightarrow>
    (u64 \<times> ucm_state) result" where
  "allocate_demotion_loop 0 q max_demotion_bytes it tot s = Inl Out_Of_Fuel"
| "allocate_demotion_loop (Suc fuel) q max_demotion_bytes it tot s =
     andThen (process_array_next (take_fastmem q) it) (\<lambda>(process, it).
     if process = NULL then Inr (tot, s)
     else if d_le (fastmem_supply_total q) (Fin 0)
     then andThen (upd_policy process (fastmem_delta_update (\<lambda>_. 0)) s)
            (allocate_demotion_loop fuel q max_demotion_bytes it tot)
     else andThen (get_proc process s) (\<lambda>pr.
          andThen (share_of (deviation_ratio (policy pr)) (fastmem_supply_total q)
                     max_demotion_bytes) (\<lambda>delta.
          let delta = min delta (sint (current_fastmem (mm pr)))
          in andThen (upd_policy process (fastmem_delta_update (\<lambda>_. - delta)) s)
               (allocate_demotion_loop fuel q max_demotion_bytes it (tot + word_of_int delta)))))"

definition allocate_demotion_budgets :: "qos_policy_state \<Rightarrow> u64 \<Rightarrow> ucm_state \<Rightarrow> (u64 \<times> ucm_state) result" where
  "allocate_demotion_budgets q max_demotion_bytes s =
     allocate_demotion_loop (Suc (unat (pa_size (take_fastmem q)))) q max_demotion_bytes
       process_array_iter_init 0 s"

fun allocate_promotion_loop :: "nat \<Rightarrow> qos_policy_state \<Rightarrow> u64 \<Rightarrow> u64 \<Rightarrow> ucm_state \<Rightarrow>
    ucm_state result" where
  "allocate_promotion_loop 0 q max_promotion_bytes it s = Inl Out_Of_Fuel"
| "allocate_promotion_loop (Suc fuel) q max_promotion_bytes it s =
     andThen (process_array_next (need_fastmem q) it) (\<lambda>(process, it).
     if process = NULL then Inr s
     else if d_le (fastmem_demand_total q) (Fin 0)
     then andThen (upd_policy process (fastmem_delta_update (\<lambda>_. 0)) s)
            (allocate_promotion_loop fuel q max_promotion_bytes it)
     else andThen (get_proc process s) (\<lambda>pr.
          andThen (share_of (deviation_ratio (policy pr)) (fastmem_demand_total q)
                     max_promotion_bytes) (\<lambda>delta.
          let delta = (if current_fastmem (mm pr) + word_of_int delta > mem_allocated (mm pr)
                       then max 0 (sint (mem_allocated (mm pr) - current_fastmem (mm pr)))
                       else delta)
          in andThen (upd_policy process (fastmem_delta_update (\<lambda>_. delta)) s)
               (allocate_promotion_loop fuel q max_promotion_bytes it))))"

definition allocate_promotion_budgets :: "qos_policy_state \<Rightarrow> u64 \<Rightarrow> ucm_state \<Rightarrow> ucm_state result" where
  "allocate_promotion_budgets q max_promotion_bytes s =
     allocate_promotion_loop (Suc (unat (pa_size (need_fastmem q)))) q max_promotion_bytes
       process_array_iter_init s"

definition allocate_migration_budget :: "qos_policy_state \<times> ucm_state \<Rightarrow>
    (qos_policy_state \<times> ucm_state) result" where
  "allocate_migration_budget = (\<lambda>(q, s).
     let interprocess_migrate = PEBS_MIGRATE_RATE div 2;
         intraprocess_migrate = PEBS_MIGRATE_RATE div 2;
         interprocess_migrate_one_way = interprocess_migrate div 2
     in andThen (allocate_demotion_budgets q interprocess_migrate_one_way s) (\<lambda>(tot, s).
        andThen (allocate_promotion_budgets q (tot + get_fastmem_free_size s) s) (\<lambda>s.
        let num_procs = (if pl_numentries (processes_list s) > 0
                         then pl_numentries (processes_list s) else 1)
        in Inr (q\<lparr>per_process_migrate_share := intraprocess_migrate div num_procs\<rparr>, s))))"

section \<open>Migration\<close>

fun swap_levels :: "nat list \<Rightarrow> int list \<Rightarrow> int \<Rightarrow> u64 \<Rightarrow> int list \<times> u64" where
  "swap_levels [] counts left bytes = (counts, bytes)"
| "swap_levels (j # js) counts left bytes =
     (if left \<le> 0 then (counts, bytes)
      else if counts ! j = 0 then swap_levels js counts left bytes
      else let pages_to_swap = min (counts ! j) left
           in swap_levels js (counts[j := counts ! j - pages_to_swap]) (left - pages_to_swap)
                (bytes + word_of_int pages_to_swap * HUGEPAGE_SIZE))"

fun swap_slow_levels :: "config \<Rightarrow> (nat \<Rightarrow> int) \<Rightarrow> nat list \<Rightarrow> int list \<Rightarrow> u64 \<Rightarrow> u64" where
  "swap_slow_levels cfg slow_counts [] counts bytes = bytes"
| "swap_slow_levels cfg slow_counts (i # is) counts bytes =
     (let left = slow_counts i
      in if left = 0 then swap_slow_levels cfg slow_counts is counts bytes
         else let max_fastmem_level = (if CONFIG_CXL_TELEM cfg then i - 2 else i);
                  (counts, bytes) = swap_levels [0..<max_fastmem_level] counts left bytes
              in swap_slow_levels cfg slow_counts is counts bytes)"

definition kMinSlowmemLevel :: nat where "kMinSlowmemLevel = 3"

definition calculate_intra_process_migration_bytes :: "config \<Rightarrow> ptr \<Rightarrow> ucm_state \<Rightarrow> u64" where
  "calculate_intra_process_migration_bytes cfg process s =
     swap_slow_levels cfg (\<lambda>i. sint (numentries (plists s (slowmem_lists process i))))
       (rev [kMinSlowmemLevel..<NUM_HOTNESS_LEVELS])
       (map (\<lambda>i. sint (numentries (plists s (fastmem_lists process i)))) [0..<NUM_HOTNESS_LEVELS]) 0"

definition set_process_migration_targets :: "config \<Rightarrow> ptr \<Rightarrow> qos_policy_state \<Rightarrow> ucm_state \<Rightarrow>
    ucm_state result" where
  "set_process_migration_targets cfg process q s =
     andThen (get_proc process s) (\<lambda>pr.
     let delta = fastmem_delta (policy pr)
     in if delta > 0
        then let free_pages_bytes = sint (get_fastmem_free_size s);
                 migrate_down = delta - free_pages_bytes
             in upd_policy process (\<lambda>po. po\<lparr>migration_up_bytes := word_of_int delta,
                  migration_down_bytes := (if migrate_down < 0 then 0 else word_of_int migrate_down)\<rparr>) s
        else if delta < 0
        then upd_policy process (\<lambda>po. po\<lparr>migration_up_bytes := 0,
               migration_down_bytes := word_of_int (- delta)\<rparr>) s
        else let migrate_down_bytes = calculate_intra_process_migration_bytes cfg process s;
                 one_way = per_process_migrate_share q div 2;
                 down = (if migrate_down_bytes < one_way then migrate_down_bytes else one_way)
             in upd_policy process (\<lambda>po. po\<lparr>migration_down_bytes := down,
                  migration_up_bytes := down\<rparr>) s)"

definition demote_process :: "config \<Rightarrow> ucm_env \<Rightarrow> ptr \<Rightarrow> qos_policy_state \<times> ucm_state \<Rightarrow>
    (qos_policy_state \<times> ucm_state) result" where
  "demote_process cfg env process = (\<lambda>(q, s).
     andThen (lock_process process s) (\<lambda>s.
     andThen (set_process_migration_targets cfg process q s) (\<lambda>s.
     andThen (get_proc process s) (\<lambda>pr.
     andThen (process_migrate_down_bytes cfg env qos_find_demotion_candidate process
                (migration_down_bytes (policy pr)) s) (\<lambda>(_, s).
     andThen (unlock_process process s) (\<lambda>s. Inr (q, s)))))))"

definition promote_process :: "config \<Rightarrow> ucm_env \<Rightarrow> ptr \<Rightarrow> qos_policy_state \<times> ucm_state \<Rightarrow>
    (qos_policy_state \<times> ucm_state) result" where
  "promote_process cfg env process = (\<lambda>(q, s).
     andThen (lock_process process s) (\<lambda>s.
     andThen (get_proc process s) (\<lambda>pr.
     andThen (process_migrate_up_bytes cfg env qos_find_promotion_candidate process
                (migration_up_bytes (policy pr)) s) (\<lambda>(_, s).
     andThen (unlock_process process s) (\<lambda>s. Inr (q, s))))))"

definition do_migration :: "config \<Rightarrow> ucm_env \<Rightarrow> qos_policy_state \<times> ucm_state \<Rightarrow>
    (qos_policy_state \<times> ucm_state) result" where
  "do_migration cfg env st =
     andThen (for_processes (demote_process cfg env) st)
       (for_processes (promote_process cfg env))"

definition cool_process :: "config \<Rightarrow> ptr \<Rightarrow> qos_policy_state \<times> ucm_state \<Rightarrow>
    (qos_policy_state \<times> ucm_state) result" where
  "cool_process cfg process = (\<lambda>(q, s).
     andThen (lock_process process s) (\<lambda>s.
     andThen (incremental_fastmem_cooling cfg process s) (\<lambda>(p, s).
     andThen (upd_mm process (cur_cool_in_fastmem_update (\<lambda>_. p)) s) (\<lambda>s.
     andThen (incremental_slowmem_cooling cfg process s) (\<lambda>(p, s).
     andThen (upd_mm process (cur_cool_in_slowmem_update (\<lambda>_. p)) s) (\<lambda>s.
     andThen (unlock_process process s) (\<lambda>s. Inr (q, s))))))))"

definition do_partial_cool :: "config \<Rightarrow> qos_policy_state \<times> ucm_state \<Rightarrow>
    (qos_policy_state \<times> ucm_state) result" where
  "do_partial_cool cfg st = for_processes (cool_process cfg) st"

definition qos_policy_epoch :: "config \<Rightarrow> ucm_env \<Rightarrow> qos_policy_state \<times> ucm_state \<Rightarrow>
    (qos_policy_state \<times> ucm_state) result" where
  "qos_policy_epoch cfg env st =
     andThen (check_mem_demand_supply cfg st) (\<lambda>st.
     andThen (if enable_migration (fst st)
              then andThen (allocate_migration_budget st) (do_migration cfg env)
              else Inr st)
       (do_partial_cool cfg))"

end
