(* ===== verification/Sys_Steps.thy ===== *)
theory Sys_Steps
  imports Sys_Inv Qos
begin

text \<open>
  The operations of the memory manager keep the invariant of \<open>Sys_Inv\<close>: cooling and
  cooling requests, draining, freeing and allocating pages.
\<close>

section \<open>Cooling requests\<close>

definition cool_room :: "pbuftype \<Rightarrow> ptr \<Rightarrow> ucm_state \<Rightarrow> bool" where
  "cool_room t pr s \<longleftrightarrow> (\<forall>P p. procs s pr = Some P \<longrightarrow> owner s p = Some pr \<longrightarrow>
     process_clock P t - local_clock (pages s p) t < 63)"

lemma word_succ_gap: "(a :: u64) - b < 63 \<Longrightarrow> a + 1 - b < 64"
proof -
  have "c + 1 < 64" if "c < 63" for c :: u64
    using that by (simp add: word_less_nat_alt unat_word_ariths)
  moreover have "a + 1 - b = (a - b) + 1" by simp
  ultimately show "a - b < 63 \<Longrightarrow> a + 1 - b < 64" by metis
qed

lemma sys_ok_clock:
  assumes inv: "sys_ok s" and P: "procs s pr = Some P" and room: "cool_room t pr s"
    and P': "P' = P\<lparr>process_clock := (process_clock P)(t := process_clock P t + 1), mm := mm P'\<rparr>"
      "mm P' = (mm P)\<lparr>need_cool_fastmem := a, need_cool_slowmem := b, cools := c\<rparr>"
    and s': "s' = s\<lparr>procs := (procs s)(pr \<mapsto> P'), cools_started := d\<rparr>"
  shows "kept pr s s'"
proof (rule kept_same_owners [OF sys_ok_same_owners [OF inv, where pr = pr and P = P and P' = P']])
  have pid: "pid P' = pid P" by (subst P'(1)) simp
  have ck: "process_clock P' = (process_clock P)(t := process_clock P t + 1)" by (subst P'(1)) simp
  have "ucm_inv (s\<lparr>procs := (procs s)(pr \<mapsto> P')\<rparr>)"
    by (rule ucm_inv_proc [OF _ P]) (use inv pid in \<open>simp_all add: sys_ok_def P'(2) cur_cool_def\<close>)
  then show "ucm_inv s'"
    by (rule ucm_inv_cong [THEN iffD2, rotated -1]) (simp_all add: s')
  show so: "same_owners s s'"
    using P by (auto simp: same_owners_def s' owner_def)
  show "same_registry s s'" by (simp add: same_registry_def s')
  show "procs s pr = Some P" by (rule P)
  show "procs s' = (procs s)(pr \<mapsto> P')" by (simp add: s')
  have ok: "proc_ok s pr P" using inv P by (simp add: sys_ok_def)
  have "clocks_ok P' (pages s p)" if "owner s p = Some pr" for p
    using ok room that P word_succ_gap [of "process_clock P t" "local_clock (pages s p) t"]
    by (cases t) (auto simp: proc_ok_def clocks_all_ok_def clocks_ok_def ck cool_room_def)
  then have "clocks_all_ok s' pr P'"
    using so by (simp add: clocks_all_ok_def same_owners_def s')
  moreover have "level_reqs_ok s' pr (mm P')"
    using ok proc_parts_mm(3) [of "mm P'" "mm P"]
    by (simp add: same_owners_reqs(2) [OF so] proc_ok_def P'(2))
  ultimately show "proc_keeps s' pr P P'"
    using pid by (simp add: proc_keeps_def P'(2))
  show "pid P' = pid P" by (rule pid)
  show "same_owners s s'" by (rule so)
qed (simp_all add: s' P same_registry_def)

lemma cool_request_ok:
  assumes inv: "sys_ok s" and P: "procs s pr = Some P"
  shows "cool_room SLOWMEM pr s \<Longrightarrow> \<exists>s'. proc_cool_slowmem_async pr force s = Inr s' \<and> kept pr s s'"
    and "cool_room FASTMEM pr s \<Longrightarrow> \<exists>s'. proc_cool_fastmem_async pr force s = Inr s' \<and> kept pr s s'"
proof -
  let ?P = "\<lambda>t a b. P\<lparr>process_clock := (process_clock P)(t := process_clock P t + 1),
    mm := (mm P)\<lparr>need_cool_fastmem := a, need_cool_slowmem := b, cools := cools (mm P) + 1\<rparr>\<rparr>"
  have step: "cool_room t pr s \<Longrightarrow> kept pr s (s\<lparr>procs := (procs s)(pr \<mapsto> ?P t a b), cools_started := d\<rparr>)" for t a b d
    by (rule sys_ok_clock [OF inv P, where P' = "?P t a b"]) simp_all
  have f: "?P t a (need_cool_slowmem (mm P)) = P\<lparr>process_clock := (process_clock P)(t := process_clock P t + 1),
      mm := (mm P)\<lparr>need_cool_fastmem := a, cools := cools (mm P) + 1\<rparr>\<rparr>" for t a
    by (cases P, cases "mm P") simp
  have g: "?P t (need_cool_fastmem (mm P)) b = P\<lparr>process_clock := (process_clock P)(t := process_clock P t + 1),
      mm := (mm P)\<lparr>need_cool_slowmem := b, cools := cools (mm P) + 1\<rparr>\<rparr>" for t b
    by (cases P, cases "mm P") simp
  show "cool_room SLOWMEM pr s \<Longrightarrow> \<exists>s'. proc_cool_slowmem_async pr force s = Inr s' \<and> kept pr s s'"
    using P kept_refl [OF inv P] step [where t = SLOWMEM and a = "need_cool_fastmem (mm P)" and b = True] unfolding g
    by (simp add: proc_cool_slowmem_async_def)
  show "cool_room FASTMEM pr s \<Longrightarrow> \<exists>s'. proc_cool_fastmem_async pr force s = Inr s' \<and> kept pr s s'"
    using P kept_refl [OF inv P] step [where t = FASTMEM and a = True and b = "need_cool_slowmem (mm P)"] unfolding f
    by (simp add: proc_cool_fastmem_async_def)
qed

section \<open>Cooling\<close>

lemma cool_step_keeps:
  assumes "cool_step P P'"
  shows "pages_table (mm P') = pages_table (mm P)" "cxl_offset_to_page (mm P') = cxl_offset_to_page (mm P)"
  using assms by (auto simp: cool_step_def)

lemma cooled_to_owners:
  assumes "cooled_to cfg P fast pr s s'"
  shows "owner s' = owner s" and "page_id (pages s' x) = page_id (pages s x)"
    and "(pg_list s' x = None) = (pg_list s x = None)"
    and "owner s x = Some c \<Longrightarrow> c \<noteq> pr \<Longrightarrow> pages s' x = pages s x"
proof -
  have c: "(pages s' x = pages s x \<and> pg_list s' x = pg_list s x) \<or>
     (\<exists>i j. pg_list s x = Some (bin fast pr i) \<and> pg_list s' x = Some (bin fast pr j) \<and>
      pages s' x = (pages s x)\<lparr>hot := j\<rparr>)" for x
    using assms unfolding cooled_to_def on_tier_def by blast
  show "owner s' = owner s"
  proof
    fix x show "owner s' x = owner s x"
      using c [of x] by (elim disjE exE conjE) (simp_all add: owner_def bin_def)
  qed
  show "page_id (pages s' x) = page_id (pages s x)" "(pg_list s' x = None) = (pg_list s x = None)"
    using c [of x] by (auto simp: page_id_def)
  show "pages s' x = pages s x" if "owner s x = Some c" "c \<noteq> pr"
    using c [of x] that by auto
qed

lemma clocks_tier:
  assumes "sys_ok s" and "procs s pr = Some P"
  shows "tier_clocks_ok P fast pr s"
proof -
  have "clocks_all_ok s pr P" using assms by (simp add: sys_ok_def proc_ok_def)
  then show ?thesis by (auto simp: clocks_all_ok_def tier_clocks_ok_def on_tier_def owner_eq)
qed

lemma tier_cool_ok:
  assumes inv: "sys_ok s" and P: "procs s pr = Some P"
  shows "\<exists>c s' P'. partial_cool_impl cfg pr fast s = Inr (c, s') \<and> kept pr s s' \<and> owner s' = owner s \<and>
    procs s' = (procs s)(pr \<mapsto> P') \<and> (c \<noteq> NULL \<longrightarrow> on_tier fast pr s' c)"
proof -
  have u: "ucm_inv s" using inv by (simp add: sys_ok_def)
  obtain c s' P' where r: "partial_cool_impl cfg pr fast s = Inr (c, s')" "ucm_inv s'" "mm_step s s'"
    "cooled_to cfg P fast pr s s'" "c \<noteq> NULL \<longrightarrow> on_tier fast pr s' c"
    "procs s' = (procs s)(pr \<mapsto> P')" "cool_step P P'"
    using partial_cool_impl_ok [OF u P clocks_tier [OF inv P], where fast = fast and cfg = cfg]
    by (auto simp: cool_result_def)
  note ow = cooled_to_owners [OF r(4)]
  have ok: "proc_ok s pr P" using inv P by (simp add: sys_ok_def)
  have st: "pa_to_proc_map s' = pa_to_proc_map s" "held s' = held s"
    using r(3) by (auto simp: mm_step_def)
  have so: "same_owners s s'"
    using P mm_step_registry [OF r(3)] ow r(6) st by (auto simp: same_owners_def same_registry_def)
  have "sys_ok s'"
  proof (rule sys_ok_same_owners [OF inv r(2) so mm_step_registry [OF r(3)] P r(6)])
    have "level_reqs_ok s' pr (mm P')"
      using ok proc_parts_mm(3) [of "mm P'" "mm P"] cool_step_frame [OF r(7)]
      by (simp add: same_owners_reqs(2) [OF so(1)] proc_ok_def)
    moreover have "clocks_ok P' (pages s' x)" if "owner s' x = Some pr" for x
      using ok that clock_cong(1) [OF cool_step_frame(2) [OF r(7)]] cooled_to_bin(2) [OF r(4)] ow(1)
      by (simp add: proc_ok_def clocks_all_ok_def)
    ultimately show "proc_keeps s' pr P P'"
      using cool_step_frame [OF r(7)] cool_step_keeps [OF r(7)] by (simp add: proc_keeps_def clocks_all_ok_def)
  qed (use ow(4) in blast)
  then have "kept pr s s'"
    using st(2) mm_step_registry [OF r(3)] _ so P r(6) cool_step_frame(1) [OF r(7)]
    by (rule kept_same_owners) (use r(3) in \<open>auto simp: mm_step_def\<close>)
  then show ?thesis using r ow(1) by blast
qed

text \<open>The caller stores the page the walk returns as the bookmark.\<close>

definition set_cool_ptr :: "bool \<Rightarrow> ptr \<Rightarrow> process_mem \<Rightarrow> process_mem" where
  "set_cool_ptr fast c m = (if fast then m\<lparr>cur_cool_in_fastmem := c\<rparr> else m\<lparr>cur_cool_in_slowmem := c\<rparr>)"

lemma set_cool_ptr_frame [simp]:
  "cur_cool f (set_cool_ptr fast c m) = (if f = fast then c else cur_cool f m)"
  "pages_table (set_cool_ptr fast c m) = pages_table m"
  "cxl_offset_to_page (set_cool_ptr fast c m) = cxl_offset_to_page m"
  "free_page_ring (set_cool_ptr fast c m) = free_page_ring m"
  "hot_ring (set_cool_ptr fast c m) = hot_ring m"
  "cold_ring (set_cool_ptr fast c m) = cold_ring m"
  by (simp_all add: set_cool_ptr_def cur_cool_def)

lemma bookmark_ok:
  assumes inv: "sys_ok s" and P: "procs s pr = Some P" and c: "c \<noteq> NULL \<longrightarrow> on_tier fast pr s c"
  shows "kept pr s (s\<lparr>procs := (procs s)(pr \<mapsto> mm_update (set_cool_ptr fast c) P)\<rparr>)" (is "kept pr s ?s")
proof (rule kept_same_owners [OF sys_ok_same_owners [OF inv _ _ _ P, where s' = ?s] _ _ _ _ P, where P' = "mm_update (set_cool_ptr fast c) P"])
  have u: "ucm_inv s" using inv by (simp add: sys_ok_def)
  show "ucm_inv ?s"
    by (rule ucm_inv_bookmark [OF u P])
      (use c bookmark_on_tier [OF u P] in \<open>auto split: if_splits\<close>)
  show so: "same_owners s ?s" "same_owners s ?s" using P by (auto simp: same_owners_def owner_def)
  have ok: "proc_ok s pr P" using inv P by (simp add: sys_ok_def)
  have "level_reqs_ok ?s pr (mm (mm_update (set_cool_ptr fast c) P))"
    using ok proc_parts_mm(3) [of "set_cool_ptr fast c (mm P)" "mm P"]
    by (simp add: same_owners_reqs(2) [OF so(1)] proc_ok_def)
  moreover have "clocks_all_ok ?s pr (mm_update (set_cool_ptr fast c) P)"
    using ok so(1) by (simp add: proc_ok_def clocks_all_ok_def clocks_ok_def same_owners_def)
  ultimately show "proc_keeps ?s pr P (mm_update (set_cool_ptr fast c) P)"
    by (simp add: proc_keeps_def)
qed (simp_all add: same_registry_def)

lemma cool_tier_ok:
  assumes inv: "sys_ok s" and P: "procs s pr = Some P"
  shows "\<exists>c s1 s' P'. partial_cool_impl cfg pr fast s = Inr (c, s1) \<and>
    upd_mm pr (set_cool_ptr fast c) s1 = Inr s' \<and> kept pr s s' \<and> owner s' = owner s \<and>
    procs s' = (procs s)(pr \<mapsto> P')"
proof -
  obtain c s1 P1 where 1: "partial_cool_impl cfg pr fast s = Inr (c, s1)" "kept pr s s1" "owner s1 = owner s"
    "procs s1 = (procs s)(pr \<mapsto> P1)" "c \<noteq> NULL \<longrightarrow> on_tier fast pr s1 c"
    using tier_cool_ok [OF inv P, of cfg fast] by blast
  have "procs s1 pr = Some P1" using 1(4) by simp
  note b = kept_trans [OF 1(2) bookmark_ok [OF keptD(1) [OF 1(2)] this 1(5)]]
  show ?thesis
    using 1 b by (intro exI [of _ c] exI [of _ s1]
        exI [of _ "s1\<lparr>procs := (procs s1)(pr \<mapsto> mm_update (set_cool_ptr fast c) P1)\<rparr>"]
        exI [of _ "mm_update (set_cool_ptr fast c) P1"]) (simp add: owner_def fun_eq_iff)
qed

lemma cool_process_ok:
  assumes inv: "sys_inv s" and P: "procs s pr = Some P"
  shows "\<exists>s'. cool_process cfg pr (q, s) = Inr (q, s') \<and> kept pr s s' \<and> owner s' = owner s"
proof -
  let ?s = "s\<lparr>held := {pr}\<rparr>"
  have i: "sys_ok ?s" "procs ?s pr = Some P" and h: "held s = {}"
    using inv P by (simp_all add: sys_inv_def)
  obtain c s1 s2 P1 where 1: "partial_cool_impl cfg pr True ?s = Inr (c, s1)"
    "upd_mm pr (set_cool_ptr True c) s1 = Inr s2" "kept pr ?s s2" "owner s2 = owner ?s"
    "procs s2 = (procs ?s)(pr \<mapsto> P1)"
    using cool_tier_ok [OF i, of cfg True] by blast
  then have P1: "procs s2 pr = Some P1" by simp
  obtain d s3 s4 P2 where 2: "partial_cool_impl cfg pr False s2 = Inr (d, s3)"
    "upd_mm pr (set_cool_ptr False d) s3 = Inr s4" "kept pr s2 s4" "owner s4 = owner s2"
    "procs s4 = (procs s2)(pr \<mapsto> P2)"
    using cool_tier_ok [OF keptD(1) [OF 1(3)] P1, of cfg False] by blast
  have p: "set_cool_ptr True c = cur_cool_in_fastmem_update (\<lambda>_. c)"
    "set_cool_ptr False d = cur_cool_in_slowmem_update (\<lambda>_. d)"
    by (simp_all add: set_cool_ptr_def fun_eq_iff)
  have hs0: "s\<lparr>held := {}\<rparr> = s" by (simp flip: h)
  have k: "kept pr ?s s4" using 1(3) 2(3) by (rule kept_trans) (use 1(4) in simp)
  have hs: "held s2 = {pr}" "held s4 = {pr}" using keptD(2) [OF 1(3)] keptD(2) [OF 2(3)] by simp_all
  have ow: "owner (s4\<lparr>held := {}\<rparr>) = owner s" using 1(4) 2(4) by (simp add: owner_def fun_eq_iff)
  have "cool_process cfg pr (q, s) = Inr (q, s4\<lparr>held := {}\<rparr>)"
    using 1 2 h hs by (simp add: cool_process_def lock_process_def unlock_process_def p
        incremental_fastmem_cooling_def incremental_slowmem_cooling_def)
  then show ?thesis
    using k ow kept_held [where s = s and s' = s4 and h = "{}" and pr = pr] hs(2) hs0
    by (intro exI [of _ "s4\<lparr>held := {}\<rparr>"]) simp
qed

section \<open>Draining\<close>

lemma served_owners:
  assumes sv: "served cfg pr ps s s'" and rd: "\<forall>p \<in> set ps. level_ready pr s p"
  shows "owner s' = owner s" and "page_id (pages s' x) = page_id (pages s x)"
    and "(pg_list s' x = None) = (pg_list s x = None)"
    and "owner s x \<noteq> Some pr \<Longrightarrow> pages s' x = pages s x"
    and "local_clock (pages s' x) = local_clock (pages s x)"
proof -
  obtain P where P: "pages s' = (\<lambda>p. if p \<in> set ps \<and> present (pages s p)
      then served_page cfg P (pages s p) else pages s p)"
    "pg_list s' = (\<lambda>p. if p \<in> set ps \<and> present (pages s p)
      then Some (bin (in_dram (pages s p)) pr (cooled_level cfg P (pages s p))) else pg_list s p)"
    using sv unfolding served_def by blast
  have c: "(pages s' x = pages s x \<and> pg_list s' x = pg_list s x) \<or>
     (\<exists>f i j. pg_list s x = Some (bin f pr i) \<and> pg_list s' x = Some (bin (in_dram (pages s x)) pr j) \<and>
      pages s' x = served_page cfg P (pages s x))" for x
    using rd by (auto simp: P level_ready_def)
  show "owner s' = owner s"
  proof
    fix x show "owner s' x = owner s x"
      using c [of x] by (elim disjE exE conjE) (simp_all add: owner_def bin_def)
  qed
  show "page_id (pages s' x) = page_id (pages s x)" "(pg_list s' x = None) = (pg_list s x = None)"
    "local_clock (pages s' x) = local_clock (pages s x)"
    using c [of x] by (auto simp: page_id_def served_page_def)
  show "pages s' x = pages s x" if "owner s x \<noteq> Some pr"
    using c [of x] that by auto
qed

lemma requests_ok_sys:
  assumes inv: "sys_ok s" and P: "procs s pr = Some P"
  shows "requests_ok pr s"
proof -
  have u: "ucm_inv s" and ok: "proc_ok s pr P" using inv P by (simp_all add: sys_ok_def)
  have "level_ready pr s p" if o: "owner s p = Some pr" for p
    by (rule owner_proc [OF u o])
      (use ok P o in \<open>auto simp: level_ready_def owner_eq proc_ok_def clocks_all_ok_def\<close>)
  then show ?thesis
    using ok P by (auto simp: requests_ok_def free_ring_ok_def proc_ok_def free_reqs_ok_def
        level_reqs_ok_def owner_eq)
qed

text \<open>What draining does to the pages: those in the free ring lose their owner.\<close>

lemma drain_owners:
  assumes inv: "sys_ok s" and P: "procs s pr = Some P" and d: "drain_run cfg pr P s d s'"
  shows "owner s' x = (if x \<in> set (ring_list (free_page_ring (mm P))) then None else owner s x)"
    and "x \<notin> set (ring_list (free_page_ring (mm P))) \<Longrightarrow> page_id (pages s' x) = page_id (pages s x)"
    and "x \<in> set (ring_list (free_page_ring (mm P))) \<Longrightarrow> page_id (pages s' x) = page_id (freed_page (pages s x))"
    and "(pg_list s' x = None) = (pg_list s x = None)"
    and "owner s x \<noteq> Some pr \<Longrightarrow> pages s' x = pages s x"
    and "local_clock (pages s' x) = local_clock (pages s x)"
proof -
  note r = drain_runD [OF d]
  let ?t = "after_free d" and ?u = "after_hot d" and ?fs = "ring_list (free_page_ring (mm P))"
  have t: "pg_list ?t = (\<lambda>p. if p \<in> set ?fs then Some (tier_free (in_dram (pages s p))) else pg_list s p)"
    "pages ?t = (\<lambda>p. if p \<in> set ?fs then freed_page (pages s p) else pages s p)"
    using r(3) unfolding drained_def by blast+
  have fs: "owner s x = Some pr \<and> in_free_ring (pages s x)" if "x \<in> set ?fs" for x
    using inv P that by (auto simp: sys_ok_def proc_ok_def free_reqs_ok_def)
  have 1: "\<forall>p \<in> set (take (hot_served d) (ring_list (hot_ring (mm P)))). level_ready pr ?t p"
    using r(6) by (auto dest: in_set_takeD)
  have 2: "\<forall>p \<in> set (take (cold_served d) (ring_list (cold_ring (mm P)))). level_ready pr ?u p"
    using r(6) served_ready [OF r(7)] by (auto dest: in_set_takeD)
  note h = served_owners [OF r(7) 1] and c = served_owners [OF r(8) 2]
  have o: "owner ?t x = (if x \<in> set ?fs then None else owner s x)" for x
    using t(1) by (simp add: owner_def tier_free_def)
  show "owner s' x = (if x \<in> set ?fs then None else owner s x)"
    by (simp add: c(1) h(1) o)
  show "page_id (pages s' x) = page_id (pages s x)" if "x \<notin> set ?fs"
    using that by (simp add: c(2) h(2) t(2))
  show "page_id (pages s' x) = page_id (freed_page (pages s x))" if "x \<in> set ?fs"
    using that by (simp add: c(2) h(2) t(2))
  show "(pg_list s' x = None) = (pg_list s x = None)"
    using fs [of x] by (auto simp: c(3) h(3) t(1) owner_eq)
  show "pages s' x = pages s x" if "owner s x \<noteq> Some pr"
    using that fs [of x] c(4) [of x] h(4) [of x] by (auto simp: h(1) o t(2))
  show "local_clock (pages s' x) = local_clock (pages s x)"
    by (simp add: c(5) h(5) t(2) freed_page_def reset_page_stats_def)
qed

lemma drain_proc:
  assumes P: "procs s pr = Some P" and d: "drain_run cfg pr P s d s'"
  shows "mm_step s s'" and "procs s' = (procs s)(pr \<mapsto> proc_end d)" and "pid (proc_end d) = pid P"
    and "process_clock (proc_end d) = process_clock P"
    and "pages_table (mm (proc_end d)) = pages_table (mm P)"
    and "cxl_offset_to_page (mm (proc_end d)) = cxl_offset_to_page (mm P)"
proof -
  note r = drain_runD [OF d]
  obtain P1 where 1: "mm_step s (after_free d)" "procs (after_free d) = (procs s)(pr \<mapsto> P1)" "pid P1 = pid P"
    "process_clock P1 = process_clock P" "pages_table (mm P1) = pages_table (mm P)"
    "cxl_offset_to_page (mm P1) = cxl_offset_to_page (mm P)"
    using r(3) P by (auto simp: drained_def drained_proc_def)
  obtain P2 where 2: "mm_step (after_free d) (after_hot d)" "procs (after_hot d) = (procs s)(pr \<mapsto> P2)" "pid P2 = pid P1"
    "process_clock P2 = process_clock P1" "pages_table (mm P2) = pages_table (mm P1)"
    "cxl_offset_to_page (mm P2) = cxl_offset_to_page (mm P1)"
    using r(7) 1(2) by (auto simp: served_def ring_step_def)
  obtain P3 where 3: "mm_step (after_hot d) s'" "procs s' = (procs s)(pr \<mapsto> P3)" "pid P3 = pid P2"
    "process_clock P3 = process_clock P2" "pages_table (mm P3) = pages_table (mm P2)"
    "cxl_offset_to_page (mm P3) = cxl_offset_to_page (mm P2)"
    using r(8) 2(2) by (auto simp: served_def ring_step_def)
  have "P3 = proc_end d" using r(9) 3(2) by simp
  then show "mm_step s s'" "procs s' = (procs s)(pr \<mapsto> proc_end d)" "pid (proc_end d) = pid P"
    "process_clock (proc_end d) = process_clock P" "pages_table (mm (proc_end d)) = pages_table (mm P)"
    "cxl_offset_to_page (mm (proc_end d)) = cxl_offset_to_page (mm P)"
    using 1 2 3 by (auto intro: mm_step_trans)
qed

definition rings_short :: "hemem_process \<Rightarrow> bool" where
  "rings_short P \<longleftrightarrow> length (ring_list (hot_ring (mm P))) \<le> HOT_RING_REQS_THRESHOLD \<and>
     length (ring_list (cold_ring (mm P))) \<le> COLD_RING_REQS_THRESHOLD"

lemma drain_keeps:
  assumes inv: "sys_ok s" and P: "procs s pr = Some P" and short: "rings_short P"
    and d: "drain_run cfg pr P s d s'"
  shows "sys_ok s'"
proof (rule sys_ok_local [OF inv _ _ _ _ _ P drain_proc(2,3) [OF P d]])
  note r = drain_runD [OF d] and o = drain_owners [OF inv P d] and p = drain_proc [OF P d]
  let ?Q = "proc_end d" and ?fs = "ring_list (free_page_ring (mm P))"
  have ok: "proc_ok s pr P" and pm: "pa_map_ok s" and fo: "frames_ok s"
    using inv P by (simp_all add: sys_ok_def)
  have st: "pa_to_proc_map s' = pa_to_proc_map s" "fastmem_sz s' = fastmem_sz s" "slowmem_sz s' = slowmem_sz s"
    using p(1) by (auto simp: mm_step_def)
  show "ucm_inv s'" by (rule r(2))
  show "same_registry s s'" by (rule mm_step_registry [OF p(1)])
  have fs: "x \<in> set ?fs \<longleftrightarrow> owner s x = Some pr \<and> in_free_ring (pages s x)" for x
    using ok by (auto simp: proc_ok_def free_reqs_ok_def)
  have fld: "va (pages s' x) = va (pages s x)" "devdax_offset (pages s' x) = devdax_offset (pages s x)"
    "in_dram (pages s' x) = in_dram (pages s x)" "pt (pages s' x) = pt (pages s x)"
    "pa_proc_entry (pages s' x) = pa_proc_entry (pages s x)" "remap_lock (pages s' x) = remap_lock (pages s x)" for x
    using o(2,3) [of x] by (cases "x \<in> set ?fs"; simp add: page_id_eq freed_page_def reset_page_stats_def)+
  have fr: "in_free_ring (pages s' x) \<longleftrightarrow> x \<notin> set ?fs \<and> in_free_ring (pages s x)" for x
    using o(2,3) [of x] by (cases "x \<in> set ?fs"; simp add: page_id_eq freed_page_def)
  have m: "mapped s' c = mapped s c" "slow_mapped s' c = slow_mapped s c" for c
    using fs o(1) fr fld by (auto simp: mapped_def slow_mapped_def)
  show "frames_ok s'"
    using fo o(4) fld(2-4) st(2,3) by (rule frames_ok_cong)
  have "pa_key s' = pa_key s" by (simp add: fun_eq_iff pa_key_def fld)
  then show "pa_map_ok s'" using pm by (simp add: pa_map_ok_def st m fld)
  show "pages_idle s'"
    using inv o(1) by (simp add: sys_ok_def pages_idle_def fld split: if_splits)
  show "others_kept pr s s'"
    using o(1,5) fs by (auto simp: others_kept_def)
  show "\<not> in_free_ring (pages s' x)" if "owner s' x = None" for x
    using that o(1) [of x] fr [of x] inv by (auto simp: sys_ok_def split: if_splits)
  have "tables_ok s' pr (mm ?Q)"
    using ok m p(5,6) by (simp add: proc_ok_def tables_ok_def fld)
  moreover have "ring_wf (free_page_ring (mm ?Q))" "ring_list (free_page_ring (mm ?Q)) = []"
    using r(4,5,14) by (auto simp: free_ring_ok_def)
  then have "free_reqs_ok s' pr (mm ?Q)"
    using o(1) fr fs by (auto simp: free_reqs_ok_def split: if_splits)
  moreover have "level_reqs_ok s' pr (mm ?Q)"
    using r(10-13) drain_run_all [OF d] short by (simp add: level_reqs_ok_def rings_short_def)
  moreover have "clocks_all_ok s' pr ?Q"
    using ok o(1,6) p(4) by (auto simp: proc_ok_def clocks_all_ok_def clocks_ok_def split: if_splits)
  ultimately show "proc_ok s' pr ?Q" by (simp add: proc_ok_def)
qed

lemma drain_sys_ok:
  assumes inv: "sys_ok s" and P: "procs s pr = Some P" and short: "rings_short P"
  obtains d s' where "drain_run cfg pr P s d s'" "kept pr s s'"
    "mm_drain_async_requests cfg pr s = Inr s'"
proof -
  obtain d s' where d: "drain_run cfg pr P s d s'"
    using mm_drain_run [OF _ requests_ok_sys [OF inv P] P, of cfg] inv by (auto simp: sys_ok_def)
  note st = drain_proc [OF P d] and o = drain_owners [OF inv P d]
  have "devdax_offset (pages s' x) = devdax_offset (pages s x)" "in_dram (pages s' x) = in_dram (pages s x)" for x
    using o(2,3) [of x]
    by (cases "x \<in> set (ring_list (free_page_ring (mm P)))"; simp add: page_id_eq freed_page_def reset_page_stats_def)+
  then have "kept pr s s'"
    using drain_keeps [OF inv P short d] mm_step_registry [OF st(1)] P st
    by (intro kept_quiet [where P' = "proc_end d"]) (auto simp: mm_step_def listed_def o(4))
  then show thesis using that d drain_runD(1) [OF d] by blast
qed

end
