(* ===== verification/Sys_Alloc.thy ===== *)
theory Sys_Alloc
  imports Sys_Steps
begin

text \<open>
  Handing a page to the free ring (\<open>mm_remove_page\<close>) and allocating one
  (\<open>ucm_allocate_one\<close>): the page leaves or enters the tables of its process, and the
  invariant of \<open>Sys_Inv\<close> holds again.
\<close>

section \<open>Freeing a page\<close>

text \<open>The page and the process after a free request.\<close>

definition unmapped_page :: "hemem_page \<Rightarrow> hemem_page" where
  "unmapped_page pg = pg\<lparr>pa_proc_entry := (if in_dram pg then pa_proc_entry pg else zero_entry),
     in_free_ring := True\<rparr>"

definition unmapped_proc :: "bool \<Rightarrow> ptr \<Rightarrow> ring_buf_t \<Rightarrow> hemem_process \<Rightarrow> hemem_process" where
  "unmapped_proc fast p r P = mm_update (\<lambda>m. m\<lparr>pages_table := tab_del p (pages_table m),
     cxl_offset_to_page := (if fast then cxl_offset_to_page m else tab_del p (cxl_offset_to_page m)),
     free_page_ring := r\<rparr>) P"

definition unmap :: "ptr \<Rightarrow> ptr \<Rightarrow> hemem_process \<Rightarrow> ring_buf_t \<Rightarrow> ucm_state \<Rightarrow> ucm_state" where
  "unmap pr p P r s = s\<lparr>
     pa_to_proc_map := (if in_dram (pages s p) then pa_to_proc_map s else tab_del p (pa_to_proc_map s)),
     pages := (pages s)(p := unmapped_page (pages s p)),
     procs := (procs s)(pr \<mapsto> unmapped_proc (in_dram (pages s p)) p r P),
     free_ring_requests := free_ring_requests s + 1\<rparr>"

lemma unmap_simps [simp]:
  "pages (unmap pr p P r s) = (pages s)(p := unmapped_page (pages s p))"
  "procs (unmap pr p P r s) = (procs s)(pr \<mapsto> unmapped_proc (in_dram (pages s p)) p r P)"
  "pg_next (unmap pr p P r s) = pg_next s" "pg_prev (unmap pr p P r s) = pg_prev s"
  "pg_list (unmap pr p P r s) = pg_list s" "plists (unmap pr p P r s) = plists s"
  "held (unmap pr p P r s) = held s" "owner (unmap pr p P r s) = owner s"
  "same_registry s (unmap pr p P r s)"
  by (simp_all add: unmap_def owner_def fun_eq_iff same_registry_def)

lemma mapped_page:
  assumes inv: "sys_ok s" and P: "procs s pr = Some P" and p: "p \<in> mapped s pr"
  shows "p \<noteq> NULL" and "owner s p = Some pr" and "\<not> in_free_ring (pages s p)"
    and "p \<in> tab_elems (pages_table (mm P))"
    and "\<not> in_dram (pages s p) \<Longrightarrow> p \<in> tab_elems (cxl_offset_to_page (mm P))"
    and "\<not> in_dram (pages s p) \<Longrightarrow> p \<in> tab_elems (pa_to_proc_map s)"
    and "ppe_used (pa_proc_entry (pages s p)) \<longleftrightarrow> \<not> in_dram (pages s p)"
proof -
  show o: "owner s p = Some pr" "\<not> in_free_ring (pages s p)" using p by (simp_all add: mapped_def)
  show "p \<noteq> NULL" using inv o(1) by (auto simp: sys_ok_def elim: owner_proc)
  have ok: "proc_ok s pr P" "pa_map_ok s" using inv P by (simp_all add: sys_ok_def)
  show "p \<in> tab_elems (pages_table (mm P))"
    using ok p by (simp add: proc_ok_def tables_ok_def)
  show "\<not> in_dram (pages s p) \<Longrightarrow> p \<in> tab_elems (cxl_offset_to_page (mm P))"
    using ok p by (simp add: proc_ok_def tables_ok_def slow_mapped_def)
  show "\<not> in_dram (pages s p) \<Longrightarrow> p \<in> tab_elems (pa_to_proc_map s)"
    using ok p unfolding pa_map_ok_def slow_mapped_def by blast
  show "ppe_used (pa_proc_entry (pages s p)) \<longleftrightarrow> \<not> in_dram (pages s p)"
    using ok p unfolding pa_map_ok_def slow_mapped_def by blast
qed

lemma remove_page_eq:
  assumes inv: "sys_ok s" and P: "procs s pr = Some P" and p: "p \<in> mapped s pr"
    and r: "\<not> ring_buf_full (free_page_ring (mm P))" "ring_buf_put (free_page_ring (mm P)) p = Inr r"
  shows "mm_remove_page pr p s = Inr (unmap pr p P r s)"
proof -
  note m = mapped_page [OF inv P p]
  have d: "HASH_DELETE p t = Inr (tab_del p t)" if "p \<in> tab_elems t" for t :: "'k htab"
    using that by (simp add: HASH_DELETE_def tab_del_def)
  have ne: "pages_table (mm P) \<noteq> []" using m(4) by auto
  have up: "mm_update (free_page_ring_update (\<lambda>_. r) \<circ> (\<lambda>m. m\<lparr>pages_table := tab_del p (pages_table (mm P)),
      cxl_offset_to_page := cxl_offset_to_page (mm P)\<rparr>)) P = unmapped_proc True p r P"
    "mm_update (free_page_ring_update (\<lambda>_. r) \<circ> (\<lambda>m. m\<lparr>pages_table := tab_del p (pages_table (mm P)),
      cxl_offset_to_page := tab_del p (cxl_offset_to_page (mm P))\<rparr>)) P = unmapped_proc False p r P"
    by (cases P, cases "mm P", simp add: unmapped_proc_def)+
  show ?thesis
  proof (cases "in_dram (pages s p)")
    case True
    then show ?thesis
      using P m(1,3) ne d [OF m(4)] r
      by (simp add: mm_remove_page_def mm_internal_enqueue_page_removal_def unmap_def upd_page_def
          unmapped_page_def up)
  next
    case False
    then have "cxl_offset_to_page (mm P) \<noteq> []" using m(5) by auto
    then show ?thesis
      using False P m(1,3,7) ne d [OF m(4)] d [OF m(5) [OF False]] d [OF m(6) [OF False]] r
      by (simp add: mm_remove_page_def mm_internal_enqueue_page_removal_def pa_proc_map_remove_def
          unmap_def upd_page_def unmapped_page_def up)
  qed
qed

lemma unmapped_proc_simps [simp]:
  "pid (unmapped_proc f p r P) = pid P" "process_clock (unmapped_proc f p r P) = process_clock P"
  "pages_table (mm (unmapped_proc f p r P)) = tab_del p (pages_table (mm P))"
  "cxl_offset_to_page (mm (unmapped_proc f p r P)) =
     (if f then cxl_offset_to_page (mm P) else tab_del p (cxl_offset_to_page (mm P)))"
  "free_page_ring (mm (unmapped_proc f p r P)) = r"
  "hot_ring (mm (unmapped_proc f p r P)) = hot_ring (mm P)"
  "cold_ring (mm (unmapped_proc f p r P)) = cold_ring (mm P)"
  "cur_cool g (mm (unmapped_proc f p r P)) = cur_cool g (mm P)"
  by (simp_all add: unmapped_proc_def cur_cool_def)

lemma unmapped_page_simps [simp]:
  "va (unmapped_page pg) = va pg" "devdax_offset (unmapped_page pg) = devdax_offset pg"
  "in_dram (unmapped_page pg) = in_dram pg" "pt (unmapped_page pg) = pt pg"
  "in_free_ring (unmapped_page pg)" "remap_lock (unmapped_page pg) = remap_lock pg" "local_clock (unmapped_page pg) = local_clock pg"
  "list_ok s q (unmapped_page pg) = list_ok s q pg"
  by (simp_all add: unmapped_page_def) (cases q; simp add: free_page_def bin_page_def)

lemma unmap_mapped:
  assumes p: "p \<in> mapped s pr"
  shows "mapped (unmap pr p P r s) c = mapped s c - {p}"
    and "slow_mapped (unmap pr p P r s) c = slow_mapped s c - {p}"
  using p by (auto simp: mapped_def slow_mapped_def)

lemma tab_del_ok:
  "tab_ok key t \<Longrightarrow> tab_ok key (tab_del p t)"
  "tab_elems (tab_del p t) = tab_elems t - {p}"
  by (force simp: tab_ok_def tab_del_def distinct_map_filter)+

lemma tab_del_absent: "p \<notin> tab_elems t \<Longrightarrow> tab_del p t = t"
  by (force simp: tab_del_def filter_id_conv)

lemma tab_ok_upd:
  assumes "tab_ok key t" and "\<And>x. x \<noteq> p \<Longrightarrow> key' x = key x"
  shows "tab_ok key' (tab_del p t)"
proof -
  have "tab_ok key' (tab_del p t) = tab_ok key (tab_del p t)"
    by (rule tab_ok_cong) (use assms(2) in \<open>simp add: tab_del_ok(2)\<close>)
  then show ?thesis using assms(1) by (simp add: tab_del_ok)
qed

lemma unmap_pa_map:
  assumes inv: "sys_ok s" and P: "procs s pr = Some P" and p: "p \<in> mapped s pr"
  shows "pa_map_ok (unmap pr p P r s)" (is "pa_map_ok ?s")
proof -
  note m = mapped_page [OF inv P p]
  have pm: "pa_map_ok s" using inv by (simp add: sys_ok_def)
  have el: "x \<in> tab_elems (pa_to_proc_map s) \<longleftrightarrow> (\<exists>c. x \<in> slow_mapped s c)"
    "ppe_used (pa_proc_entry (pages s x)) \<longleftrightarrow> x \<in> tab_elems (pa_to_proc_map s)" for x
    using pm unfolding pa_map_ok_def by blast+
  have n: "p \<notin> slow_mapped s c" if "in_dram (pages s p)" for c
    using that by (simp add: slow_mapped_def)
  have t: "pa_to_proc_map ?s = tab_del p (pa_to_proc_map s)"
    using n el(1) [of p] by (simp add: unmap_def tab_del_absent)
  have "tab_ok (pa_key ?s) (pa_to_proc_map ?s)"
    unfolding t by (rule tab_ok_upd [of "pa_key s"]) (use pm in \<open>simp_all add: pa_map_ok_def pa_key_def\<close>)
  moreover have "ppe_used (pa_proc_entry (pages ?s x)) \<longleftrightarrow> x \<in> tab_elems (pa_to_proc_map ?s)" for x
    unfolding t tab_del_ok(2) using el(2) [of x] m(7)
    by (cases "x = p") (auto simp: unmapped_page_def zero_entry_def)
  ultimately show ?thesis
    using pm unfolding pa_map_ok_def t tab_del_ok(2) unmap_mapped [OF p] by (auto simp: el(1))
qed

lemma unmap_keeps:
  assumes inv: "sys_ok s" and P: "procs s pr = Some P" and p: "p \<in> mapped s pr"
    and r: "ring_wf r" "ring_list r = ring_list (free_page_ring (mm P)) @ [p]"
  shows "sys_ok (unmap pr p P r s)" (is "sys_ok ?s")
proof (rule sys_ok_local [OF inv _ _ unmap_pa_map [OF inv P p] _ _ P])
  let ?Q = "unmapped_proc (in_dram (pages s p)) p r P"
  note m = mapped_page [OF inv P p]
  have u: "ucm_inv s" and ok: "proc_ok s pr P" and fo: "frames_ok s" using inv P by (simp_all add: sys_ok_def)
  let ?t = "upd_page p unmapped_page s"
  have "ucm_inv ?t" by (rule ucm_inv_page [OF u]) simp
  then have "ucm_inv (?t\<lparr>procs := (procs ?t)(pr \<mapsto> ?Q)\<rparr>)"
    by (rule ucm_inv_proc [where P = P]) (use P in simp_all)
  then show "ucm_inv ?s"
    by (rule ucm_inv_cong [THEN iffD2, rotated -1]) simp_all
  show "frames_ok ?s"
    by (rule frames_ok_cong [OF fo]) (simp_all add: unmap_def)
  show "pages_idle ?s" using inv by (simp add: sys_ok_def pages_idle_def)
  show "others_kept pr s ?s" using m(2) by (auto simp: others_kept_def)
  show "\<not> in_free_ring (pages ?s x)" if "owner ?s x = None" for x
    using that m(2) inv by (auto simp: sys_ok_def)
  have el: "tab_elems (pages_table (mm P)) = mapped s pr" "tab_elems (cxl_offset_to_page (mm P)) = slow_mapped s pr"
    and tk: "tab_ok (va_key s) (pages_table (mm P))" "tab_ok (offset_key s) (cxl_offset_to_page (mm P))"
    using ok by (simp_all add: proc_ok_def tables_ok_def)
  have "cxl_offset_to_page (mm ?Q) = tab_del p (cxl_offset_to_page (mm P))"
    using el(2) by (simp add: tab_del_absent slow_mapped_def)
  moreover have "va_key ?s = va_key s" "offset_key ?s = offset_key s" by (simp_all add: fun_eq_iff)
  ultimately have "tables_ok ?s pr (mm ?Q)"
    using el tk by (simp add: tables_ok_def unmap_mapped [OF p] tab_del_ok)
  moreover have "free_reqs_ok ?s pr (mm ?Q)"
    using ok r m(2,3) by (auto simp: free_reqs_ok_def proc_ok_def)
  moreover have "level_reqs_ok ?s pr (mm ?Q)" "clocks_all_ok ?s pr ?Q"
    using ok by (auto simp: proc_ok_def level_reqs_ok_def clocks_all_ok_def clocks_ok_def)
  ultimately show "proc_ok ?s pr ?Q" by (simp add: proc_ok_def)
qed simp_all

definition free_room :: "hemem_process \<Rightarrow> nat" where
  "free_room P = ring_bound (free_page_ring (mm P)) - length (ring_list (free_page_ring (mm P)))"

lemma remove_page_ok:
  assumes inv: "sys_ok s" and P: "procs s pr = Some P" and p: "p \<in> mapped s pr" and room: "0 < free_room P"
  obtains r where "mm_remove_page pr p s = Inr (unmap pr p P r s)" "sys_ok (unmap pr p P r s)"
    "ring_list r = ring_list (free_page_ring (mm P)) @ [p]"
    "free_room (unmapped_proc (in_dram (pages s p)) p r P) = free_room P - 1"
proof -
  have w: "ring_wf (free_page_ring (mm P))"
    using inv P by (simp add: sys_ok_def proc_ok_def free_reqs_ok_def)
  have l: "length (ring_list (free_page_ring (mm P))) < ring_bound (free_page_ring (mm P))"
    using room by (simp add: free_room_def)
  then obtain r where r: "ring_buf_put (free_page_ring (mm P)) p = Inr r" "ring_wf r"
    "ring_list r = ring_list (free_page_ring (mm P)) @ [p]"
    "ring_bound r = ring_bound (free_page_ring (mm P))"
    using ring.put_law [OF w] by blast
  moreover have "\<not> ring_buf_full (free_page_ring (mm P))"
    using l ring_full_count [OF w] by simp
  moreover have "length (ring_list r) = Suc (length (ring_list (free_page_ring (mm P))))"
    unfolding r(3) by simp
  then have "free_room (unmapped_proc (in_dram (pages s p)) p r P) = free_room P - 1"
    using r(4) by (simp add: free_room_def)
  ultimately show thesis
    using that remove_page_eq [OF inv P p] unmap_keeps [OF inv P p] by blast
qed

section \<open>Adding a page to the tables\<close>

definition cxl_entry :: "ptr \<Rightarrow> hemem_page \<Rightarrow> pa_proc_map_entry" where
  "cxl_entry pr pg = (if in_dram pg then pa_proc_entry pg
     else \<lparr>ppe_pa = devdax_offset pg, ppe_proc = pr, ppe_used = True\<rparr>)"

definition add_tables :: "ptr \<Rightarrow> hemem_page \<Rightarrow> process_mem \<Rightarrow> process_mem" where
  "add_tables p pg m = m\<lparr>pages_table := (va pg, p) # pages_table m,
     cxl_offset_to_page := (if in_dram pg then cxl_offset_to_page m
       else (devdax_offset pg, p) # cxl_offset_to_page m)\<rparr>"

definition enter :: "ptr \<Rightarrow> ptr \<Rightarrow> hemem_process \<Rightarrow> ucm_state \<Rightarrow> ucm_state" where
  "enter pr p P s = s\<lparr>
     procs := (procs s)(pr \<mapsto> mm_update (add_tables p (pages s p)) P),
     pages := (pages s)(p := (pages s p)\<lparr>pa_proc_entry := cxl_entry pr (pages s p)\<rparr>),
     pa_to_proc_map := (if in_dram (pages s p) then pa_to_proc_map s
       else (devdax_offset (pages s p), p) # pa_to_proc_map s)\<rparr>"

lemma add_page_eq:
  assumes P: "procs s pr = Some P" and nn: "p \<noteq> NULL" "pr \<noteq> NULL"
    and v: "HASH_FIND (va_key s) (pages_table (mm P)) (va (pages s p)) = NULL"
      "p \<notin> tab_elems (pages_table (mm P))"
    and c: "\<not> in_dram (pages s p) \<Longrightarrow> HASH_FIND (offset_key s) (cxl_offset_to_page (mm P)) (devdax_offset (pages s p)) = NULL"
      "p \<notin> tab_elems (cxl_offset_to_page (mm P))"
    and e: "p \<notin> tab_elems (pa_to_proc_map s)" "\<not> ppe_used (pa_proc_entry (pages s p))"
  shows "mm_add_page pr p s = Inr (enter pr p P s)"
proof -
  have 1: "mm_update (\<lambda>m. m\<lparr>pages_table := (va (pages s p), p) # pages_table (mm P),
      cxl_offset_to_page := cxl_offset_to_page (mm P)\<rparr>) P = mm_update (add_tables p (pages s p)) P"
    if "in_dram (pages s p)"
    using that by (cases P, cases "mm P") (simp add: add_tables_def)
  have 2: "mm_update (\<lambda>m. m\<lparr>pages_table := (va (pages s p), p) # pages_table (mm P),
      cxl_offset_to_page := (devdax_offset (pages s p), p) # cxl_offset_to_page (mm P)\<rparr>) P =
      mm_update (add_tables p (pages s p)) P"
    if "\<not> in_dram (pages s p)"
    using that by (cases P, cases "mm P") (simp add: add_tables_def)
  show ?thesis
  proof (cases "in_dram (pages s p)")
    case True
    then show ?thesis
      using P v by (simp add: mm_add_page_def HASH_ADD_def enter_def cxl_entry_def 1)
  next
    case False
    then show ?thesis
      using P nn v c e by (simp add: mm_add_page_def HASH_ADD_def enter_def cxl_entry_def 2
          pa_proc_map_add_def upd_page_def pa_key_def)
  qed
qed

section \<open>Allocating a page\<close>

text \<open>A page that is on no list joins one.\<close>

lemma ucm_inv_link:
  assumes inv: "ucm_inv s" and p: "pg_list s p = None"
    and s': "pl_wf s'" "procs s' = procs s" "pg_list s' = (pg_list s)(p := Some q)"
      "\<And>x. x \<noteq> p \<Longrightarrow> pages s' x = pages s x" and q: "list_ok s q (pages s' p)"
  shows "ucm_inv s'"
proof -
  have "pages_ok s'"
  proof (rule pages_okI [OF _ same_pids_eq [OF s'(2)], where p = p])
    show "pages_ok s" using inv by (simp add: ucm_inv_def)
  qed (use s' q in auto)
  moreover have "bookmarks_ok s'"
  proof (rule bookmarks_okI [OF _ s'(2)])
    show "bookmarks_ok s" using inv by (simp add: ucm_inv_def)
    show "\<exists>j. pg_list s' x = Some (bin f c j)" if "pg_list s x = Some (bin f c i)" for x f c i
      using that p s'(3) by auto
  qed
  ultimately show ?thesis using s'(1) by (simp add: ucm_inv_def)
qed

definition new_page :: "ptr \<Rightarrow> hemem_process \<Rightarrow> u64 \<Rightarrow> hemem_page \<Rightarrow> hemem_page" where
  "new_page pr P v pg = pg\<lparr>present := True, va := v, pg_pid := pid P, pg_uffd := uffd P,
     migrating := False, migrations_up := 0, migrations_down := 0, pa_proc_entry := cxl_entry pr pg\<rparr>"

definition new_proc :: "bool \<Rightarrow> ptr \<Rightarrow> u64 \<Rightarrow> hemem_page \<Rightarrow> hemem_process \<Rightarrow> hemem_process" where
  "new_proc fast p n pg P = mm_update (\<lambda>m. m\<lparr>mem_allocated := mem_allocated m + n\<rparr>)
     (mm_update (add_tables p pg) (charge fast n P))"

definition zeroed :: "hemem_page \<Rightarrow> ucm_state \<Rightarrow> u64 \<Rightarrow> 8 word" where
  "zeroed pg s = ucm_mem (hemem_memset (devdax_offset_to_addr (devdax_offset pg) (in_dram pg) s) 0
     (pt_to_pagesize (pt pg)) s)"

definition allocated :: "bool \<Rightarrow> ptr \<Rightarrow> hemem_process \<Rightarrow> ptr \<Rightarrow> u64 \<Rightarrow> ucm_state \<Rightarrow> ucm_state \<Rightarrow> bool" where
  "allocated fast pr P p v s s' \<longleftrightarrow> ucm_inv s' \<and> same_registry s s' \<and> held s' = held s \<and>
     pages s' = (pages s)(p := new_page pr P v (pages s p)) \<and>
     pg_list s' = (pg_list s)(p := Some (bin fast pr COLD)) \<and>
     page_seq s' = (page_seq s)(tier_free fast := butlast (page_seq s (tier_free fast)),
       bin fast pr COLD := p # page_seq s (bin fast pr COLD)) \<and>
     procs s' = (procs s)(pr \<mapsto> new_proc fast p (pt_to_pagesize (pt (pages s p)))
       ((pages s p)\<lparr>va := v\<rparr>) P) \<and>
     pa_to_proc_map s' = (if fast then pa_to_proc_map s
       else (devdax_offset (pages s p), p) # pa_to_proc_map s) \<and>
     ucm_mem s' = zeroed (pages s p) s"

lemma proc_nonnull: "\<lbrakk>sys_ok s; procs s pr = Some P\<rbrakk> \<Longrightarrow> pr \<noteq> NULL"
  by (auto simp: sys_ok_def)

lemma free_page_unknown:
  assumes inv: "sys_ok s" and p: "pg_list s p = Some (tier_free f)"
  shows "in_dram (pages s p) = f" and "\<not> present (pages s p)" and "hot (pages s p) = COLD"
    and "\<not> in_free_ring (pages s p)" and "\<not> ppe_used (pa_proc_entry (pages s p))"
    and "p \<notin> tab_elems (pa_to_proc_map s)"
    and "procs s pr = Some P \<Longrightarrow> p \<notin> tab_elems (pages_table (mm P)) \<and> p \<notin> tab_elems (cxl_offset_to_page (mm P))"
    and "p \<notin> mapped s pr"
proof -
  have o: "owner s p = None" using p by simp
  have u: "ucm_inv s" and pm: "pa_map_ok s" using inv by (simp_all add: sys_ok_def)
  show "in_dram (pages s p) = f" "\<not> present (pages s p)" "hot (pages s p) = COLD"
    using ucm_inv_list [OF u p] by (simp_all add: list_ok_free free_page_def)
  show "\<not> in_free_ring (pages s p)" using inv o by (simp add: sys_ok_def)
  have n: "p \<notin> slow_mapped s c" "p \<notin> mapped s c" for c using o by (simp_all add: slow_mapped_def mapped_def)
  then show e: "p \<notin> tab_elems (pa_to_proc_map s)"
    using pm unfolding pa_map_ok_def by blast
  then show "\<not> ppe_used (pa_proc_entry (pages s p))"
    using pm unfolding pa_map_ok_def by blast
  show "p \<notin> tab_elems (pages_table (mm P)) \<and> p \<notin> tab_elems (cxl_offset_to_page (mm P))"
    if "procs s pr = Some P"
    using inv that n by (auto simp: sys_ok_def proc_ok_def tables_ok_def)
  show "p \<notin> mapped s pr" by (rule n)
qed

lemma HASH_FIND_cong:
  "(\<And>e. e \<in> tab_elems t \<Longrightarrow> key' e = key e) \<Longrightarrow> HASH_FIND key' t k = HASH_FIND key t k"
  by (induction t) auto

text \<open>No slow page in the tables has the frame of a free page.\<close>

lemma free_frame_unknown:
  assumes inv: "sys_ok s" and p: "pg_list s p = Some (tier_free False)"
  shows "procs s pr = Some P \<Longrightarrow> devdax_offset (pages s p) \<notin> fst ` set (cxl_offset_to_page (mm P))"
    and "devdax_offset (pages s p) \<notin> fst ` set (pa_to_proc_map s)"
proof -
  have n: "devdax_offset (pages s x) \<noteq> devdax_offset (pages s p)" if x: "x \<in> slow_mapped s c" for x c
  proof -
    have "\<not> in_dram (pages s x)" "pg_list s x \<noteq> None" "x \<noteq> p"
      using x p by (auto simp: slow_mapped_def mapped_def owner_eq)
    then show ?thesis
      using inv p free_page_unknown(1) [OF inv p] by (auto simp: sys_ok_def frames_ok_def)
  qed
  show "devdax_offset (pages s p) \<notin> fst ` set (cxl_offset_to_page (mm P))" if P: "procs s pr = Some P"
  proof
    assume "devdax_offset (pages s p) \<in> fst ` set (cxl_offset_to_page (mm P))"
    then obtain x where x: "(devdax_offset (pages s p), x) \<in> set (cxl_offset_to_page (mm P))" by auto
    have ok: "tables_ok s pr (mm P)" using inv P by (simp add: sys_ok_def proc_ok_def)
    then have "x \<in> slow_mapped s pr" using x by (force simp: tables_ok_def)
    moreover have "devdax_offset (pages s x) = devdax_offset (pages s p)"
      using ok tab_okD(1) [OF _ x, of "offset_key s"] by (simp add: tables_ok_def)
    ultimately show False using n by blast
  qed
  show "devdax_offset (pages s p) \<notin> fst ` set (pa_to_proc_map s)"
  proof
    assume "devdax_offset (pages s p) \<in> fst ` set (pa_to_proc_map s)"
    then obtain x where x: "(devdax_offset (pages s p), x) \<in> set (pa_to_proc_map s)" by auto
    have pm: "pa_map_ok s" using inv by (simp add: sys_ok_def)
    then obtain c where c: "x \<in> slow_mapped s c"
      using x unfolding pa_map_ok_def by (metis image_eqI snd_conv)
    then have "pa_key s x = devdax_offset (pages s x)"
      using pm unfolding pa_map_ok_def pa_key_def by simp
    moreover have "pa_key s x = devdax_offset (pages s p)"
      using pm tab_okD(1) [OF _ x, of "pa_key s"] by (simp add: pa_map_ok_def)
    ultimately show False using n [OF c] by simp
  qed
qed

lemma allocate_one_run:
  assumes inv: "sys_ok s" and P: "procs s pr = Some P"
    and a: "alloc pr s = Inr (p, s1)" "p \<noteq> NULL" "ucm_inv s1" "took fast pr P p s s1"
    and v: "v \<noteq> 0" "v mod HUGEPAGE_SIZE = 0" "HASH_FIND (va_key s) (pages_table (mm P)) v = NULL"
  shows "\<exists>s'. ucm_allocate_one alloc pr v s = Inr (Some (page_resp v (pages s p)), s') \<and>
    allocated fast pr P p v s s'"
proof -
  let ?n = "pt_to_pagesize (pt (pages s p))" and ?C = "charge fast (pt_to_pagesize (pt (pages s p))) P"
  have wf: "pl_wf s" using inv by (simp add: sys_ok_def ucm_inv_def)
  have "p \<in> set (page_seq s (tier_free fast))"
    using a(4) unfolding took_def by (metis in_set_conv_decomp)
  then have pl: "pg_list s p = Some (tier_free fast)" by (simp add: pl_wf_mem [OF wf])
  note f = free_page_unknown [OF inv pl] and nn = proc_nonnull [OF inv P]
  have t: "pages s1 = (pages s)(p := taken_page (pid P) (pages s p))" "procs s1 = (procs s)(pr \<mapsto> ?C)"
    "pg_list s1 = (pg_list s)(p := None)" "pa_to_proc_map s1 = pa_to_proc_map s" "ucm_mem s1 = ucm_mem s"
    "held s1 = held s" "same_registry s s1"
    "page_seq s1 = (page_seq s)(tier_free fast := butlast (page_seq s (tier_free fast)))"
    using a(4) by (simp_all add: took_def)
  let ?pg = "(pages s p)\<lparr>present := True, va := v, pg_pid := pid P, pg_uffd := uffd P,
     migrating := False, migrations_up := 0, migrations_down := 0\<rparr>"
  let ?m = "hemem_memset (devdax_offset_to_addr (devdax_offset (pages s p)) fast s1) 0 ?n s1"
  define s2 where "s2 = ?m\<lparr>stats := (stats ?m)\<lparr>st_memsets := st_memsets (stats ?m) + 1\<rparr>\<rparr>"
  define s3 where "s3 = upd_page p (\<lambda>p. p\<lparr>va := v, pg_pid := pid ?C, pg_uffd := uffd ?C\<rparr>) s2"
  define s4 where "s4 = upd_page p (\<lambda>p. p\<lparr>migrating := False, migrations_up := 0, migrations_down := 0\<rparr>) s3"
  define s5 where "s5 = enter pr p ?C s4"
  have 2: "pages s2 = pages s1" "procs s2 = procs s1" "pg_list s2 = pg_list s1" "pl_wf s2 = pl_wf s1"
    "pa_to_proc_map s2 = pa_to_proc_map s1" "held s2 = held s1" "same_registry s1 s2"
    "ucm_mem s2 = zeroed (pages s p) s" "page_seq s2 = page_seq s1"
    using f(1) t(5,7)
    by (simp_all add: s2_def hemem_memset_def same_registry_def zeroed_def devdax_offset_to_addr_def cong: if_cong)
  have 4: "pages s4 = (pages s)(p := ?pg)" "procs s4 = procs s1" "pg_list s4 = pg_list s1" "pl_wf s4 = pl_wf s1"
    "pa_to_proc_map s4 = pa_to_proc_map s" "held s4 = held s" "same_registry s s4" "ucm_mem s4 = zeroed (pages s p) s"
    "page_seq s4 = page_seq s1"
    using 2 t by (simp_all add: s4_def s3_def taken_page_def) (simp_all add: upd_page_def same_registry_def)
  have "HASH_FIND (va_key s4) (pages_table (mm P)) v = HASH_FIND (va_key s) (pages_table (mm P)) v"
    by (rule HASH_FIND_cong) (use f(7) [OF P] 4(1) in auto)
  moreover have "HASH_FIND (offset_key s4) (cxl_offset_to_page (mm P)) (devdax_offset (pages s p)) = NULL"
    if "\<not> fast"
  proof -
    have "tab_ok (offset_key s) (cxl_offset_to_page (mm P))"
      using inv P by (simp add: sys_ok_def proc_ok_def tables_ok_def)
    then have "HASH_FIND (offset_key s) (cxl_offset_to_page (mm P)) (devdax_offset (pages s p)) = NULL"
      using free_frame_unknown(1) [OF inv _ P] pl that by (simp add: HASH_FIND_null)
    moreover have "HASH_FIND (offset_key s4) (cxl_offset_to_page (mm P)) k =
        HASH_FIND (offset_key s) (cxl_offset_to_page (mm P)) k" for k
      by (rule HASH_FIND_cong) (simp add: 4(1))
    ultimately show ?thesis by simp
  qed
  ultimately have add: "mm_add_page pr p s4 = Inr s5"
    unfolding s5_def using a(2) nn f(1,5,6) f(7) [OF P] t(2) 4 v(3)
    by (intro add_page_eq) simp_all
  have at: "add_tables p ?pg = add_tables p ((pages s p)\<lparr>va := v\<rparr>)"
    by (simp add: add_tables_def fun_eq_iff)
  have 5: "pl_wf s5" "pg_list s5 = (pg_list s)(p := None)"
    "pages s5 = (pages s)(p := new_page pr P v (pages s p))"
    "procs s5 = (procs s)(pr \<mapsto> mm_update (add_tables p ((pages s p)\<lparr>va := v\<rparr>)) ?C)"
    "pa_to_proc_map s5 = (if fast then pa_to_proc_map s else (devdax_offset (pages s p), p) # pa_to_proc_map s)"
    "held s5 = held s" "same_registry s s5" "ucm_mem s5 = zeroed (pages s p) s"
    "page_seq s5 = page_seq s1"
    using 4 f(1) t(2,3) a(3)
    by (simp_all add: s5_def enter_def new_page_def cxl_entry_def at same_registry_def ucm_inv_def)
  obtain s6 where s6: "enqueue_page (bin fast pr COLD) p s5 = Inr s6" "pl_wf s6" "page_step s5 s6"
    "pg_list s6 = (pg_list s5)(p := Some (bin fast pr COLD))" "pages s6 = pages s5"
    "page_seq s6 = (page_seq s5)(bin fast pr COLD := p # page_seq s5 (bin fast pr COLD))"
    using enqueue_step [OF 5(1) a(2), of "bin fast pr COLD"] 5(2) by auto
  define s7 where "s7 = s6\<lparr>stats := (stats s6)\<lparr>st_mem_allocated := st_mem_allocated (stats s6) + ?n,
      st_pages_allocated := st_pages_allocated (stats s6) + 1\<rparr>,
    procs := (procs s6)(pr \<mapsto> new_proc fast p ?n ((pages s p)\<lparr>va := v\<rparr>) P)\<rparr>"
  have p6: "procs s6 pr = Some (mm_update (add_tables p ((pages s p)\<lparr>va := v\<rparr>)) ?C)"
    using page_step_frame(1) [OF s6(3)] 5(4) by simp
  then have rec: "ucm_stats_record_page_allocated pr ?n s6 = Inr s7"
    by (simp add: ucm_stats_record_page_allocated_def s7_def new_proc_def)
  have 7: "pages s7 = pages s5" "pg_list s7 = (pg_list s)(p := Some (bin fast pr COLD))" "pl_wf s7"
    "procs s7 = (procs s)(pr \<mapsto> new_proc fast p ?n ((pages s p)\<lparr>va := v\<rparr>) P)"
    "pa_to_proc_map s7 = pa_to_proc_map s5" "held s7 = held s5" "ucm_mem s7 = ucm_mem s5"
    "page_seq s7 = page_seq s6"
    using page_step_frame [OF s6(3)] s6 5(2,4) by (simp_all add: s7_def)
  have "same_registry s5 s7"
    using page_step_registry [OF s6(3)] by (simp add: s7_def same_registry_def)
  then have r7: "same_registry s s7" using 5(7) by (blast intro: same_registry_trans)
  let ?N = "new_proc fast p ?n ((pages s p)\<lparr>va := v\<rparr>) P"
  have "pid ?N = pid P" "\<And>f. cur_cool f (mm ?N) = cur_cool f (mm ?C)"
    by (simp_all add: new_proc_def add_tables_def cur_cool_def)
  then have "ucm_inv (s1\<lparr>procs := (procs s1)(pr \<mapsto> ?N)\<rparr>)"
    by (intro ucm_inv_proc [OF a(3), of pr ?C]) (simp_all add: t(2))
  then have "ucm_inv s7"
  proof (rule ucm_inv_link [where p = p and q = "bin fast pr COLD"])
    show "list_ok (s1\<lparr>procs := (procs s1)(pr \<mapsto> ?N)\<rparr>) (bin fast pr COLD) (pages s7 p)"
      using f(1,3) v(1) by (simp add: list_ok_bin bin_page_def 7 5(3) new_page_def new_proc_def
          COLD_def NUM_HOTNESS_LEVELS_def)
  qed (use 7 5 t in simp_all)
  then have "allocated fast pr P p v s s7"
    using 7 5 r7 f(1) s6(6) t(8) by (simp add: allocated_def)
  moreover have "ucm_allocate_one alloc pr v s = Inr (Some (page_resp v (pages s p)), s7)"
  proof -
    have g: "devdax_offset (pages s1 p) = devdax_offset (pages s p)" "in_dram (pages s1 p) = fast"
      "pt (pages s1 p) = pt (pages s p)"
      using t(1) f(1) by (simp_all add: taken_page_def)
    have "procs s2 pr = Some ?C" "va (pages s3 p) = v" "in_dram (pages s5 p) = fast"
      "pt (pages s7 p) = pt (pages s p)"
      using 2(2) t(2) 5(3) 7(1) f(1) by (simp_all add: s3_def new_page_def)
    then show ?thesis
      using P v a(1,2) add s6(1) rec
      unfolding ucm_allocate_one_def mm_find_page_def Let_def
      by (simp add: g page_resp_def f(1) bin_def flip: s2_def s3_def s4_def del: charge_frame)
  qed
  ultimately show ?thesis by blast
qed

lemma new_proc_simps [simp]:
  "pid (new_proc fast p n pg P) = pid P"
  "process_clock (new_proc fast p n pg P) = process_clock P"
  "pages_table (mm (new_proc fast p n pg P)) = (va pg, p) # pages_table (mm P)"
  "cxl_offset_to_page (mm (new_proc fast p n pg P)) =
     (if in_dram pg then cxl_offset_to_page (mm P) else (devdax_offset pg, p) # cxl_offset_to_page (mm P))"
  "free_page_ring (mm (new_proc fast p n pg P)) = free_page_ring (mm P)"
  "hot_ring (mm (new_proc fast p n pg P)) = hot_ring (mm P)"
  "cold_ring (mm (new_proc fast p n pg P)) = cold_ring (mm P)"
  by (simp_all add: new_proc_def add_tables_def)

lemma tab_ok_Cons:
  "tab_ok key ((k, e) # t) \<longleftrightarrow> tab_ok key t \<and> k \<notin> fst ` set t \<and> e \<notin> tab_elems t \<and> key e = k \<and> e \<noteq> NULL"
  by (auto simp: tab_ok_def)

lemma allocated_parts:
  assumes inv: "sys_ok s" and p: "pg_list s p = Some (tier_free fast)"
    and al: "allocated fast pr P p v s s'"
  shows "owner s' x = (if x = p then Some pr else owner s x)"
    and "mapped s' c = (if c = pr then insert p (mapped s c) else mapped s c)"
    and "slow_mapped s' c = (if c = pr \<and> \<not> fast then insert p (slow_mapped s c) else slow_mapped s c)"
    and "x \<noteq> p \<Longrightarrow> pages s' x = pages s x" and "in_dram (pages s' x) = in_dram (pages s x)"
    and "devdax_offset (pages s' x) = devdax_offset (pages s x)" and "pt (pages s' x) = pt (pages s x)"
    and "in_free_ring (pages s' x) = in_free_ring (pages s x)"
    and "local_clock (pages s' x) = local_clock (pages s x)" and "va (pages s' p) = v"
    and "pa_proc_entry (pages s' p) = cxl_entry pr (pages s p)"
    and "remap_lock (pages s' x) = remap_lock (pages s x)"
proof -
  note f = free_page_unknown [OF inv p]
  have a: "pages s' = (pages s)(p := new_page pr P v (pages s p))"
    "pg_list s' = (pg_list s)(p := Some (bin fast pr COLD))"
    using al by (simp_all add: allocated_def)
  show o: "owner s' x = (if x = p then Some pr else owner s x)" for x
    using a(2) by (simp add: owner_def bin_def)
  show pg: "in_dram (pages s' x) = in_dram (pages s x)"
    "devdax_offset (pages s' x) = devdax_offset (pages s x)" "pt (pages s' x) = pt (pages s x)"
    "in_free_ring (pages s' x) = in_free_ring (pages s x)"
    "local_clock (pages s' x) = local_clock (pages s x)"
    "remap_lock (pages s' x) = remap_lock (pages s x)" for x
    using a(1) by (simp_all add: new_page_def)
  show "va (pages s' p) = v" "pa_proc_entry (pages s' p) = cxl_entry pr (pages s p)"
    "x \<noteq> p \<Longrightarrow> pages s' x = pages s x"
    using a(1) by (simp_all add: new_page_def)
  have op: "owner s p = None" using p by simp
  then show m: "mapped s' c = (if c = pr then insert p (mapped s c) else mapped s c)"
    using o pg(4) f(4) by (auto simp: mapped_def split: if_splits)
  show "slow_mapped s' c = (if c = pr \<and> \<not> fast then insert p (slow_mapped s c) else slow_mapped s c)"
    using m pg(1) f(1) op by (auto simp: slow_mapped_def mapped_def)
qed

lemma allocated_pa_map:
  assumes inv: "sys_ok s" and p: "pg_list s p = Some (tier_free fast)"
    and al: "allocated fast pr P p v s s'" and nn: "p \<noteq> NULL"
  shows "pa_map_ok s'"
proof -
  note f = free_page_unknown [OF inv p] and a = allocated_parts [OF inv p al]
  have pm: "pa_map_ok s" using inv by (simp add: sys_ok_def)
  have tab: "pa_to_proc_map s' = (if fast then pa_to_proc_map s
      else (devdax_offset (pages s p), p) # pa_to_proc_map s)"
    using al by (simp add: allocated_def)
  have k: "pa_key s' x = pa_key s x" if "x \<in> tab_elems (pa_to_proc_map s)" for x
    using that f(6) a(4) [of x] by (cases "x = p") (simp_all add: pa_key_def)
  have "tab_ok (pa_key s') (pa_to_proc_map s) = tab_ok (pa_key s) (pa_to_proc_map s)"
    by (rule tab_ok_cong) (rule k)
  moreover have "pa_key s' p = devdax_offset (pages s p)" if "\<not> fast"
    using that f(1) a(11) by (simp add: pa_key_def cxl_entry_def)
  ultimately have "tab_ok (pa_key s') (pa_to_proc_map s')"
    using pm f(6) free_frame_unknown(2) [OF inv] p nn by (simp add: tab tab_ok_Cons pa_map_ok_def)
  moreover have "x \<in> tab_elems (pa_to_proc_map s') \<longleftrightarrow> (\<exists>c. x \<in> slow_mapped s' c)" for x
    using pm unfolding pa_map_ok_def tab a(3) by auto
  moreover have "ppe_used (pa_proc_entry (pages s' x)) \<longleftrightarrow> x \<in> tab_elems (pa_to_proc_map s')" for x
    using pm f(1,5,6) a(11) a(4) [of x] by (cases "x = p") (auto simp: pa_map_ok_def tab cxl_entry_def)
  moreover have "pa_proc_entry (pages s' x) = \<lparr>ppe_pa = devdax_offset (pages s' x), ppe_proc = c, ppe_used = True\<rparr>"
    if "x \<in> slow_mapped s' c" for x c
  proof (cases "x = p")
    case True
    have "p \<notin> slow_mapped s c" using f(8) by (simp add: slow_mapped_def)
    then show ?thesis
      using True that f(1) a(11) by (auto simp: a(3,6) cxl_entry_def split: if_splits)
  next
    case False
    then have "x \<in> slow_mapped s c" using that by (auto simp: a(3) split: if_splits)
    then show ?thesis using pm a(4) [OF False] by (simp add: pa_map_ok_def)
  qed
  ultimately show ?thesis by (simp add: pa_map_ok_def)
qed

lemma allocated_tables:
  assumes inv: "sys_ok s" and P: "procs s pr = Some P" and p: "pg_list s p = Some (tier_free fast)"
    and al: "allocated fast pr P p v s s'" and nn: "p \<noteq> NULL"
    and v: "HASH_FIND (va_key s) (pages_table (mm P)) v = NULL"
  shows "tables_ok s' pr (mm (new_proc fast p n ((pages s p)\<lparr>va := v\<rparr>) P))"
proof -
  note f = free_page_unknown [OF inv p] and a = allocated_parts [OF inv p al]
  have np: "p \<notin> tab_elems (pages_table (mm P))" "p \<notin> tab_elems (cxl_offset_to_page (mm P))"
    using f(7) [OF P] by simp_all
  have tk: "tab_ok (va_key s) (pages_table (mm P))" "tab_ok (offset_key s) (cxl_offset_to_page (mm P))"
    "tab_elems (pages_table (mm P)) = mapped s pr" "tab_elems (cxl_offset_to_page (mm P)) = slow_mapped s pr"
    using inv P by (simp_all add: sys_ok_def proc_ok_def tables_ok_def)
  have "v \<notin> fst ` set (pages_table (mm P))"
    using v by (simp add: HASH_FIND_null [OF tk(1)])
  moreover have "tab_ok (va_key s') (pages_table (mm P)) = tab_ok (va_key s) (pages_table (mm P))"
    by (rule tab_ok_cong) (use np(1) a(4) in metis)
  ultimately have "tab_ok (va_key s') ((v, p) # pages_table (mm P))"
    using np nn tk(1) a(10) by (simp add: tab_ok_Cons)
  moreover have "tab_ok (offset_key s') (cxl_offset_to_page (mm P)) = tab_ok (offset_key s) (cxl_offset_to_page (mm P))"
    by (rule tab_ok_cong) (simp add: a(6))
  then have "tab_ok (offset_key s') (if fast then cxl_offset_to_page (mm P)
      else (devdax_offset (pages s p), p) # cxl_offset_to_page (mm P))"
    using np nn tk(2) a(6) free_frame_unknown(1) [OF inv _ P] p by (simp add: tab_ok_Cons)
  ultimately show ?thesis
    using tk(3,4) f(1) by (cases fast) (simp_all add: tables_ok_def a(2,3))
qed

lemma allocated_keeps:
  assumes inv: "sys_ok s" and P: "procs s pr = Some P" and p: "pg_list s p = Some (tier_free fast)"
    and al: "allocated fast pr P p v s s'"
    and v: "HASH_FIND (va_key s) (pages_table (mm P)) v = NULL" "v mod HUGEPAGE_SIZE = 0"
    and ck: "clocks_ok P (pages s p)"
  shows "sys_ok s'"
proof (rule sys_ok_local [OF inv _ _ _ _ _ P])
  note f = free_page_unknown [OF inv p] and a = allocated_parts [OF inv p al]
  let ?N = "new_proc fast p (pt_to_pagesize (pt (pages s p))) ((pages s p)\<lparr>va := v\<rparr>) P"
  have nn: "p \<noteq> NULL" using inv p pl_wf_nonnull by (auto simp: sys_ok_def ucm_inv_def pl_wf_mem)
  have op: "owner s p = None" using p by simp
  have ok: "proc_ok s pr P" and fo: "frames_ok s" using inv P by (simp_all add: sys_ok_def)
  have l: "pg_list s' = (pg_list s)(p := Some (bin fast pr COLD))"
    using al by (simp add: allocated_def)
  show "ucm_inv s'" and rg: "same_registry s s'" and "procs s' = (procs s)(pr \<mapsto> ?N)"
    using al by (simp_all add: allocated_def)
  show "frames_ok s'"
    by (rule frames_ok_cong [OF fo _ a(6,5,7)]) (use p rg l in \<open>simp_all add: same_registry_def\<close>)
  show "pa_map_ok s'" using inv p al nn by (rule allocated_pa_map)
  show "pages_idle s'"
    unfolding pages_idle_def
  proof (intro conjI allI impI)
    show "\<not> remap_lock (pages s' x)" for x using inv by (simp add: a(12) sys_ok_def pages_idle_def)
    show "va (pages s' x) mod HUGEPAGE_SIZE = 0" if "owner s' x \<noteq> None" for x
      using that inv v(2) a(10) a(4) [of x] by (cases "x = p") (simp_all add: a(1) sys_ok_def pages_idle_def)
  qed
  show "others_kept pr s s'" using a(1,4) op by (auto simp: others_kept_def split: if_splits)
  show "\<not> in_free_ring (pages s' x)" if "owner s' x = None" for x
    using that inv by (simp add: a(1,8) sys_ok_def split: if_splits)
  have "tables_ok s' pr (mm ?N)" using inv P p al nn v(1) by (rule allocated_tables)
  moreover have "free_reqs_ok s' pr (mm ?N)"
    using ok f(4) op by (auto simp: free_reqs_ok_def proc_ok_def a(1,8))
  moreover have "level_reqs_ok s' pr (mm ?N)"
    using ok by (auto simp: proc_ok_def level_reqs_ok_def a(1))
  moreover have "clocks_all_ok s' pr ?N"
    using ok ck by (auto simp: proc_ok_def clocks_all_ok_def clocks_ok_def a(1,9) split: if_splits)
  ultimately show "proc_ok s' pr ?N" by (simp add: proc_ok_def)
qed simp

lemma allocated_data:
  assumes inv: "sys_ok s" and p: "pg_list s p = Some (tier_free fast)" and al: "allocated fast pr P p v s s'"
  shows "same_data s s'"
  unfolding same_data_def
proof (intro allI impI)
  fix x k assume x: "owner s x \<noteq> None" and k: "k < HUGEPAGE_SIZE"
  note a = allocated_parts [OF inv p al]
  have t: "tiers_ok s" and fo: "frames_ok s" using inv by (simp_all add: sys_ok_def)
  have xl: "pg_list s x \<noteq> None" "x \<noteq> p" using x p by (auto simp: owner_eq)
  have hp: "pt (pages s p) = HUGEP" using fo p by (simp add: frames_ok_def frame_ok_def)
  have mem: "ucm_mem s' = zeroed (pages s p) s" and ad: "devdax_offset_to_addr o' g s' = devdax_offset_to_addr o' g s" for o' g
    using al registry_tiers(4) by (simp_all add: allocated_def)
  have "in_dram (pages s x) \<noteq> in_dram (pages s p) \<or> devdax_offset (pages s x) \<noteq> devdax_offset (pages s p)"
    using fo xl p unfolding frames_ok_def by blast
  then have "\<not> devdax_offset_to_addr (devdax_offset (pages s x)) (in_dram (pages s x)) s + k -
      devdax_offset_to_addr (devdax_offset (pages s p)) (in_dram (pages s p)) s < HUGEPAGE_SIZE"
    using frame_apart [OF t frame_ok_at [OF fo xl(1)] frame_ok_at [OF fo, of p] _ k] p by simp
  then show "page_data s' x k = page_data s x k"
    using a(4) [OF xl(2)] by (simp add: page_data_def mem ad zeroed_def hemem_memset_def hp)
qed

lemma allocated_kept:
  assumes inv: "sys_ok s" and P: "procs s pr = Some P" and p: "pg_list s p = Some (tier_free fast)"
    and al: "allocated fast pr P p v s s'" and ok: "sys_ok s'"
  shows "kept pr s s'" and "owner s' x = owner s x \<or> owner s x = None \<and> owner s' x = Some pr"
proof -
  show "kept pr s s'"
    using al P p ok allocated_data [OF inv p al] by (auto simp: kept_def allocated_def listed_def)
  show "owner s' x = owner s x \<or> owner s x = None \<and> owner s' x = Some pr"
    using p by (auto simp: allocated_parts(1) [OF inv p al])
qed

text \<open>
  Pages keep the clock of the last cooling they took part in when they change hands, so a
  free page can be read with the clock of a process only if that is not far ahead.
\<close>

definition free_clocks_ok :: "ucm_state \<Rightarrow> hemem_process \<Rightarrow> bool" where
  "free_clocks_ok s P \<longleftrightarrow> (\<forall>p f. pg_list s p = Some (tier_free f) \<longrightarrow> clocks_ok P (pages s p))"

definition page_addr_ok :: "u64 \<Rightarrow> ucm_state \<Rightarrow> hemem_process \<Rightarrow> bool" where
  "page_addr_ok v s P \<longleftrightarrow> v \<noteq> 0 \<and> v mod HUGEPAGE_SIZE = 0 \<and>
     HASH_FIND (va_key s) (pages_table (mm P)) v = NULL"

lemma allocate_one_ok:
  assumes spec: "alloc_spec alloc" and inv: "sys_ok s" and P: "procs s pr = Some P" and h: "pr \<notin> held s"
    and v: "page_addr_ok v s P" and ck: "free_clocks_ok s P"
  shows "ucm_allocate_one alloc pr v s = Inr (None, s\<lparr>held := insert pr (held s)\<rparr>) \<and>
      page_seq s Slowmem_Free = [] \<or>
    (\<exists>p fast s'. ucm_allocate_one alloc pr v s = Inr (Some (page_resp v (pages s p)), s') \<and>
      pg_list s p = Some (tier_free fast) \<and> allocated fast pr P p v s s' \<and> sys_ok s')"
proof -
  have u: "ucm_inv s" using inv by (simp add: sys_ok_def)
  consider "alloc pr s = Inr (NULL, s\<lparr>held := insert pr (held s)\<rparr>)" "page_seq s Slowmem_Free = []"
    | fast p s1 where "alloc pr s = Inr (p, s1)" "p \<noteq> NULL" "ucm_inv s1" "took fast pr P p s s1"
    using spec u P h unfolding alloc_spec_def by blast
  then show ?thesis
  proof cases
    case 1
    then show ?thesis
      using P v by (simp add: ucm_allocate_one_def mm_find_page_def page_addr_ok_def)
  next
    case 2
    have vv: "v \<noteq> 0" "v mod HUGEPAGE_SIZE = 0" "HASH_FIND (va_key s) (pages_table (mm P)) v = NULL"
      using v by (simp_all add: page_addr_ok_def)
    have wf: "pl_wf s" using u by (simp add: ucm_inv_def)
    have "p \<in> set (page_seq s (tier_free fast))"
      using 2(4) unfolding took_def by (metis in_set_conv_decomp)
    then have pl: "pg_list s p = Some (tier_free fast)" by (simp add: pl_wf_mem [OF wf])
    obtain s' where s': "ucm_allocate_one alloc pr v s = Inr (Some (page_resp v (pages s p)), s')"
      "allocated fast pr P p v s s'"
      using allocate_one_run [where alloc = alloc, OF inv P 2 vv] by blast
    have "sys_ok s'"
      using allocated_keeps [OF inv P pl s'(2) vv(3,2)] ck pl by (auto simp: free_clocks_ok_def)
    then show ?thesis using s' pl by blast
  qed
qed

end
