(* ===== verification/Sys_Range.thy ===== *)
theory Sys_Range
  imports Sys_Alloc
begin

text \<open>
  Allocating and freeing a range of addresses (\<open>ucm_allocate_memory\<close> and
  \<open>ucm_deallocate_memory\<close> of \<open>src/ucm/ucm.c\<close>): the loops go through the pages of the range
  one by one and keep the invariant of the manager.
\<close>

section \<open>Addresses of a range\<close>

definition addr_at :: "u64 \<Rightarrow> nat \<Rightarrow> u64" where
  "addr_at b i = b + of_nat i * HUGEPAGE_SIZE"

definition range_ok :: "u64 \<Rightarrow> nat \<Rightarrow> bool" where
  "range_ok b n \<longleftrightarrow> b \<noteq> 0 \<and> b mod HUGEPAGE_SIZE = 0 \<and> unat b + n * 2 ^ 21 < 2 ^ 64"

lemma hugepage_unat: "unat HUGEPAGE_SIZE = 2 ^ 21"
  by (simp add: HUGEPAGE_SIZE_def)

lemma mod_hugepage: "b mod HUGEPAGE_SIZE = 0 \<longleftrightarrow> unat b mod 2 ^ 21 = 0"
proof -
  have "unat (b mod HUGEPAGE_SIZE) = unat b mod 2 ^ 21"
    by (simp only: unat_mod_distrib hugepage_unat)
  then show ?thesis by (simp only: unat_eq_0 [symmetric])
qed

lemma addr_at_0 [simp]: "addr_at b 0 = b"
  by (simp add: addr_at_def)

lemma addr_at_Suc: "addr_at b (Suc i) = addr_at (b + HUGEPAGE_SIZE) i"
  by (simp add: addr_at_def algebra_simps)

lemma addr_at_unat:
  assumes "range_ok b n" and "i \<le> n"
  shows "unat (addr_at b i) = unat b + i * 2 ^ 21"
proof -
  have b: "unat b + i * 2 ^ 21 < 2 ^ 64"
    using assms by (simp add: range_ok_def)
  have "addr_at b i = of_nat (unat b + i * 2 ^ 21)"
    by (simp add: addr_at_def HUGEPAGE_SIZE_def)
  then show ?thesis
    by (intro of_nat_inverse) (use b in simp_all)
qed

lemma addr_at_inj:
  assumes "range_ok b n" and "i \<le> n" and "j \<le> n"
  shows "addr_at b i = addr_at b j \<longleftrightarrow> i = j"
proof
  assume "addr_at b i = addr_at b j"
  then have "unat (addr_at b i) = unat (addr_at b j)" by (rule arg_cong)
  then have "unat b + i * 2 ^ 21 = unat b + j * 2 ^ 21"
    unfolding addr_at_unat [OF assms(1,2)] addr_at_unat [OF assms(1,3)] .
  then show "i = j" by simp
qed simp

lemma addr_at_less:
  assumes "range_ok b n"
  shows "b < addr_at b n \<longleftrightarrow> 0 < n"
  unfolding word_less_nat_alt addr_at_unat [OF assms order.refl] by simp

lemma range_ok_Suc:
  assumes "range_ok b (Suc n)"
  shows "range_ok (b + HUGEPAGE_SIZE) n"
proof -
  have "unat (b + HUGEPAGE_SIZE) = unat b + 2 ^ 21"
    using addr_at_unat [OF assms, of 1] by (simp add: addr_at_def)
  then show ?thesis
    using assms by (auto simp: range_ok_def mod_hugepage)
qed

section \<open>Lookups\<close>

abbreviation lookup :: "ucm_state \<Rightarrow> hemem_process \<Rightarrow> u64 \<Rightarrow> ptr" where
  "lookup s P v \<equiv> HASH_FIND (va_key s) (pages_table (mm P)) v"

lemma allocated_lookup:
  assumes inv: "sys_ok s" and P: "procs s pr = Some P" and p: "pg_list s p = Some (tier_free fast)"
    and al: "allocated fast pr P p v s s'" and N: "procs s' pr = Some N"
  shows "lookup s' N u = (if u = v then p else lookup s P u)"
proof -
  note a = allocated_parts [OF inv p al]
  have "p \<notin> tab_elems (pages_table (mm P))"
    using free_page_unknown(7) [OF inv p P] by simp
  then have "HASH_FIND (va_key s') (pages_table (mm P)) u = lookup s P u"
    by (intro HASH_FIND_cong) (use a(4) in metis)
  moreover have "N = new_proc fast p (pt_to_pagesize (pt (pages s p))) ((pages s p)\<lparr>va := v\<rparr>) P"
    using al N by (simp add: allocated_def)
  then have "pages_table (mm N) = (v, p) # pages_table (mm P)" by simp
  ultimately show ?thesis using a(10) by simp
qed

text \<open>The bytes of a page's frame are zero.\<close>

definition frame_zero :: "ucm_state \<Rightarrow> ptr \<Rightarrow> bool" where
  "frame_zero s p \<longleftrightarrow> (\<forall>k < pt_to_pagesize (pt (pages s p)).
     ucm_mem s (devdax_offset_to_addr (devdax_offset (pages s p)) (in_dram (pages s p)) s + k) = 0)"

lemma allocated_mem:
  assumes inv: "sys_ok s" and p: "pg_list s p = Some (tier_free fast)" and al: "allocated fast pr P p v s s'"
  shows "frame_zero s' p" and "frame_zero s q \<Longrightarrow> frame_zero s' q"
proof -
  note a = allocated_parts [OF inv p al]
  have m: "ucm_mem s' = zeroed (pages s p) s" and r: "same_registry s s'"
    using al by (simp_all add: allocated_def)
  then have d: "devdax_offset_to_addr off f s' = devdax_offset_to_addr off f s" for off f
    by (simp add: devdax_offset_to_addr_def same_registry_def)
  show "frame_zero s' p"
    by (simp add: frame_zero_def m d a(5-7) zeroed_def hemem_memset_def)
  show "frame_zero s' q" if "frame_zero s q"
    using that by (simp add: frame_zero_def m d a(5-7) zeroed_def hemem_memset_def)
qed

section \<open>Allocating a range\<close>

lemma allocated_next:
  assumes inv: "sys_ok s" and P: "procs s pr = Some P" and p: "pg_list s p = Some (tier_free fast)"
    and al: "allocated fast pr P p v s s'"
  obtains N where "procs s' = (procs s)(pr \<mapsto> N)" "process_clock N = process_clock P"
    "held s' = held s" "free_page_ring (mm N) = free_page_ring (mm P)"
    "free_clocks_ok s P \<Longrightarrow> free_clocks_ok s' N"
    "length (page_seq s Slowmem_Free) \<le> Suc (length (page_seq s' Slowmem_Free))"
proof -
  note a = allocated_parts [OF inv p al]
  let ?N = "new_proc fast p (pt_to_pagesize (pt (pages s p))) ((pages s p)\<lparr>va := v\<rparr>) P"
  have l: "pg_list s' = (pg_list s)(p := Some (bin fast pr COLD))" "procs s' = (procs s)(pr \<mapsto> ?N)"
    "held s' = held s" and q: "page_seq s' = (page_seq s)(tier_free fast := butlast (page_seq s (tier_free fast)),
      bin fast pr COLD := p # page_seq s (bin fast pr COLD))"
    using al by (simp_all add: allocated_def)
  have "free_clocks_ok s' ?N" if "free_clocks_ok s P"
    using that l(1) a(9) by (auto simp: free_clocks_ok_def clocks_ok_def split: if_splits)
  moreover have "length (page_seq s Slowmem_Free) \<le> Suc (length (page_seq s' Slowmem_Free))"
    by (cases fast) (simp_all add: q)
  ultimately show thesis
    using that [of ?N] l by simp
qed

definition mapped_resp :: "ucm_state \<Rightarrow> hemem_process \<Rightarrow> u64 \<Rightarrow> hemem_page_app \<Rightarrow> bool" where
  "mapped_resp s P v r \<longleftrightarrow> lookup s P v \<noteq> NULL \<and> r = page_resp v (pages s (lookup s P v)) \<and>
     frame_zero s (lookup s P v)"

lemma hugepage_pt: "\<lbrakk>sys_ok s; pg_list s p \<noteq> None\<rbrakk> \<Longrightarrow> pt (pages s p) = HUGEP"
  by (simp add: sys_ok_def frames_ok_def frame_ok_def)

lemma allocated_resp:
  assumes inv: "sys_ok s" and P: "procs s pr = Some P" and p: "pg_list s p = Some (tier_free fast)"
    and al: "allocated fast pr P p v s s'" and N: "procs s' pr = Some N" and nn: "p \<noteq> NULL"
  shows "mapped_resp s' N v (page_resp v (pages s p))"
    and "u \<noteq> v \<Longrightarrow> mapped_resp s P u r \<Longrightarrow> mapped_resp s' N u r"
proof -
  note a = allocated_parts [OF inv p al] and l = allocated_lookup [OF inv P p al N] and m = allocated_mem [OF inv p al]
  show "mapped_resp s' N v (page_resp v (pages s p))"
    using nn m(1) by (simp add: mapped_resp_def l page_resp_def a(5-7))
  show "mapped_resp s' N u r" if "u \<noteq> v" "mapped_resp s P u r"
    using that m(2) by (simp add: mapped_resp_def l page_resp_def a(5-7))
qed

text \<open>
  A process has been given free pages at some addresses: it owns exactly these pages more,
  and every other address, its requests and the pages in use are as before.
\<close>

definition extended :: "ptr \<Rightarrow> hemem_process \<Rightarrow> hemem_process \<Rightarrow> u64 set \<Rightarrow> ucm_state \<Rightarrow> ucm_state \<Rightarrow> bool" where
  "extended pr P N A s s' \<longleftrightarrow>
     (\<forall>x. owner s' x = (if x \<in> lookup s' N ` A then Some pr else owner s x)) \<and>
     (\<forall>x \<in> lookup s' N ` A. owner s x = None) \<and> (\<forall>u. u \<notin> A \<longrightarrow> lookup s' N u = lookup s P u) \<and>
     (\<forall>x. owner s x \<noteq> None \<longrightarrow> pages s' x = pages s x) \<and>
     free_page_ring (mm N) = free_page_ring (mm P) \<and> hot_ring (mm N) = hot_ring (mm P) \<and> cold_ring (mm N) = cold_ring (mm P)"

lemma extended_refl: "extended pr P P {} s s"
  by (simp add: extended_def)

lemma allocated_extended:
  assumes inv: "sys_ok s" and P: "procs s pr = Some P" and p: "pg_list s p = Some (tier_free fast)"
    and al: "allocated fast pr P p v s s'" and N: "procs s' pr = Some N"
  shows "extended pr P N {v} s s'"
proof -
  note a = allocated_parts [OF inv p al] and l = allocated_lookup [OF inv P p al N]
  have op: "owner s p = None" using p by simp
  have "pages s' x = pages s x" if "owner s x \<noteq> None" for x using a(4) op that by metis
  moreover have "N = new_proc fast p (pt_to_pagesize (pt (pages s p))) ((pages s p)\<lparr>va := v\<rparr>) P"
    using al N by (simp add: allocated_def)
  then have "free_page_ring (mm N) = free_page_ring (mm P)" "hot_ring (mm N) = hot_ring (mm P)"
    "cold_ring (mm N) = cold_ring (mm P)"
    by simp_all
  moreover have "lookup s' N ` {v} = {p}" using l by simp
  ultimately show ?thesis unfolding extended_def using l a(1) op by simp
qed

lemma extendedD:
  assumes "extended pr P N A s s'"
  shows "owner s' x = (if x \<in> lookup s' N ` A then Some pr else owner s x)"
    and "x \<in> lookup s' N ` A \<Longrightarrow> owner s x = None" and "v \<notin> A \<Longrightarrow> lookup s' N v = lookup s P v"
    and "owner s x \<noteq> None \<Longrightarrow> pages s' x = pages s x" and "free_page_ring (mm N) = free_page_ring (mm P)"
    and "hot_ring (mm N) = hot_ring (mm P)" and "cold_ring (mm N) = cold_ring (mm P)"
proof -
  note a = assms [unfolded extended_def]
  note b = a [THEN conjunct2, THEN conjunct2, THEN conjunct2]
  show "owner s' x = (if x \<in> lookup s' N ` A then Some pr else owner s x)" by (rule a [THEN conjunct1, THEN spec])
  show "x \<in> lookup s' N ` A \<Longrightarrow> owner s x = None" by (rule a [THEN conjunct2, THEN conjunct1, THEN bspec])
  show "v \<notin> A \<Longrightarrow> lookup s' N v = lookup s P v"
    by (rule a [THEN conjunct2, THEN conjunct2, THEN conjunct1, rule_format])
  show "owner s x \<noteq> None \<Longrightarrow> pages s' x = pages s x" by (rule b [THEN conjunct1, rule_format])
  show "free_page_ring (mm N) = free_page_ring (mm P)" "hot_ring (mm N) = hot_ring (mm P)"
    "cold_ring (mm N) = cold_ring (mm P)"
    using b by blast+
qed

lemma extended_trans:
  assumes 1: "extended pr P N A s t" and 2: "extended pr N Q B t u" and d: "A \<inter> B = {}"
  shows "extended pr P Q (A \<union> B) s u"
proof -
  note e = extendedD [OF 1] and f = extendedD [OF 2]
  have l: "lookup u Q v = lookup t N v" if "v \<in> A" for v using f(3) d that by blast
  then have A: "lookup u Q ` (A \<union> B) = lookup t N ` A \<union> lookup u Q ` B" by (simp add: image_Un)
  have o: "owner s x \<noteq> None \<Longrightarrow> owner t x = owner s x" for x using e(1,2) [of x] by metis
  have "owner u x = (if x \<in> lookup u Q ` (A \<union> B) then Some pr else owner s x)" for x
    unfolding A f(1) [of x] e(1) [of x] by (simp only: Un_iff if_splits(1)) simp
  moreover have "\<forall>x \<in> lookup u Q ` (A \<union> B). owner s x = None"
    unfolding A using e(2) f(2) o by (metis Un_iff)
  moreover have "lookup u Q v = lookup s P v" if "v \<notin> A \<union> B" for v
    using that e(3) f(3) by simp
  moreover have "pages u x = pages s x" if "owner s x \<noteq> None" for x
    using that e(4) f(4) o by metis
  ultimately show ?thesis unfolding extended_def e(5-7) [symmetric] f(5-7) by blast
qed

lemma allocate_range:
  assumes spec: "alloc_spec alloc"
  shows "\<lbrakk>sys_ok s; procs s pr = Some P; pr \<notin> held s; range_ok b n;
      \<forall>i < n. lookup s P (addr_at b i) = NULL; free_clocks_ok s P;
      n \<le> length (page_seq s Slowmem_Free); n < fuel\<rbrakk> \<Longrightarrow>
    \<exists>rs s' N. ucm_allocate_loop alloc fuel pr b (addr_at b n) resps s
        = Inr (int (length resps + n), resps @ rs, s') \<and> kept pr s s' \<and>
      extended pr P N (addr_at b ` {..<n}) s s' \<and>
      procs s' = (procs s)(pr \<mapsto> N) \<and> length rs = n \<and>
      (\<forall>i < n. mapped_resp s' N (addr_at b i) (rs ! i)) \<and>
      (\<forall>u r. u \<notin> addr_at b ` {..<n} \<longrightarrow> mapped_resp s P u r \<longrightarrow> mapped_resp s' N u r)"
proof (induction n arbitrary: b s P resps fuel)
  case 0
  then show ?case
    using addr_at_less [of b 0] by (cases fuel) (auto simp: map_upd_triv kept_refl extended_refl intro!: exI [of _ P])
next
  case (Suc n)
  obtain f where f: "fuel = Suc f" "n < f" using Suc.prems(8) by (cases fuel) auto
  have b: "b \<noteq> 0" "b mod HUGEPAGE_SIZE = 0" and lt: "b < addr_at b (Suc n)"
    using Suc.prems(4) addr_at_less [OF Suc.prems(4)] by (simp_all add: range_ok_def)
  have "lookup s P (addr_at b 0) = NULL" using Suc.prems(5) by blast
  then have v: "page_addr_ok b s P" using b by (simp add: page_addr_ok_def)
  obtain p fast s1 where 1: "ucm_allocate_one alloc pr b s = Inr (Some (page_resp b (pages s p)), s1)"
    "pg_list s p = Some (tier_free fast)" "allocated fast pr P p b s s1" "sys_ok s1"
    using allocate_one_ok [OF spec Suc.prems(1-3) v Suc.prems(6)] Suc.prems(7) by auto
  obtain N where N: "procs s1 = (procs s)(pr \<mapsto> N)" "process_clock N = process_clock P" "held s1 = held s"
    "free_clocks_ok s P \<Longrightarrow> free_clocks_ok s1 N"
    "length (page_seq s Slowmem_Free) \<le> Suc (length (page_seq s1 Slowmem_Free))"
    using allocated_next [OF Suc.prems(1,2) 1(2,3)] by blast
  have N1: "procs s1 pr = Some N" using N(1) by simp
  have nn: "p \<noteq> NULL" using Suc.prems(1) 1(2) pl_wf_nonnull by (auto simp: sys_ok_def ucm_inv_def pl_wf_mem)
  let ?b = "b + HUGEPAGE_SIZE"
  have ne: "addr_at b (Suc i) \<noteq> b" if "i \<le> n" for i
    using addr_at_inj [OF Suc.prems(4), of "Suc i" 0] that by simp
  have lk: "\<forall>i < n. lookup s1 N (addr_at ?b i) = NULL"
  proof (intro allI impI)
    fix i assume "i < n"
    then show "lookup s1 N (addr_at ?b i) = NULL"
      using Suc.prems(5) ne [of i] by (simp add: allocated_lookup [OF Suc.prems(1,2) 1(2,3) N1] flip: addr_at_Suc)
  qed
  have st: "pr \<notin> held s1" "free_clocks_ok s1 N" "n \<le> length (page_seq s1 Slowmem_Free)"
    using N(3-5) Suc.prems(3,6,7) by simp_all
  obtain rs s' Q where s': "ucm_allocate_loop alloc f pr ?b (addr_at ?b n) (resps @ [page_resp b (pages s p)]) s1
      = Inr (int (length (resps @ [page_resp b (pages s p)]) + n), (resps @ [page_resp b (pages s p)]) @ rs, s')"
    "kept pr s1 s'" "extended pr N Q (addr_at ?b ` {..<n}) s1 s'" "procs s' = (procs s1)(pr \<mapsto> Q)" "length rs = n"
    "\<forall>i < n. mapped_resp s' Q (addr_at ?b i) (rs ! i)"
    "\<forall>u r. u \<notin> addr_at ?b ` {..<n} \<longrightarrow> mapped_resp s1 N u r \<longrightarrow> mapped_resp s' Q u r"
    using Suc.IH [OF 1(4) N1 st(1) range_ok_Suc [OF Suc.prems(4)] lk st(2,3) f(2),
        of "resps @ [page_resp b (pages s p)]"] by blast
  note r1 = allocated_resp [OF Suc.prems(1,2) 1(2,3) N1 nn]
  have b': "b \<notin> addr_at ?b ` {..<n}"
  proof
    assume "b \<in> addr_at ?b ` {..<n}"
    then obtain i where "i < n" "addr_at b (Suc i) = b" by (auto simp: addr_at_Suc)
    then show False using ne [of i] by simp
  qed
  have "app_pt (page_resp b (pages s p)) = HUGEP"
    using hugepage_pt [OF Suc.prems(1)] 1(2) by (simp add: page_resp_def)
  then have "ucm_allocate_loop alloc fuel pr b (addr_at b (Suc n)) resps s
      = Inr (int (length resps + Suc n), resps @ (page_resp b (pages s p) # rs), s')"
    using s'(1) 1(1) lt f(1) by (simp add: addr_at_Suc)
  moreover have "mapped_resp s' Q (addr_at b i) ((page_resp b (pages s p) # rs) ! i)" if "i < Suc n" for i
    using that s'(6,7) r1(1) b' by (cases i) (auto simp: addr_at_Suc)
  moreover have "mapped_resp s' Q u r" if "u \<notin> addr_at b ` {..<Suc n}" "mapped_resp s P u r" for u r
  proof -
    have "u \<noteq> b" "u \<notin> addr_at ?b ` {..<n}"
      using that(1) by (force simp flip: addr_at_Suc)+
    then show ?thesis using s'(7) r1(2) that(2) by blast
  qed
  moreover note k1 = allocated_kept [OF Suc.prems(1,2) 1(2-4)]
  moreover have "kept pr s s'" using k1(1) s'(2) by (rule kept_trans) (metis k1(2))
  moreover have R: "addr_at b ` {..<Suc n} = {b} \<union> addr_at ?b ` {..<n}"
    by (simp add: lessThan_Suc_eq_insert_0 image_image addr_at_Suc)
  have "extended pr P Q (addr_at b ` {..<Suc n}) s s'"
    unfolding R by (rule extended_trans [OF allocated_extended [OF Suc.prems(1,2) 1(2,3) N1] s'(3)]) (use b' in blast)
  ultimately show ?case
    using s'(3-5) N(1) by (intro exI [of _ "page_resp b (pages s p) # rs"] exI [of _ s'] exI [of _ Q]) simp
qed

section \<open>Freeing a range\<close>

lemma lookup_mapped:
  assumes inv: "sys_ok s" and P: "procs s pr = Some P" and v: "lookup s P v \<noteq> NULL"
  shows "lookup s P v \<in> mapped s pr" and "va (pages s (lookup s P v)) = v"
proof -
  have tk: "tab_ok (va_key s) (pages_table (mm P))" "tab_elems (pages_table (mm P)) = mapped s pr"
    using inv P by (simp_all add: sys_ok_def proc_ok_def tables_ok_def)
  have "(v, lookup s P v) \<in> set (pages_table (mm P))"
    using HASH_FIND_mem [OF v] by simp
  then show "lookup s P v \<in> mapped s pr" "va (pages s (lookup s P v)) = v"
    using tk tab_okD(1) [OF tk(1)] by force+
qed

lemma unmap_lookup:
  assumes inv: "sys_ok s" and P: "procs s pr = Some P" and v: "lookup s P v = p" "p \<noteq> NULL"
  shows "lookup (unmap pr p P r s) (unmapped_proc f p r P) u = (if u = v then NULL else lookup s P u)"
proof -
  have tk: "tab_ok (va_key s) (pages_table (mm P))"
    using inv P by (simp add: sys_ok_def proc_ok_def tables_ok_def)
  have p: "p \<in> tab_elems (pages_table (mm P))" "va_key s p = v"
    using HASH_FIND_mem [of "va_key s" "pages_table (mm P)" v] v by force+
  have "va_key (unmap pr p P r s) = va_key s" by (simp add: fun_eq_iff)
  then show ?thesis
    using find_after_delete [OF tk p(1), of u] p(2) by simp
qed

definition range_cover :: "u64 \<Rightarrow> nat \<Rightarrow> u64 \<Rightarrow> bool" where
  "range_cover b n e \<longleftrightarrow> range_ok b n \<and> unat e \<le> unat b + n * 2 ^ 21 \<and>
     (n = 0 \<or> unat b + (n - 1) * 2 ^ 21 < unat e)"

lemma range_cover_Suc: "range_cover b (Suc n) e \<Longrightarrow> range_cover (b + HUGEPAGE_SIZE) n e"
proof -
  assume c: "range_cover b (Suc n) e"
  then have r: "range_ok b (Suc n)" by (simp add: range_cover_def)
  have "unat (b + HUGEPAGE_SIZE) = unat b + 2 ^ 21"
    using addr_at_unat [OF r, of 1] by (simp add: addr_at_def)
  then show ?thesis
    using c range_ok_Suc [OF r] by (cases n) (simp_all add: range_cover_def)
qed

lemma range_cover_less: "range_cover b n e \<Longrightarrow> b < e \<longleftrightarrow> 0 < n"
  by (cases n) (auto simp: range_cover_def word_less_nat_alt)

text \<open>The pages a range of addresses finds.\<close>

definition range_pages :: "ucm_state \<Rightarrow> hemem_process \<Rightarrow> u64 \<Rightarrow> nat \<Rightarrow> ptr list" where
  "range_pages s P b n = filter (\<lambda>p. p \<noteq> NULL) (map (\<lambda>i. lookup s P (addr_at b i)) [0..<n])"

lemma range_pages_Suc:
  "range_pages s P b (Suc n) =
     (if lookup s P b \<noteq> NULL then [lookup s P b] else []) @ range_pages s P (b + HUGEPAGE_SIZE) n"
proof -
  have "map (\<lambda>i. lookup s P (addr_at b i)) [0..<Suc n] =
      lookup s P b # map (\<lambda>i. lookup s P (addr_at (b + HUGEPAGE_SIZE) i)) [0..<n]"
    unfolding upt_rec [of 0 "Suc n"] map_Suc_upt [symmetric] by (simp add: addr_at_Suc comp_def)
  then show ?thesis by (simp add: range_pages_def)
qed

lemma range_pages_cong:
  "(\<And>i. i < n \<Longrightarrow> lookup s' P' (addr_at b i) = lookup s P (addr_at b i)) \<Longrightarrow>
     range_pages s' P' b n = range_pages s P b n"
  unfolding range_pages_def by (metis (no_types, lifting) atLeastLessThan_iff map_eq_conv set_upt)

definition same_marks :: "hemem_process \<Rightarrow> hemem_process \<Rightarrow> bool" where
  "same_marks P N \<longleftrightarrow> hot_ring (mm N) = hot_ring (mm P) \<and> cold_ring (mm N) = cold_ring (mm P)"

lemma record_freed_ok:
  assumes inv: "sys_ok s" and P: "procs s pr = Some P"
  shows "\<exists>s' N. ucm_stats_record_page_freed pr n s = Inr s' \<and> kept pr s s' \<and> owner s' = owner s \<and>
    procs s' = (procs s)(pr \<mapsto> N) \<and> pages s' = pages s \<and> pages_table (mm N) = pages_table (mm P) \<and>
    free_page_ring (mm N) = free_page_ring (mm P) \<and> same_marks P N"
proof -
  let ?t = "s\<lparr>stats := (stats s)\<lparr>st_pages_freed := st_pages_freed (stats s) + 1,
      st_mem_allocated := st_mem_allocated (stats s) - n\<rparr>\<rparr>"
  let ?N = "mm_update (\<lambda>m. m\<lparr>mem_allocated := mem_allocated m - n\<rparr>) P"
  have "sys_ok ?t" "procs ?t pr = Some P" using inv P by simp_all
  moreover have "proc_same P ?N" by (simp add: proc_same_def cur_cool_def)
  ultimately have "sys_ok (?t\<lparr>procs := (procs ?t)(pr \<mapsto> ?N)\<rparr>)" by (rule sys_ok_proc_same)
  then have "kept pr s (?t\<lparr>procs := (procs ?t)(pr \<mapsto> ?N)\<rparr>)"
    using P by (intro kept_quiet [where P = P and P' = ?N]) (simp_all add: same_registry_def listed_def)
  then show ?thesis
    using P by (intro exI [of _ "?t\<lparr>procs := (procs ?t)(pr \<mapsto> ?N)\<rparr>"] exI [of _ ?N])
      (simp add: ucm_stats_record_page_freed_def owner_def fun_eq_iff same_marks_def)
qed

text \<open>One iteration of the loop.\<close>

lemma deallocate_step:
  assumes inv: "sys_ok s" and P: "procs s pr = Some P" and room: "lookup s P b \<noteq> NULL \<Longrightarrow> 0 < free_room P"
    and lt: "b < e"
  obtains s' N where "ucm_deallocate_loop (Suc f) pr b e k s =
      ucm_deallocate_loop f pr (b + HUGEPAGE_SIZE) e (if lookup s P b \<noteq> NULL then k + 1 else k) s'"
    "kept pr s s'" "owner s' = owner s" "procs s' = (procs s)(pr \<mapsto> N)"
    "\<And>u. lookup s' N u = (if u = b then NULL else lookup s P u)"
    "ring_list (free_page_ring (mm N)) = ring_list (free_page_ring (mm P)) @
       (if lookup s P b \<noteq> NULL then [lookup s P b] else [])"
    "free_room N = (if lookup s P b \<noteq> NULL then free_room P - 1 else free_room P)" "same_marks P N"
proof (cases "lookup s P b = NULL")
  case True
  then show ?thesis
    using that [of s P] kept_refl [OF inv P] P lt by (auto simp: mm_find_page_def get_default_page_size_def map_upd_triv same_marks_def)
next
  case False
  let ?p = "lookup s P b"
  have m: "?p \<in> mapped s pr" by (rule lookup_mapped [OF inv P False])
  obtain r where r: "mm_remove_page pr ?p s = Inr (unmap pr ?p P r s)" "sys_ok (unmap pr ?p P r s)"
    "ring_list r = ring_list (free_page_ring (mm P)) @ [?p]"
    "free_room (unmapped_proc (in_dram (pages s ?p)) ?p r P) = free_room P - 1"
    using remove_page_ok [OF inv P m room [OF False]] by blast
  let ?s = "unmap pr ?p P r s" and ?Q = "unmapped_proc (in_dram (pages s ?p)) ?p r P"
  have "procs ?s pr = Some ?Q" by simp
  from record_freed_ok [OF r(2) this, of HUGEPAGE_SIZE]
  obtain s' N where s': "ucm_stats_record_page_freed pr HUGEPAGE_SIZE ?s = Inr s'" "kept pr ?s s'"
    "owner s' = owner ?s" "procs s' = (procs ?s)(pr \<mapsto> N)" "pages s' = pages ?s"
    "pages_table (mm N) = pages_table (mm ?Q)" "free_page_ring (mm N) = free_page_ring (mm ?Q)"
    "same_marks ?Q N"
    by blast
  have "kept pr s ?s"
    using r(2) P by (intro kept_quiet [where P = P and P' = ?Q]) (simp_all add: listed_def, simp add: unmap_def)
  then have "kept pr s s'" using s'(2) by (rule kept_trans) simp
  moreover have "pt (pages s ?p) = HUGEP"
    using hugepage_pt [OF inv] mapped_page(2) [OF inv P m] by (auto simp: owner_eq)
  then have "ucm_deallocate_loop (Suc f) pr b e k s =
      ucm_deallocate_loop f pr (b + HUGEPAGE_SIZE) e (k + 1) s'"
    using False P lt r(1) s'(1) by (simp add: mm_find_page_def)
  moreover have "lookup s' N u = (if u = b then NULL else lookup s P u)" for u
    using unmap_lookup [OF inv P refl False, of r "in_dram (pages s ?p)" u] s'(5,6) by simp
  moreover have "free_room N = free_room P - 1"
    using r(4) s'(7) by (simp add: free_room_def)
  moreover have "same_marks P N" using s'(8) by (simp add: same_marks_def)
  ultimately show ?thesis
    using that [of s' N] False s' r(3) by simp
qed

lemma deallocate_range:
  "\<lbrakk>sys_ok s; procs s pr = Some P; length (range_pages s P b n) \<le> free_room P; range_cover b n e; n < fuel\<rbrakk> \<Longrightarrow>
    \<exists>s' N. ucm_deallocate_loop fuel pr b e k s = Inr (k + of_nat (length (range_pages s P b n)), s') \<and>
      kept pr s s' \<and> owner s' = owner s \<and> procs s' = (procs s)(pr \<mapsto> N) \<and>
      (\<forall>u. lookup s' N u = (if u \<in> addr_at b ` {..<n} then NULL else lookup s P u)) \<and>
      ring_list (free_page_ring (mm N)) = ring_list (free_page_ring (mm P)) @ range_pages s P b n \<and> same_marks P N"
proof (induction n arbitrary: b s P k fuel)
  case 0
  then show ?case
    using range_cover_less [of b 0 e] by (cases fuel) (auto simp: range_pages_def map_upd_triv kept_refl same_marks_def intro!: exI [of _ P])
next
  case (Suc n)
  obtain f where f: "fuel = Suc f" "n < f" using Suc.prems(5) by (cases fuel) auto
  let ?b = "b + HUGEPAGE_SIZE" and ?k = "if lookup s P b \<noteq> NULL then k + 1 else k"
  have ok: "range_ok b (Suc n)" and lt: "b < e"
    using Suc.prems(4) range_cover_less [OF Suc.prems(4)] by (simp_all add: range_cover_def)
  have room: "0 < free_room P" if "lookup s P b \<noteq> NULL"
    using Suc.prems(3) that by (simp add: range_pages_Suc)
  obtain s1 N1 where 1: "ucm_deallocate_loop (Suc f) pr b e k s = ucm_deallocate_loop f pr ?b e ?k s1"
    "kept pr s s1" "owner s1 = owner s" "procs s1 = (procs s)(pr \<mapsto> N1)"
    "\<And>u. lookup s1 N1 u = (if u = b then NULL else lookup s P u)"
    "ring_list (free_page_ring (mm N1)) = ring_list (free_page_ring (mm P)) @
       (if lookup s P b \<noteq> NULL then [lookup s P b] else [])"
    "free_room N1 = (if lookup s P b \<noteq> NULL then free_room P - 1 else free_room P)" "same_marks P N1"
    using deallocate_step [OF Suc.prems(1,2) room lt, of f k] by blast
  have P1: "procs s1 pr = Some N1" using 1(4) by simp
  have ne: "addr_at ?b i \<noteq> b" if "i < n" for i
    using addr_at_inj [OF ok, of "Suc i" 0] that by (simp add: addr_at_Suc)
  have rp: "range_pages s1 N1 ?b n = range_pages s P ?b n"
    by (rule range_pages_cong) (simp add: 1(5) ne)
  then have "length (range_pages s1 N1 ?b n) \<le> free_room N1"
    using Suc.prems(3) 1(7) by (auto simp: range_pages_Suc)
  from Suc.IH [OF keptD(1) [OF 1(2)] P1 this range_cover_Suc [OF Suc.prems(4)] f(2), of ?k]
  obtain s' N where s': "ucm_deallocate_loop f pr ?b e ?k s1 = Inr (?k + of_nat (length (range_pages s P ?b n)), s')"
    "kept pr s1 s'" "owner s' = owner s1" "procs s' = (procs s1)(pr \<mapsto> N)"
    "\<forall>u. lookup s' N u = (if u \<in> addr_at ?b ` {..<n} then NULL else lookup s1 N1 u)"
    "ring_list (free_page_ring (mm N)) = ring_list (free_page_ring (mm N1)) @ range_pages s P ?b n"
    "same_marks N1 N"
    unfolding rp by blast
  have "addr_at b ` {..<Suc n} = insert b (addr_at ?b ` {..<n})"
    by (simp add: lessThan_Suc_eq_insert_0 image_image addr_at_Suc)
  then have "lookup s' N u = (if u \<in> addr_at b ` {..<Suc n} then NULL else lookup s P u)" for u
    using s'(5) 1(5) by simp
  moreover have "kept pr s s'" using 1(2) s'(2) by (rule kept_trans) (simp add: 1(3))
  moreover have "same_marks P N" using 1(8) s'(7) by (simp add: same_marks_def)
  ultimately show ?case
    using s'(1,3,4,6) 1(1,3,4,6) f(1) by (intro exI [of _ s'] exI [of _ N]) (simp add: range_pages_Suc)
qed

end
