(* ===== verification/Migration_Correct.thy ===== *)
theory Migration_Correct
  imports Sys_Range
begin

text \<open>
  Migration of pages between the tiers (\<open>src/ucm/migration.c\<close> and
  \<open>src/ucm/policy/migrate.c\<close>): which page is picked, and what one migration does to the
  lists, the tables and the memory.
\<close>

section \<open>Candidates\<close>

text \<open>
  The search stops at the first page of the list that has not been migrated in the last
  epochs, takes it off the list and returns it.
\<close>

definition movable :: "ucm_state \<Rightarrow> ptr \<Rightarrow> bool" where
  "movable s p \<longleftrightarrow> migratable (scan_epoch s) (pages s p)"

lemma next_after:
  assumes wf: "pl_wf s" and q: "page_seq s q = xs @ ys"
  shows "next_page q (last_of NULL xs) s = first_of ys NULL"
proof (cases xs rule: rev_cases)
  case Nil
  then show ?thesis using next_page_null [OF wf, of q] q by simp
next
  case (snoc zs z)
  then show ?thesis using page_neighbours(1) [OF wf, of q zs z ys] q by simp
qed

lemma find_candidate_in_ok:
  assumes inv: "ucm_inv s" and P: "procs s pr = Some P"
  shows "\<lbrakk>page_seq s (bin f pr i) = xs @ ys; length ys < fuel\<rbrakk> \<Longrightarrow>
    find_candidate_in fuel pr (bin f pr i) (last_of NULL xs) s =
      (case find (movable s) ys of None \<Rightarrow> Inr (NULL, s)
       | Some p \<Rightarrow> andThen (page_list_remove (bin f pr i) p s) (\<lambda>s. Inr (p, s)))"
proof (induction fuel arbitrary: xs ys)
  case (Suc fuel)
  have wf: "pl_wf s" using inv by (simp add: ucm_inv_def)
  note nx = next_after [OF wf Suc.prems(1)]
  show ?case
  proof (cases ys)
    case Nil
    then show ?thesis using nx by simp
  next
    case (Cons y zs)
    have y: "pg_list s y = Some (bin f pr i)" "y \<in> set (page_seq s (bin f pr i))"
      using Suc.prems(1) Cons by (simp_all add: pl_wf_mem [OF wf])
    have v: "va (pages s y) \<noteq> 0" "y \<noteq> NULL" "pg_pid (pages s y) = pid P"
      by (rule ucm_inv_bin [OF inv y(1)]; use P in auto)+
    show ?thesis
    proof (cases "movable s y")
      case True
      obtain t where t: "page_list_remove (bin f pr i) y s = Inr t" "page_step s t" "pages t = pages s"
        using wf y(2) by (rule remove_step)
      then have "procs t = procs s" by (auto dest: page_step_frame(1))
      then show ?thesis
        using nx Cons v t P True by (simp flip: movable_def)
    next
      case False
      have "find_candidate_in fuel pr (bin f pr i) (last_of NULL (xs @ [y])) s =
          (case find (movable s) zs of None \<Rightarrow> Inr (NULL, s)
           | Some p \<Rightarrow> andThen (page_list_remove (bin f pr i) p s) (\<lambda>s. Inr (p, s)))"
        using Suc.prems Cons by (intro Suc.IH) simp_all
      then show ?thesis
        using nx Cons v False by (simp flip: movable_def)
    qed
  qed
qed simp

text \<open>Over several lists, the first list that has such a page decides.\<close>

lemma length_walk: "length (walk nx n p) = n"
  by (induction n arbitrary: p) simp_all

lemma find_append: "find Q (xs @ ys) = (case find Q xs of None \<Rightarrow> find Q ys | Some x \<Rightarrow> Some x)"
  by (induction xs) auto

lemma find_candidate_ok:
  assumes inv: "ucm_inv s" and P: "procs s pr = Some P"
  shows "find_candidate pr (map (bin f pr) is) s =
    (case find (movable s) (concat (map (\<lambda>i. page_seq s (bin f pr i)) is)) of
       None \<Rightarrow> Inr (NULL, s)
     | Some p \<Rightarrow> andThen (page_list_remove (bin f pr (hot (pages s p))) p s) (\<lambda>s. Inr (p, s)))"
proof (induction "is")
  case (Cons i "is")
  have wf: "pl_wf s" using inv by (simp add: ucm_inv_def)
  let ?xs = "page_seq s (bin f pr i)"
  have len: "length ?xs < Suc (unat (numentries (plists s (bin f pr i))))"
    by (simp add: page_seq_def length_walk)
  have 1: "find_candidate_in (Suc (unat (numentries (plists s (bin f pr i))))) pr (bin f pr i) NULL s =
      (case find (movable s) ?xs of None \<Rightarrow> Inr (NULL, s)
       | Some p \<Rightarrow> andThen (page_list_remove (bin f pr i) p s) (\<lambda>s. Inr (p, s)))"
    using find_candidate_in_ok [OF inv P, of f i "[]" ?xs, OF _ len]
    by (simp del: find_candidate_in.simps)
  show ?case
  proof (cases "find (movable s) ?xs")
    case None
    then show ?thesis using 1 Cons by (simp add: find_append del: find_candidate_in.simps)
  next
    case (Some p)
    then have "p \<in> set ?xs" by (auto simp: find_Some_iff)
    then have p: "pg_list s p = Some (bin f pr i)" by (simp add: pl_wf_mem [OF wf])
    have h: "hot (pages s p) = i" "p \<noteq> NULL" by (rule ucm_inv_bin [OF inv p], simp)+
    obtain t where "page_list_remove (bin f pr i) p s = Inr t"
      using wf \<open>p \<in> set ?xs\<close> by (rule remove_step)
    then show ?thesis using 1 Some h by (simp add: find_append del: find_candidate_in.simps)
  qed
qed simp

section \<open>Migrating one page\<close>

text \<open>
  The kernel and the application do what they are asked: write protection succeeds or finds
  the page gone, and the remap request is confirmed.
\<close>

definition env_good :: "ucm_env \<Rightarrow> bool" where
  "env_good env \<longleftrightarrow> (\<forall>s pr pg. env_remap env s pr pg = Reply True (app_va pg)) \<and>
     (\<forall>s p b. env_wp env s p b \<noteq> Ioctl_Error)"

definition migrate_page :: "bool \<Rightarrow> config \<Rightarrow> ucm_env \<Rightarrow> ptr \<Rightarrow> ptr \<Rightarrow> u64 \<Rightarrow> ucm_state \<Rightarrow> ucm_state result" where
  "migrate_page up = (if up then promote_one_page else demote_one_page)"

text \<open>The page and the process afterwards.\<close>

definition retabled :: "bool \<Rightarrow> ptr \<Rightarrow> u64 \<Rightarrow> process_mem \<Rightarrow> process_mem" where
  "retabled up p off = cxl_offset_to_page_update (\<lambda>t. if up then tab_del p t else (off, p) # t)"

definition slow_entry :: "bool \<Rightarrow> ptr \<Rightarrow> u64 \<Rightarrow> pa_proc_map_entry" where
  "slow_entry up pr off = (if up then zero_entry else \<lparr>ppe_pa = off, ppe_proc = pr, ppe_used = True\<rparr>)"

definition counted :: "bool \<Rightarrow> hemem_process \<Rightarrow> hemem_process" where
  "counted up = pstats_update (\<lambda>st. if up then st\<lparr>up_count := up_count st + 1\<rparr>
     else st\<lparr>down_count := down_count st + 1\<rparr>)"

definition moved_page :: "bool \<Rightarrow> ptr \<Rightarrow> u64 \<Rightarrow> u64 \<Rightarrow> hemem_page \<Rightarrow> hemem_page" where
  "moved_page up pr off ep pg = pg\<lparr>migration_uffd_unmap_pending := True, last_migrated_epoch := ep,
     migration_access_comp := max (migration_access_comp pg) (pt_to_cacheline_count (pt pg)),
     migrations_up := (if up then migrations_up pg + 1 else migrations_up pg),
     migrations_down := (if up then migrations_down pg else migrations_down pg + 1),
     devdax_offset := off, in_dram := up, pa_proc_entry := slow_entry up pr off,
     migrating := False, remap_lock := False\<rparr>"

definition recharged :: "bool \<Rightarrow> u64 \<Rightarrow> process_mem \<Rightarrow> process_mem" where
  "recharged up sz m = m\<lparr>
     current_fastmem := (if up then current_fastmem m + sz else current_fastmem m - sz),
     current_slowmem := (if up then current_slowmem m - sz else current_slowmem m + sz)\<rparr>"

definition moved_proc :: "bool \<Rightarrow> ptr \<Rightarrow> u64 \<Rightarrow> u64 \<Rightarrow> hemem_process \<Rightarrow> hemem_process" where
  "moved_proc up p off sz P = mm_update (recharged up sz) (mm_update (retabled up p off) (counted up P))"

definition copied :: "bool \<Rightarrow> u64 \<Rightarrow> hemem_page \<Rightarrow> ucm_state \<Rightarrow> u64 \<Rightarrow> 8 word" where
  "copied up off pg s = ucm_mem (hemem_memcpy (devdax_offset_to_addr off up s)
     (devdax_offset_to_addr (devdax_offset pg) (\<not> up) s) (pt_to_pagesize (pt pg)) s)"

definition same_links :: "ucm_state \<Rightarrow> ucm_state \<Rightarrow> bool" where
  "same_links s s' \<longleftrightarrow> pg_next s' = pg_next s \<and> pg_prev s' = pg_prev s \<and> pg_list s' = pg_list s \<and>
     plists s' = plists s \<and> held s' = held s"

definition migrated :: "bool \<Rightarrow> ptr \<Rightarrow> ptr \<Rightarrow> u64 \<Rightarrow> hemem_process \<Rightarrow> ucm_state \<Rightarrow> ucm_state \<Rightarrow> bool" where
  "migrated up pr p off P s s' \<longleftrightarrow> same_links s s' \<and> same_registry s s' \<and>
     pages s' = (pages s)(p := moved_page up pr off (scan_epoch s) (pages s p)) \<and>
     procs s' = (procs s)(pr \<mapsto> moved_proc up p off (pt_to_pagesize (pt (pages s p))) P) \<and>
     pa_to_proc_map s' = (if up then tab_del p (pa_to_proc_map s) else (off, p) # pa_to_proc_map s) \<and>
     ucm_mem s' = copied up off (pages s p) s"

text \<open>When a page can be migrated to a frame of the other tier.\<close>

definition movable_to :: "bool \<Rightarrow> ptr \<Rightarrow> u64 \<Rightarrow> ucm_state \<Rightarrow> bool" where
  "movable_to up p off s \<longleftrightarrow> p \<noteq> NULL \<and> in_dram (pages s p) = (\<not> up) \<and> pt (pages s p) = HUGEP \<and>
     tiers_ok s \<and> frame_at s (\<not> up) (devdax_offset (pages s p)) \<and> frame_at s up off"

definition tabled :: "bool \<Rightarrow> ptr \<Rightarrow> u64 \<Rightarrow> hemem_process \<Rightarrow> ucm_state \<Rightarrow> bool" where
  "tabled up p off P s \<longleftrightarrow>
     (if up then p \<in> tab_elems (cxl_offset_to_page (mm P)) \<and> p \<in> tab_elems (pa_to_proc_map s) \<and>
        ppe_used (pa_proc_entry (pages s p))
      else p \<notin> tab_elems (cxl_offset_to_page (mm P)) \<and> p \<notin> tab_elems (pa_to_proc_map s) \<and>
        \<not> ppe_used (pa_proc_entry (pages s p)) \<and>
        HASH_FIND (offset_key s) (cxl_offset_to_page (mm P)) off = NULL)"

definition can_move :: "bool \<Rightarrow> ptr \<Rightarrow> ptr \<Rightarrow> u64 \<Rightarrow> hemem_process \<Rightarrow> ucm_state \<Rightarrow> bool" where
  "can_move up pr p off P s \<longleftrightarrow> procs s pr = Some P \<and> pr \<noteq> NULL \<and>
     pg_pid (pages s p) = pid P \<and> \<not> remap_lock (pages s p) \<and> va (pages s p) \<noteq> 0 \<and>
     va (pages s p) mod HUGEPAGE_SIZE = 0 \<and> movable_to up p off s \<and> tabled up p off P s"

text \<open>The assertions on frames hold.\<close>

lemma frame_asserts:
  assumes "tiers_ok s" and "frame_at s fast off"
  shows "off < tier_size s fast" and "off + HUGEPAGE_SIZE \<le> tier_size s fast"
    and "devdax_offset_to_addr off fast s mod HUGEPAGE_SIZE = 0"
proof -
  have le: "unat off + 2 ^ 21 \<le> unat (tier_size s fast)" and al: "unat off mod 2 ^ 21 = 0"
    using assms(2) by (simp_all add: frame_at_def)
  have u: "unat (off + HUGEPAGE_SIZE) = unat off + 2 ^ 21"
    using le unat_u64_less [of "tier_size s fast"] by (simp add: unat_word_ariths HUGEPAGE_SIZE_def)
  show "off < tier_size s fast" using le by (simp add: word_less_nat_alt)
  show "off + HUGEPAGE_SIZE \<le> tier_size s fast" using le u by (simp add: word_le_nat_alt)
  let ?p = "if fast then fastmem_ptr s else slowmem_ptr s"
  have pm: "unat ?p mod 2 ^ 21 = 0" "unat ?p + unat (tier_size s fast) < 2 ^ 64"
    using assms(1) by (auto simp: tiers_ok_def mod_hugepage tier_size_def)
  then have "unat (?p + off) = unat ?p + unat off"
    using le by (simp add: unat_word_ariths)
  then have "unat (devdax_offset_to_addr off fast s) mod 2 ^ 21 = 0"
    using pm(1) al by (auto simp: devdax_offset_to_addr_def dvd_add simp flip: dvd_eq_mod_eq_0 split: if_splits)
  then show "devdax_offset_to_addr off fast s mod HUGEPAGE_SIZE = 0" by (simp add: mod_hugepage)
qed

lemma begin_migration_ok:
  assumes c: "can_move up pr p off P s" and e: "env_good env"
  shows "begin_migration env pr p s = Inr (upd_page p (\<lambda>pg. pg\<lparr>remap_lock := True, migrating := True,
    migration_uffd_unmap_pending := True, last_migrated_epoch := scan_epoch s,
    migration_access_comp := max (migration_access_comp pg) (pt_to_cacheline_count (pt pg))\<rparr>) s)"
proof -
  have w: "ucm_wp_page env p True t = Inr t" if "va (pages t p) = va (pages s p)" for t
    using that c e by (auto simp: ucm_wp_page_def can_move_def env_good_def split: ioctl_result.splits)
  show ?thesis
    using c by (simp add: begin_migration_def can_move_def w)
qed

lemma memcpy_frame [simp]:
  "procs (hemem_memcpy d a n s) = procs s" "pages (hemem_memcpy d a n s) = pages s"
  "stats (hemem_memcpy d a n s) = stats s" "pa_to_proc_map (hemem_memcpy d a n s) = pa_to_proc_map s"
  "same_links s (hemem_memcpy d a n s)" "same_registry s (hemem_memcpy d a n s)"
  by (simp_all add: hemem_memcpy_def same_links_def same_registry_def)

lemma same_links_trans: "same_links s t \<Longrightarrow> same_links t u \<Longrightarrow> same_links s u"
  by (simp add: same_links_def)

text \<open>
  The state after the copy and the change of the frame, before the page enters or leaves the
  tables of the slow tier.
\<close>

definition shifted :: "bool \<Rightarrow> ptr \<Rightarrow> u64 \<Rightarrow> hemem_page \<Rightarrow> hemem_page" where
  "shifted up pr off pg = pg\<lparr>
     migrations_up := (if up then migrations_up pg + 1 else migrations_up pg),
     migrations_down := (if up then migrations_down pg else migrations_down pg + 1),
     devdax_offset := off, in_dram := up\<rparr>"

lemma migrate_one_page_run:
  assumes c: "movable_to up p off s" and P: "procs s pr = Some P" and e: "env_good env"
  shows "\<exists>u. ucm_migrate_one_page cfg env pr p up off s =
      (if up then mm_remove_page_from_cxl pr p u else mm_add_page_to_cxl pr p u) \<and>
    pages u = (pages s)(p := shifted up pr off (pages s p)) \<and> procs u = (procs s)(pr \<mapsto> counted up P) \<and>
    pa_to_proc_map u = pa_to_proc_map s \<and> same_links s u \<and> same_registry s u \<and>
    ucm_mem u = copied up off (pages s p) s"
proof -
  have cc: "p \<noteq> NULL" "in_dram (pages s p) = (\<not> up)" "pt (pages s p) = HUGEP"
    "tiers_ok s" "frame_at s (\<not> up) (devdax_offset (pages s p))" "frame_at s up off"
    using c by (simp_all add: movable_to_def)
  note old = frame_asserts [OF cc(4,5)] and new = frame_asserts [OF cc(4,6)]
  have rm: "ipc_remap_pages env pr pa u = Inr IPC_SUCCESS" if "procs u pr = Some Q" for u pa Q
    using e that by (simp add: ipc_remap_pages_def env_good_def)
  have tz: "tier_size s True = get_fastmem_size s" "tier_size s False = get_slowmem_size s"
    by (simp_all add: tier_size_def get_fastmem_size_def get_slowmem_size_def)
  define u1 where "u1 = hemem_memcpy (devdax_offset_to_addr off up s)
     (devdax_offset_to_addr (devdax_offset (pages s p)) (\<not> up) s) HUGEPAGE_SIZE s"
  have fold: "hemem_memcpy (devdax_offset_to_addr off up s)
     (devdax_offset_to_addr (devdax_offset (pages s p)) (\<not> up) s) HUGEPAGE_SIZE s = u1"
    by (simp add: u1_def)
  define f where "f = (\<lambda>pg. if up then pg\<lparr>migrations_up := migrations_up pg + 1\<rparr>
    else pg\<lparr>migrations_down := migrations_down pg + 1\<rparr> :: hemem_page)"
  have 1: "pages u1 = pages s" "procs u1 = procs s" "pa_to_proc_map u1 = pa_to_proc_map s"
    "same_links s u1" "same_registry s u1" "ucm_mem u1 = copied up off (pages s p) s"
    using cc by (simp_all add: u1_def copied_def)
  have "\<exists>u2. (if up then ucm_stats_record_migration_up pr p HUGEPAGE_SIZE u1
      else ucm_stats_record_migration_down pr p HUGEPAGE_SIZE u1) = Inr u2 \<and>
    pages u2 = (pages s)(p := f (pages s p)) \<and> procs u2 = (procs s)(pr \<mapsto> counted up P) \<and>
    pa_to_proc_map u2 = pa_to_proc_map u1 \<and> same_links u1 u2 \<and> same_registry u1 u2 \<and> ucm_mem u2 = ucm_mem u1"
    using P 1(1,2) by (cases up) (simp_all add: ucm_stats_record_migration_up_def f_def counted_def
      ucm_stats_record_migration_down_def upd_page_def same_links_def same_registry_def)
  then obtain u2 where r: "(if up then ucm_stats_record_migration_up pr p HUGEPAGE_SIZE u1
      else ucm_stats_record_migration_down pr p HUGEPAGE_SIZE u1) = Inr u2"
    and 2: "pages u2 = (pages s)(p := f (pages s p))" "procs u2 = (procs s)(pr \<mapsto> counted up P)"
    "pa_to_proc_map u2 = pa_to_proc_map u1" "same_links u1 u2" "same_registry u1 u2" "ucm_mem u2 = ucm_mem u1"
    by blast
  define u where "u = upd_page p (in_dram_update (\<lambda>_. up)) (upd_page p (devdax_offset_update (\<lambda>_. off)) u2)"
  have "ucm_migrate_one_page cfg env pr p up off s =
      (if up then mm_remove_page_from_cxl pr p u else mm_add_page_to_cxl pr p u)"
    using cc old new r fold unfolding ucm_migrate_one_page_def
    by (cases up) (simp_all add: Let_def tz rm 2 u_def)
  moreover have "pages u = (pages s)(p := shifted up pr off (pages s p))"
    by (cases up) (simp_all add: u_def 2 f_def shifted_def)
  moreover have 3: "same_links u2 u" "same_registry u2 u" "pa_to_proc_map u = pa_to_proc_map u2"
    "ucm_mem u = ucm_mem u2" "procs u = procs u2"
    by (simp_all add: u_def upd_page_def same_links_def same_registry_def)
  moreover note same_links_trans [OF same_links_trans [OF 1(4) 2(4)] 3(1)]
    same_registry_trans [OF same_registry_trans [OF 1(5) 2(5)] 3(2)]
  ultimately show ?thesis
    by (intro exI [of _ u]) (simp add: 1 2)
qed

lemma retabled_const:
  "mm_update (cxl_offset_to_page_update (\<lambda>_. tab_del p (cxl_offset_to_page (mm P)))) P = mm_update (retabled True p off) P"
  "mm_update (cxl_offset_to_page_update (\<lambda>_. (off, p) # cxl_offset_to_page (mm P))) P = mm_update (retabled False p off) P"
  by (cases P, cases "mm P", simp add: retabled_def)+

lemma retable_run:
  assumes c: "tabled up p off P s" and P: "procs s pr = Some P" "pr \<noteq> NULL" "p \<noteq> NULL"
    and o: "in_dram (pages s p) = up" "devdax_offset (pages s p) = off"
  shows "\<exists>u. (if up then mm_remove_page_from_cxl pr p s else mm_add_page_to_cxl pr p s) = Inr u \<and>
    pages u = (pages s)(p := (pages s p)\<lparr>pa_proc_entry := slow_entry up pr off\<rparr>) \<and>
    procs u = (procs s)(pr \<mapsto> mm_update (retabled up p off) P) \<and>
    pa_to_proc_map u = (if up then tab_del p (pa_to_proc_map s) else (off, p) # pa_to_proc_map s) \<and>
    same_links s u \<and> same_registry s u \<and> ucm_mem u = ucm_mem s"
proof (cases up)
  case True
  then have "HASH_DELETE p (cxl_offset_to_page (mm P)) = Inr (tab_del p (cxl_offset_to_page (mm P)))"
    "HASH_DELETE p (pa_to_proc_map s) = Inr (tab_del p (pa_to_proc_map s))"
    "ppe_used (pa_proc_entry (pages s p))"
    using c by (simp_all add: tabled_def HASH_DELETE_def tab_del_def)
  then show ?thesis
    using True P by (simp add: mm_remove_page_from_cxl_def pa_proc_map_remove_def retabled_const [where off = off] slow_entry_def)
      (simp add: upd_page_def same_links_def same_registry_def)
next
  case False
  then have "HASH_ADD off p (cxl_offset_to_page (mm P)) = Inr ((off, p) # cxl_offset_to_page (mm P))"
    "HASH_ADD off p (pa_to_proc_map s) = Inr ((off, p) # pa_to_proc_map s)"
    "\<not> ppe_used (pa_proc_entry (pages s p))"
    "HASH_FIND (offset_key s) (cxl_offset_to_page (mm P)) off = NULL"
    using c by (simp_all add: tabled_def HASH_ADD_def)
  then show ?thesis
    using False P o by (simp add: mm_add_page_to_cxl_def pa_proc_map_add_def retabled_const [where off = off] slow_entry_def)
      (simp add: pa_key_def Let_def upd_page_def same_links_def same_registry_def)
qed

lemma recharged_eq:
  "recharged True n = (\<lambda>m. m\<lparr>current_fastmem := current_fastmem m + n, current_slowmem := current_slowmem m - n\<rparr>)"
  "recharged False n = (\<lambda>m. m\<lparr>current_fastmem := current_fastmem m - n, current_slowmem := current_slowmem m + n\<rparr>)"
  by (simp_all add: recharged_def fun_eq_iff)

lemma migrate_page_ok:
  assumes c: "can_move up pr p off P s" and e: "env_good env"
  shows "\<exists>s'. migrate_page up cfg env pr p off s = Inr s' \<and> migrated up pr p off P s s'"
proof -
  let ?b = "\<lambda>pg. pg\<lparr>remap_lock := True, migrating := True,
    migration_uffd_unmap_pending := True, last_migrated_epoch := scan_epoch s,
    migration_access_comp := max (migration_access_comp pg) (pt_to_cacheline_count (pt pg))\<rparr> :: hemem_page"
  define t where "t = upd_page p ?b s"
  have t: "begin_migration env pr p s = Inr t"
    unfolding t_def by (rule begin_migration_ok [OF c e])
  have cc: "procs s pr = Some P" "pr \<noteq> NULL" "movable_to up p off s" "tabled up p off P s"
    using c by (simp_all add: can_move_def)
  have tp: "pages t = (pages s)(p := ?b (pages s p))" "procs t = procs s" "same_links s t" "same_registry s t"
    "pa_to_proc_map t = pa_to_proc_map s" "copied up off (pages t p) t = copied up off (pages s p) s"
    by (simp_all add: t_def upd_page_def same_links_def same_registry_def copied_def hemem_memcpy_def
      devdax_offset_to_addr_def cong: if_cong)
  have "movable_to up p off t"
    using cc(3) by (cases up) (simp_all add: t_def upd_page_def movable_to_def tiers_ok_def frame_at_def tier_size_def)
  then obtain u where u: "ucm_migrate_one_page cfg env pr p up off t =
      (if up then mm_remove_page_from_cxl pr p u else mm_add_page_to_cxl pr p u)"
    "pages u = (pages t)(p := shifted up pr off (pages t p))" "procs u = (procs t)(pr \<mapsto> counted up P)"
    "pa_to_proc_map u = pa_to_proc_map t" "same_links t u" "same_registry t u"
    "ucm_mem u = copied up off (pages t p) t"
    using migrate_one_page_run [OF _ _ e, of up p off t pr P cfg] tp(2) cc(1) by auto
  have x: "HASH_FIND (offset_key u) (cxl_offset_to_page (mm P)) off = NULL" if "\<not> up"
  proof -
    have "HASH_FIND (offset_key u) (cxl_offset_to_page (mm P)) off =
        HASH_FIND (offset_key s) (cxl_offset_to_page (mm P)) off"
      by (rule HASH_FIND_cong) (use cc(4) that u(2) tp(1) in \<open>auto simp: tabled_def\<close>)
    then show ?thesis using cc(4) that by (simp add: tabled_def)
  qed
  have "tabled up p off (counted up P) u"
    using cc(4) x by (auto simp: tabled_def u tp shifted_def counted_def)
  then obtain v where v: "(if up then mm_remove_page_from_cxl pr p u else mm_add_page_to_cxl pr p u) = Inr v"
    "pages v = (pages u)(p := (pages u p)\<lparr>pa_proc_entry := slow_entry up pr off\<rparr>)"
    "procs v = (procs u)(pr \<mapsto> mm_update (retabled up p off) (counted up P))"
    "pa_to_proc_map v = (if up then tab_del p (pa_to_proc_map u) else (off, p) # pa_to_proc_map u)"
    "same_links u v" "same_registry u v" "ucm_mem v = ucm_mem u"
    using retable_run [of up p off "counted up P" u pr] cc(2,3) u(2,3) by (auto simp: movable_to_def shifted_def)
  let ?sz = "pt_to_pagesize (pt (pages s p))"
  let ?s' = "upd_page p (\<lambda>p. p\<lparr>migrating := False, remap_lock := False\<rparr>)
    (v\<lparr>procs := (procs v)(pr \<mapsto> moved_proc up p off ?sz P)\<rparr>)"
  have run: "migrate_page up cfg env pr p off s = Inr ?s'"
    using u(1) v(1) by (cases up) (simp_all add: migrate_page_def promote_one_page_def demote_one_page_def t v(2,3)
      u(2) tp(1) Let_def shifted_def moved_proc_def recharged_eq)
  have "same_links v ?s'" "same_registry v ?s'"
    by (simp_all add: upd_page_def same_links_def same_registry_def)
  then have "same_links s ?s'" "same_registry s ?s'"
    using tp(3,4) u(5,6) v(5,6) by (blast intro: same_links_trans same_registry_trans)+
  moreover have "pages ?s' = (pages s)(p := moved_page up pr off (scan_epoch s) (pages s p))"
    by (simp add: tp(1) u(2) v(2) shifted_def moved_page_def cong: if_cong)
  moreover have "ucm_mem ?s' = copied up off (pages s p) s"
    using u(7) v(7) tp(6) by (simp add: upd_page_def)
  ultimately have "migrated up pr p off P s ?s'"
    unfolding migrated_def using tp(2,5) u(3,4) v(3,4) by (simp add: upd_page_def)
  with run show ?thesis by blast
qed

end
