(* ===== verification/Migration_Sys.thy ===== *)
theory Migration_Sys
  imports Migration_Correct
begin

text \<open>
  One migration in the whole: a page leaves the level list of its tier, changes places with
  a free page of the other tier, and joins a level list there. The invariant of
  \<open>Sys_Inv\<close> holds again and the contents of every page are the same.
\<close>

section \<open>Before the copy\<close>

text \<open>The page is off its list, the bookmark of the cooling does not point at it any more,
  and the last free page of the other tier is off its list as well.\<close>

definition forget :: "bool \<Rightarrow> ptr \<Rightarrow> process_mem \<Rightarrow> process_mem" where
  "forget f p m = (if p = cur_cool f m then set_cur_cool f NULL 0 m else m)"

definition drop_bookmark :: "bool \<Rightarrow> ptr \<Rightarrow> hemem_process \<Rightarrow> ptr \<Rightarrow> ucm_state \<Rightarrow> ucm_state result" where
  "drop_bookmark f pr P p s = (if p = cur_cool f (mm P)
     then assertC (in_dram (pages s p) = f) (upd_mm pr (set_cur_cool f NULL 0) s) else Inr s)"

definition prepared :: "bool \<Rightarrow> ptr \<Rightarrow> hemem_process \<Rightarrow> ptr \<Rightarrow> ptr \<Rightarrow> ucm_state \<Rightarrow> ucm_state \<Rightarrow> bool" where
  "prepared f pr P p np s s' \<longleftrightarrow> pl_wf s' \<and> same_registry s s' \<and> held s' = held s \<and>
     page_seq s' = (page_seq s)(bin f pr (hot (pages s p)) := remove1 p (page_seq s (bin f pr (hot (pages s p)))),
       tier_free (\<not> f) := butlast (page_seq s (tier_free (\<not> f)))) \<and>
     pg_list s' = (pg_list s)(p := None, np := None) \<and> pages s' = pages s \<and>
     procs s' = (procs s)(pr \<mapsto> mm_update (forget f p) P) \<and>
     pa_to_proc_map s' = pa_to_proc_map s \<and> ucm_mem s' = ucm_mem s"

lemma forget_simps [simp]:
  "pages_table (forget f p m) = pages_table m" "cxl_offset_to_page (forget f p m) = cxl_offset_to_page m"
  "free_page_ring (forget f p m) = free_page_ring m" "hot_ring (forget f p m) = hot_ring m"
  "cold_ring (forget f p m) = cold_ring m"
  "cur_cool g (forget f p m) = (if g = f \<and> p = cur_cool f m then NULL else cur_cool g m)"
  by (auto simp: forget_def set_cur_cool_def cur_cool_def)

lemma drop_bookmark_ok:
  assumes P: "procs s pr = Some P" and f: "in_dram (pages s p) = f"
  obtains s' where "drop_bookmark f pr P p s = Inr s'"
    "procs s' = (procs s)(pr \<mapsto> mm_update (forget f p) P)" "same_links s s'" "same_registry s s'"
    "pages s' = pages s" "pa_to_proc_map s' = pa_to_proc_map s" "ucm_mem s' = ucm_mem s"
proof (cases "p = cur_cool f (mm P)")
  case True
  have "mm_update (forget f p) P = mm_update (set_cur_cool f NULL 0) P"
    using True by (cases P) (simp add: forget_def)
  then show thesis
    using True P f that by (simp add: drop_bookmark_def same_links_def same_registry_def)
next
  case False
  have "mm_update (forget f p) P = P"
    using False by (cases P) (simp add: forget_def)
  then show thesis
    using False P that [of s] by (simp add: drop_bookmark_def same_links_def fun_upd_idem)
qed

lemma same_links_parts:
  assumes "same_links s s'"
  shows "page_seq s' = page_seq s" and "pl_wf s' = pl_wf s" and "pg_list s' = pg_list s" and "held s' = held s"
  using assms page_parts_cong [of s' s] by (simp_all add: same_links_def)

lemma prepare_ok:
  assumes u: "ucm_inv s" and P: "procs s pr = Some P" and p: "pg_list s p = Some (bin f pr i)"
  obtains s1 s2 where "page_list_remove (bin f pr (hot (pages s p))) p s = Inr s1"
    "procs s1 pr = Some P" "pages s1 = pages s" "drop_bookmark f pr P p s1 = Inr s2"
    "procs s2 pr = Some (mm_update (forget f p) P)"
    "page_seq s (tier_free (\<not> f)) = [] \<Longrightarrow> dequeue_page (tier_free (\<not> f)) s2 = Inr (NULL, s2)"
    "\<And>xs np. page_seq s (tier_free (\<not> f)) = xs @ [np] \<Longrightarrow>
       \<exists>s3. dequeue_page (tier_free (\<not> f)) s2 = Inr (np, s3) \<and> prepared f pr P p np s s3"
    "same_registry s s2" "pages s2 = pages s" "procs s2 = (procs s)(pr \<mapsto> mm_update (forget f p) P)"
    "pl_wf s2" "pg_list s2 = (pg_list s)(p := None)" "held s2 = held s"
    "page_seq s2 = (page_seq s)(bin f pr (hot (pages s p)) := remove1 p (page_seq s (bin f pr (hot (pages s p)))))"
    "pa_to_proc_map s2 = pa_to_proc_map s" "ucm_mem s2 = ucm_mem s"
proof -
  have wf: "pl_wf s" using u by (simp add: ucm_inv_def)
  have h: "hot (pages s p) = i" "in_dram (pages s p) = f" "p \<in> set (page_seq s (bin f pr i))"
    by (rule ucm_inv_bin [OF u p], simp)+
  obtain s1 where s1: "page_list_remove (bin f pr i) p s = Inr s1" "pl_wf s1" "page_step s s1"
    "page_seq s1 = (page_seq s)(bin f pr i := remove1 p (page_seq s (bin f pr i)))"
    "pg_list s1 = (pg_list s)(p := None)" "pages s1 = pages s"
    using wf h(3) by (rule remove_step)
  note f1 = page_step_frame [OF s1(3)]
  have P1: "procs s1 pr = Some P" "in_dram (pages s1 p) = f" using f1(1) P s1(6) h by simp_all
  obtain s2 where s2: "drop_bookmark f pr P p s1 = Inr s2"
    "procs s2 = (procs s1)(pr \<mapsto> mm_update (forget f p) P)" "same_links s1 s2" "same_registry s1 s2"
    "pages s2 = pages s1" "pa_to_proc_map s2 = pa_to_proc_map s1" "ucm_mem s2 = ucm_mem s1"
    using P1 by (rule drop_bookmark_ok)
  note l2 = same_links_parts [OF s2(3)]
  have r2: "same_registry s s2"
    using page_step_registry [OF s1(3)] s2(4) by (rule same_registry_trans)
  have sq: "page_seq s2 (tier_free (\<not> f)) = page_seq s (tier_free (\<not> f))" using l2(1) s1(4) by simp
  have wf2: "pl_wf s2" using l2(2) s1(2) by simp
  have deq: "\<exists>s3. dequeue_page (tier_free (\<not> f)) s2 = Inr (np, s3) \<and> prepared f pr P p np s s3"
    if "page_seq s (tier_free (\<not> f)) = xs @ [np]" for xs np
  proof -
    have e: "page_seq s2 (tier_free (\<not> f)) = xs @ [np]" using that sq by simp
    obtain s3 where s3: "dequeue_page (tier_free (\<not> f)) s2 = Inr (np, s3)" "pl_wf s3" "page_step s2 s3"
      "page_seq s3 = (page_seq s2)(tier_free (\<not> f) := xs)" "pg_list s3 = (pg_list s2)(np := None)"
      "pages s3 = pages s2"
      using wf2 e by (rule dequeue_step)
    have "same_registry s s3" using r2 page_step_registry [OF s3(3)] by (rule same_registry_trans)
    then have "prepared f pr P p np s s3"
      unfolding prepared_def
      using s3 s2(2,5-7) s1(4-6) l2 f1(1,2,6,7) page_step_frame(1,2,6,7) [OF s3(3)] h that by simp
    then show ?thesis using s3(1) by blast
  qed
  show thesis
    by (rule that [of s1 s2]) (use s1 s2 P1 h l2 r2 wf2 sq deq f1(1,2,6,7) dequeue_page_empty [OF wf2] in simp_all)
qed

section \<open>The copy\<close>

lemma prepared_can_move:
  assumes inv: "sys_ok s" and P: "procs s pr = Some P" and p: "pg_list s p = Some (bin (\<not> up) pr i)"
    and fr: "\<not> in_free_ring (pages s p)" and np: "pg_list s np = Some (tier_free up)"
    and s3: "prepared (\<not> up) pr P p np s s3"
  shows "can_move up pr p (devdax_offset (pages s np)) (mm_update (forget (\<not> up) p) P) s3"
proof -
  have u: "ucm_inv s" and fo: "frames_ok s" and t: "tiers_ok s" using inv by (simp_all add: sys_ok_def)
  have 3: "pages s3 = pages s" "procs s3 = (procs s)(pr \<mapsto> mm_update (forget (\<not> up) p) P)"
    "pa_to_proc_map s3 = pa_to_proc_map s" "same_registry s s3"
    using s3 by (simp_all add: prepared_def)
  have b: "in_dram (pages s p) = (\<not> up)" "va (pages s p) \<noteq> 0" "p \<noteq> NULL" "pg_pid (pages s p) = pid P"
    by (rule ucm_inv_bin [OF u p]; use P in auto)+
  have o: "owner s p = Some pr" using p by simp
  have m: "p \<in> mapped s pr" using o fr by (simp add: mapped_def)
  note mp = mapped_page [OF inv P m] and fp = free_page_unknown [OF inv np]
  have lk: "\<not> remap_lock (pages s p)" "va (pages s p) mod HUGEPAGE_SIZE = 0"
    using inv o by (auto simp: sys_ok_def pages_idle_def)
  have "frame_ok s (pages s p)" "frame_ok s (pages s np)" using fo p np by (simp_all add: frames_ok_def)
  then have "movable_to up p (devdax_offset (pages s np)) s3"
    using b fp(1) t by (simp add: movable_to_def frame_ok_def frame_at_def 3(1) registry_tiers [OF 3(4)])
  moreover have "tabled up p (devdax_offset (pages s np)) (mm_update (forget (\<not> up) p) P) s3"
  proof (cases up)
    case True
    then show ?thesis using mp(5-7) b(1) by (simp add: tabled_def 3)
  next
    case False
    have el: "tab_elems (cxl_offset_to_page (mm P)) = slow_mapped s pr"
      "tab_ok (offset_key s) (cxl_offset_to_page (mm P))"
      using inv P by (simp_all add: sys_ok_def proc_ok_def tables_ok_def)
    have "HASH_FIND (offset_key s) (cxl_offset_to_page (mm P)) (devdax_offset (pages s np)) = NULL"
      using free_frame_unknown(1) [OF inv _ P] np False el(2) by (simp add: HASH_FIND_null)
    moreover have "p \<notin> slow_mapped s c" for c using b(1) False by (simp add: slow_mapped_def)
    moreover have "p \<notin> tab_elems (pa_to_proc_map s)"
      using inv calculation(2) by (simp add: sys_ok_def pa_map_ok_def)
    ultimately show ?thesis using False mp(7) b(1) el by (simp add: tabled_def 3)
  qed
  ultimately show ?thesis
    using proc_nonnull [OF inv P] b lk by (simp add: can_move_def 3)
qed

section \<open>After the copy\<close>

definition spare_page :: "bool \<Rightarrow> u64 \<Rightarrow> hemem_page \<Rightarrow> hemem_page" where
  "spare_page fast off pg = pg\<lparr>devdax_offset := off, in_dram := fast, present := False\<rparr>"

definition relocated :: "bool \<Rightarrow> ptr \<Rightarrow> hemem_process \<Rightarrow> ptr \<Rightarrow> ptr \<Rightarrow> nat \<Rightarrow> ucm_state \<Rightarrow> ucm_state \<Rightarrow> bool" where
  "relocated up pr P p np h s s' \<longleftrightarrow> pl_wf s' \<and> same_registry s s' \<and> held s' = held s \<and>
     page_seq s' = (page_seq s)(
       bin (\<not> up) pr (hot (pages s p)) := remove1 p (page_seq s (bin (\<not> up) pr (hot (pages s p)))),
       tier_free up := butlast (page_seq s (tier_free up)),
       bin up pr h := p # page_seq s (bin up pr h),
       tier_free (\<not> up) := np # page_seq s (tier_free (\<not> up))) \<and>
     pg_list s' = (pg_list s)(p \<mapsto> bin up pr h, np \<mapsto> tier_free (\<not> up)) \<and>
     pages s' = (pages s)(
       p := (moved_page up pr (devdax_offset (pages s np)) (scan_epoch s) (pages s p))\<lparr>hot := h\<rparr>,
       np := spare_page (\<not> up) (devdax_offset (pages s p)) (pages s np)) \<and>
     procs s' = (procs s)(pr \<mapsto> moved_proc up p (devdax_offset (pages s np)) HUGEPAGE_SIZE
       (mm_update (forget (\<not> up) p) P)) \<and>
     pa_to_proc_map s' = (if up then tab_del p (pa_to_proc_map s)
       else (devdax_offset (pages s np), p) # pa_to_proc_map s) \<and>
     ucm_mem s' = copied up (devdax_offset (pages s np)) (pages s p) s"

lemma finish_ok:
  assumes inv: "sys_ok s" and P: "procs s pr = Some P" and p: "pg_list s p = Some (bin (\<not> up) pr i)"
    and np: "pg_list s np = Some (tier_free up)"
    and s3: "prepared (\<not> up) pr P p np s s3"
    and s4: "migrated up pr p (devdax_offset (pages s np)) (mm_update (forget (\<not> up) p) P) s3 s4"
  defines "s5 \<equiv> upd_page np (spare_page (\<not> up) (devdax_offset (pages s p))) s4"
  obtains s6 s7 where "assert_clean_page np s5 = Inr s5"
    "enqueue_page (bin up pr h) p (upd_page p (hot_update (\<lambda>_. h)) s5) = Inr s6"
    "enqueue_page (tier_free (\<not> up)) np s6 = Inr s7" "relocated up pr P p np h s s7"
    "pt (pages s7 p) = HUGEP" "\<not> present (pages s6 np)" "hot (pages s5 p) = hot (pages s p)"
proof -
  let ?off = "devdax_offset (pages s np)" and ?F = "mm_update (forget (\<not> up) p) P"
  have b: "hot (pages s p) = i" "in_dram (pages s p) = (\<not> up)" "p \<noteq> NULL" and hp: "pt (pages s p) = HUGEP"
    using ucm_inv_bin [OF sys_okD(1) [OF inv] p] hugepage_pt [OF inv, of p] p by auto
  have pn: "p \<noteq> np" using p np by auto
  have nn: "np \<noteq> NULL" and clean: "free_page up (pages s np)"
    using inv np pl_wf_nonnull ucm_inv_list [OF sys_okD(1) [OF inv] np]
    by (auto simp: sys_ok_def ucm_inv_def pl_wf_mem list_ok_free)
  have 3: "pl_wf s3" "same_registry s s3" "held s3 = held s" "pages s3 = pages s"
    "page_seq s3 = (page_seq s)(bin (\<not> up) pr (hot (pages s p)) := remove1 p (page_seq s (bin (\<not> up) pr (hot (pages s p)))),
       tier_free up := butlast (page_seq s (tier_free up)))"
    "pg_list s3 = (pg_list s)(p := None, np := None)" "procs s3 = (procs s)(pr \<mapsto> ?F)"
    "pa_to_proc_map s3 = pa_to_proc_map s" "ucm_mem s3 = ucm_mem s"
    using s3 by (simp_all add: prepared_def)
  have 4: "same_links s3 s4" "same_registry s3 s4"
    "pages s4 = (pages s)(p := moved_page up pr ?off (scan_epoch s) (pages s p))"
    "procs s4 = (procs s)(pr \<mapsto> moved_proc up p ?off HUGEPAGE_SIZE ?F)"
    "pa_to_proc_map s4 = (if up then tab_del p (pa_to_proc_map s) else (?off, p) # pa_to_proc_map s)"
    "ucm_mem s4 = copied up ?off (pages s p) s"
    using s4 3(4,7,8,9) hp registry_tiers(3,4) [OF 3(2)]
    by (simp_all add: migrated_def copied_def hemem_memcpy_def cong: if_cong)
  note l4 = same_links_parts [OF 4(1)]
  let ?t = "upd_page p (hot_update (\<lambda>_. h)) s5"
  have t: "pl_wf ?t" "pg_list ?t = (pg_list s)(p := None, np := None)" "page_seq ?t = page_seq s3"
    "pages ?t = (pages s)(p := (moved_page up pr ?off (scan_epoch s) (pages s p))\<lparr>hot := h\<rparr>,
       np := spare_page (\<not> up) (devdax_offset (pages s p)) (pages s np))"
    using 3(1,6) 4(3) l4 pn by (simp_all add: s5_def fun_upd_twist)
  have fr5: "procs ?t = procs s4" "pa_to_proc_map ?t = pa_to_proc_map s4" "ucm_mem ?t = ucm_mem s4"
    "held ?t = held s4" "same_registry s4 ?t"
    by (simp_all add: s5_def upd_page_def same_registry_def)
  have pl: "pg_list ?t p = None" unfolding t(2) using pn by simp
  obtain s6 where s6: "enqueue_page (bin up pr h) p ?t = Inr s6" "pl_wf s6" "page_step ?t s6"
    "page_seq s6 = (page_seq ?t)(bin up pr h := p # page_seq ?t (bin up pr h))"
    "pg_list s6 = (pg_list ?t)(p := Some (bin up pr h))" "pages s6 = pages ?t"
    using t(1) b(3) pl by (rule enqueue_step)
  have nl: "pg_list s6 np = None" unfolding s6(5) t(2) using pn by simp
  obtain s7 where s7: "enqueue_page (tier_free (\<not> up)) np s6 = Inr s7" "pl_wf s7" "page_step s6 s7"
    "page_seq s7 = (page_seq s6)(tier_free (\<not> up) := np # page_seq s6 (tier_free (\<not> up)))"
    "pg_list s7 = (pg_list s6)(np := Some (tier_free (\<not> up)))" "pages s7 = pages s6"
    using s6(2) nn nl by (rule enqueue_step)
  have "page_step ?t s7" using s6(3) s7(3) by (rule page_step_trans)
  note f7 = page_step_frame [OF this] and r7 = page_step_registry [OF this]
  have "same_registry s s7"
    using 3(2) 4(2) fr5(5) r7 by (blast intro: same_registry_trans)
  then have "relocated up pr P p np h s s7"
    unfolding relocated_def using s7(2) s7(4-6) s6(4-6) t(2-4) 3(3,5) 4(4-6) fr5 f7 l4 pn b(1)
    by (simp add: fun_upd_twist)
  moreover have "assert_clean_page np s5 = Inr s5"
    using clean pn by (simp add: s5_def assert_clean_page_def 4(3) spare_page_def free_page_def)
  moreover have "pt (pages s7 p) = HUGEP"
    using s7(6) s6(6) t(4) pn hp by (simp add: moved_page_def)
  moreover have "\<not> present (pages s6 np)" "hot (pages s5 p) = hot (pages s p)"
    using s6(6) t(4) pn by (simp_all add: spare_page_def s5_def 4(3) moved_page_def)
  ultimately show thesis using that s6(1) s7(1) by blast
qed

section \<open>The invariant after a migration\<close>

lemma moved_page_simps [simp]:
  "va (moved_page up pr off ep pg) = va pg" "present (moved_page up pr off ep pg) = present pg"
  "pg_pid (moved_page up pr off ep pg) = pg_pid pg" "pt (moved_page up pr off ep pg) = pt pg"
  "in_dram (moved_page up pr off ep pg) = up" "devdax_offset (moved_page up pr off ep pg) = off"
  "in_free_ring (moved_page up pr off ep pg) = in_free_ring pg"
  "local_clock (moved_page up pr off ep pg) = local_clock pg"
  "pa_proc_entry (moved_page up pr off ep pg) = slow_entry up pr off"
  "\<not> remap_lock (moved_page up pr off ep pg)"
  by (simp_all add: moved_page_def)

lemma spare_page_simps [simp]:
  "va (spare_page f off pg) = va pg" "pt (spare_page f off pg) = pt pg" "in_dram (spare_page f off pg) = f"
  "devdax_offset (spare_page f off pg) = off" "in_free_ring (spare_page f off pg) = in_free_ring pg"
  "pa_proc_entry (spare_page f off pg) = pa_proc_entry pg" "remap_lock (spare_page f off pg) = remap_lock pg"
  "free_page g pg \<Longrightarrow> free_page f (spare_page f off pg)"
  by (simp_all add: spare_page_def free_page_def)

lemma moved_proc_simps [simp]:
  "pid (moved_proc up p off n P) = pid P" "process_clock (moved_proc up p off n P) = process_clock P"
  "pages_table (mm (moved_proc up p off n P)) = pages_table (mm P)"
  "cxl_offset_to_page (mm (moved_proc up p off n P)) =
     (if up then tab_del p (cxl_offset_to_page (mm P)) else (off, p) # cxl_offset_to_page (mm P))"
  "free_page_ring (mm (moved_proc up p off n P)) = free_page_ring (mm P)"
  "hot_ring (mm (moved_proc up p off n P)) = hot_ring (mm P)"
  "cold_ring (mm (moved_proc up p off n P)) = cold_ring (mm P)"
  "cur_cool g (mm (moved_proc up p off n P)) = cur_cool g (mm P)"
  by (simp_all add: moved_proc_def recharged_def retabled_def counted_def cur_cool_def)

lemma relocated_parts:
  assumes p: "pg_list s p = Some (bin (\<not> up) pr i)" and np: "pg_list s np = Some (tier_free up)"
    and r: "relocated up pr P p np h s s'"
  shows "owner s' = owner s" and "mapped s' = mapped s" and "p \<noteq> np"
    and "x \<noteq> p \<Longrightarrow> x \<noteq> np \<Longrightarrow> pages s' x = pages s x \<and> pg_list s' x = pg_list s x"
    and "va (pages s' x) = va (pages s x)" and "pt (pages s' x) = pt (pages s x)"
    and "in_free_ring (pages s' x) = in_free_ring (pages s x)"
    and "pages s' p = (moved_page up pr (devdax_offset (pages s np)) (scan_epoch s) (pages s p))\<lparr>hot := h\<rparr>"
    and "pages s' np = spare_page (\<not> up) (devdax_offset (pages s p)) (pages s np)"
    and "(pg_list s' x = None) = (pg_list s x = None)"
proof -
  show pn: "p \<noteq> np" using p np by auto
  have l: "pg_list s' = (pg_list s)(p \<mapsto> bin up pr h, np \<mapsto> tier_free (\<not> up))"
    "pages s' = (pages s)(
       p := (moved_page up pr (devdax_offset (pages s np)) (scan_epoch s) (pages s p))\<lparr>hot := h\<rparr>,
       np := spare_page (\<not> up) (devdax_offset (pages s p)) (pages s np))"
    using r by (simp_all add: relocated_def)
  show ow: "owner s' = owner s"
    using p np pn by (auto simp: owner_def l(1) fun_eq_iff bin_def tier_free_def)
  show fr: "in_free_ring (pages s' x) = in_free_ring (pages s x)" "va (pages s' x) = va (pages s x)"
    "pt (pages s' x) = pt (pages s x)" "(pg_list s' x = None) = (pg_list s x = None)" for x
    using pn p np by (simp_all add: l)
  show "mapped s' = mapped s" by (simp add: mapped_def fun_eq_iff ow fr)
  show "pages s' p = (moved_page up pr (devdax_offset (pages s np)) (scan_epoch s) (pages s p))\<lparr>hot := h\<rparr>"
    "pages s' np = spare_page (\<not> up) (devdax_offset (pages s p)) (pages s np)"
    "x \<noteq> p \<Longrightarrow> x \<noteq> np \<Longrightarrow> pages s' x = pages s x \<and> pg_list s' x = pg_list s x"
    using pn by (simp_all add: l)
qed

lemma relocated_ucm_inv:
  assumes u: "ucm_inv s" and P: "procs s pr = Some P" and p: "pg_list s p = Some (bin (\<not> up) pr i)"
    and np: "pg_list s np = Some (tier_free up)" and r: "relocated up pr P p np h s s'"
    and h: "h < NUM_HOTNESS_LEVELS"
  shows "ucm_inv s'"
proof -
  note a = relocated_parts [OF p np r]
  have l: "pg_list s' = (pg_list s)(p \<mapsto> bin up pr h, np \<mapsto> tier_free (\<not> up))" and wf: "pl_wf s'"
    and pr: "procs s' = (procs s)(pr \<mapsto> moved_proc up p (devdax_offset (pages s np)) HUGEPAGE_SIZE
      (mm_update (forget (\<not> up) p) P))"
    using r by (simp_all add: relocated_def)
  have lk: "list_ok s' = list_ok s"
    by (rule list_ok_procs [OF same_pids_upd [OF pr P]]) simp
  have "pages_ok s'"
    unfolding pages_ok_def
  proof (intro allI impI)
    fix x q assume x: "pg_list s' x = Some q"
    consider "x = p" | "x = np" | "x \<noteq> p" "x \<noteq> np" by blast
    then show "list_ok s' q (pages s' x)"
    proof cases
      case 1
      then show ?thesis
        using x l a(3,8) h ucm_inv_list [OF u p] by (auto simp: lk list_ok_bin bin_page_def)
    next
      case 2
      then show ?thesis
        using x l a(3,9) ucm_inv_list [OF u np] by (auto simp: lk list_ok_free)
    next
      case 3
      then show ?thesis using x a(4) [OF 3] ucm_inv_list [OF u] by (simp add: lk)
    qed
  qed
  moreover have "bookmarks_ok s'"
    unfolding bookmarks_ok_def
  proof (intro allI impI)
    fix c C g assume c: "procs s' c = Some C" and x: "cur_cool g (mm C) \<noteq> NULL"
    let ?x = "cur_cool g (mm C)"
    have "\<exists>Q. procs s c = Some Q \<and> cur_cool g (mm Q) = ?x \<and> \<not> (c = pr \<and> g = (\<not> up) \<and> ?x = p)"
      using c x P by (cases up; cases g) (auto simp: pr split: if_splits)
    then obtain Q where Q: "procs s c = Some Q" "cur_cool g (mm Q) = ?x" "\<not> (c = pr \<and> g = (\<not> up) \<and> ?x = p)"
      by blast
    then obtain j where j: "pg_list s ?x = Some (bin g c j)"
      using u x unfolding ucm_inv_def bookmarks_ok_def by metis
    have "?x \<noteq> p" using Q(3) j p by auto
    moreover have "?x \<noteq> np" using j np by auto
    ultimately show "\<exists>i. pg_list s' ?x = Some (bin g c i)" using j a(4) by simp
  qed
  ultimately show ?thesis using wf by (simp add: ucm_inv_def)
qed

lemma relocated_frames:
  assumes fo: "frames_ok s" and d: "in_dram (pages s p) = (\<not> up)" "in_dram (pages s np) = up"
    and p: "pg_list s p = Some (bin (\<not> up) pr i)"
    and np: "pg_list s np = Some (tier_free up)" and r: "relocated up pr P p np h s s'"
  shows "frames_ok s'"
proof -
  note a = relocated_parts [OF p np r]
  define sw where "sw x = (if x = p then np else if x = np then p else x)" for x
  have sz: "tier_size s' = tier_size s" using r registry_tiers(1) by (simp add: relocated_def)
  have e: "in_dram (pages s' x) = in_dram (pages s (sw x)) \<and> devdax_offset (pages s' x) = devdax_offset (pages s (sw x))"
    for x using a(3,8,9) a(4) [of x] d by (simp add: sw_def)
  have l: "pg_list s (sw x) \<noteq> None" if "pg_list s' x \<noteq> None" for x
    using that a(10) [of x] p np by (auto simp: sw_def)
  have inj: "x = y" if "sw x = sw y" for x y
    using that a(3) by (auto simp: sw_def split: if_splits)
  have G: "frame_ok s (pages s x)" if "pg_list s x \<noteq> None" for x
    using fo that unfolding frames_ok_def by blast
  have F: "x = y" if "pg_list s x \<noteq> None" "pg_list s y \<noteq> None"
    "in_dram (pages s x) = in_dram (pages s y)" "devdax_offset (pages s x) = devdax_offset (pages s y)" for x y
    using fo that unfolding frames_ok_def by blast
  have 1: "frame_ok s' (pages s' x)" if "pg_list s' x \<noteq> None" for x
    using G [OF l [OF that]] G [of x] that a(10) e [of x] by (simp add: frame_ok_def sz a(6))
  have 2: "x = y" if "pg_list s' x \<noteq> None" "pg_list s' y \<noteq> None"
    "in_dram (pages s' x) = in_dram (pages s' y)" "devdax_offset (pages s' x) = devdax_offset (pages s' y)" for x y
    by (rule inj, rule F [OF l [OF that(1)] l [OF that(2)]]) (use that(3,4) e [of x] e [of y] in simp_all)
  show ?thesis unfolding frames_ok_def using 1 2 by blast
qed

lemma relocated_slow:
  assumes inv: "sys_ok s" and p: "pg_list s p = Some (bin (\<not> up) pr i)" and m: "p \<in> mapped s pr"
    and np: "pg_list s np = Some (tier_free up)" and r: "relocated up pr P p np h s s'"
  shows "slow_mapped s' c = (if c \<noteq> pr then slow_mapped s c
      else if up then slow_mapped s c - {p} else insert p (slow_mapped s c))"
    and "x \<in> slow_mapped s c \<Longrightarrow> x \<noteq> np"
    and "x \<in> slow_mapped s c \<Longrightarrow> x \<noteq> p \<Longrightarrow> pages s' x = pages s x"
proof -
  note a = relocated_parts [OF p np r] and f = free_page_unknown [OF inv np]
  show n: "x \<noteq> np" if "x \<in> slow_mapped s c" for x c
    using that f(8) by (auto simp: slow_mapped_def)
  show "pages s' x = pages s x" if "x \<in> slow_mapped s c" "x \<noteq> p"
    using a(4) [of x] n that by blast
  have o: "x \<notin> mapped s c" if "x = np" for x using that f(8) by simp
  have d: "in_dram (pages s' x) = (if x = p then up else in_dram (pages s x))" if "x \<in> mapped s c" for x
  proof -
    have "x \<noteq> np" using that o by blast
    then show ?thesis using a(8) a(4) [of x] by (cases "x = p") simp_all
  qed
  have pm: "p \<in> mapped s c \<longleftrightarrow> c = pr" using m by (auto simp: mapped_def)
  have dp: "in_dram (pages s p) = (\<not> up)" by (rule ucm_inv_bin [OF sys_okD(1) [OF inv] p], simp)
  show "slow_mapped s' c = (if c \<noteq> pr then slow_mapped s c
      else if up then slow_mapped s c - {p} else insert p (slow_mapped s c))"
    using d pm dp m unfolding slow_mapped_def a(2) by (auto split: if_splits)
qed

lemma relocated_tab:
  assumes tk: "tab_ok key t" and key: "\<And>x. x \<in> tab_elems t \<Longrightarrow> x \<noteq> p \<Longrightarrow> key' x = key x"
    and nn: "p \<noteq> NULL" and new: "\<not> up \<Longrightarrow> p \<notin> tab_elems t \<and> key' p = k \<and> k \<notin> fst ` set t"
  shows "tab_ok key' (if up then tab_del p t else (k, p) # t)"
proof (cases up)
  case True
  have "tab_ok key' (tab_del p t) = tab_ok key (tab_del p t)"
    by (rule tab_ok_cong) (use key in \<open>simp add: tab_del_ok(2)\<close>)
  then show ?thesis using True tk by (simp add: tab_del_ok)
next
  case False
  have "tab_ok key' t = tab_ok key t"
    by (rule tab_ok_cong) (use key new [OF False] in blast)
  then show ?thesis using False tk new [OF False] nn by (simp add: tab_ok_Cons)
qed

lemma relocated_pa_map:
  assumes inv: "sys_ok s" and p: "pg_list s p = Some (bin (\<not> up) pr i)" and m: "p \<in> mapped s pr"
    and np: "pg_list s np = Some (tier_free up)" and r: "relocated up pr P p np h s s'"
  shows "pa_map_ok s'"
proof -
  let ?off = "devdax_offset (pages s np)"
  note a = relocated_parts [OF p np r] and f = free_page_unknown [OF inv np]
    and sl = relocated_slow [OF inv p m np r]
  have pm: "pa_map_ok s" using inv by (simp add: sys_ok_def)
  have el: "x \<in> tab_elems (pa_to_proc_map s) \<longleftrightarrow> (\<exists>c. x \<in> slow_mapped s c)"
    and us: "ppe_used (pa_proc_entry (pages s x)) \<longleftrightarrow> x \<in> tab_elems (pa_to_proc_map s)" for x
    using pm by (simp_all add: pa_map_ok_def)
  have tab: "pa_to_proc_map s' = (if up then tab_del p (pa_to_proc_map s) else (?off, p) # pa_to_proc_map s)"
    using r by (simp add: relocated_def)
  have dp: "in_dram (pages s p) = (\<not> up)" and nn: "p \<noteq> NULL"
    by (rule ucm_inv_bin [OF sys_okD(1) [OF inv] p], simp)+
  have nfast: "p \<notin> slow_mapped s c" if "\<not> up" for c using that dp by (simp add: slow_mapped_def)
  have po: "c = pr" if "p \<in> slow_mapped s c" for c using that m by (simp add: slow_mapped_def mapped_def)
  have "tab_ok (pa_key s') (pa_to_proc_map s')"
    unfolding tab
  proof (rule relocated_tab [where key = "pa_key s"])
    show "tab_ok (pa_key s) (pa_to_proc_map s)" using pm by (simp add: pa_map_ok_def)
    show "pa_key s' x = pa_key s x" if "x \<in> tab_elems (pa_to_proc_map s)" "x \<noteq> p" for x
      using that sl(3) by (auto simp: pa_key_def el)
    show "p \<notin> tab_elems (pa_to_proc_map s) \<and> pa_key s' p = ?off \<and> ?off \<notin> fst ` set (pa_to_proc_map s)"
      if "\<not> up"
      using that nfast free_frame_unknown(2) [OF inv] np by (simp add: el pa_key_def a(8) slow_entry_def)
  qed (rule nn)
  moreover have el': "x \<in> tab_elems (pa_to_proc_map s') \<longleftrightarrow> (\<exists>c. x \<in> slow_mapped s' c)" for x
  proof -
    have "x \<in> tab_elems (pa_to_proc_map s') \<longleftrightarrow> (if x = p then \<not> up else \<exists>c. x \<in> slow_mapped s c)"
      using nfast by (auto simp: tab tab_del_ok(2) el)
    also have "\<dots> \<longleftrightarrow> (\<exists>c. x \<in> slow_mapped s' c)"
      using po by (cases "x = p") (auto simp: sl(1))
    finally show ?thesis .
  qed
  moreover have "ppe_used (pa_proc_entry (pages s' x)) \<longleftrightarrow> x \<in> tab_elems (pa_to_proc_map s')" for x
  proof -
    consider "x = p" | "x = np" | "x \<noteq> p" "x \<noteq> np" by blast
    then show ?thesis
    proof cases
      case 1
      then show ?thesis using nfast by (auto simp: a(8) slow_entry_def zero_entry_def tab tab_del_ok(2))
    next
      case 2
      then show ?thesis using f(5,6) a(3) by (simp add: a(9) tab tab_del_ok(2))
    next
      case 3
      then show ?thesis using a(4) [OF 3] us [of x] by (simp add: tab tab_del_ok(2))
    qed
  qed
  moreover have "pa_proc_entry (pages s' x) = \<lparr>ppe_pa = devdax_offset (pages s' x), ppe_proc = c, ppe_used = True\<rparr>"
    if "x \<in> slow_mapped s' c" for x c
  proof (cases "x = p")
    case True
    then have "\<not> up" "c = pr"
      using that po by (auto simp: sl(1) split: if_splits)
    then show ?thesis using True by (simp add: a(8) slow_entry_def)
  next
    case False
    then have "x \<in> slow_mapped s c" using that by (auto simp: sl(1) split: if_splits)
    then show ?thesis using pm sl(3) [OF _ False] by (simp add: pa_map_ok_def)
  qed
  ultimately show ?thesis by (simp add: pa_map_ok_def)
qed

lemma relocated_keeps:
  assumes inv: "sys_ok s" and P: "procs s pr = Some P" and p: "pg_list s p = Some (bin (\<not> up) pr i)"
    and fr: "\<not> in_free_ring (pages s p)" and np: "pg_list s np = Some (tier_free up)"
    and r: "relocated up pr P p np h s s'" and h: "h < NUM_HOTNESS_LEVELS"
  shows "sys_ok s'"
proof (rule sys_ok_local [OF inv _ _ _ _ _ P])
  let ?off = "devdax_offset (pages s np)"
  let ?N = "moved_proc up p ?off HUGEPAGE_SIZE (mm_update (forget (\<not> up) p) P)"
  have m: "p \<in> mapped s pr" using p fr by (simp add: mapped_def)
  note a = relocated_parts [OF p np r] and f = free_page_unknown [OF inv np]
    and sl = relocated_slow [OF inv p m np r]
  have u: "ucm_inv s" and ok: "proc_ok s pr P" and fo: "frames_ok s" using inv P by (simp_all add: sys_ok_def)
  have dp: "in_dram (pages s p) = (\<not> up)" and nn: "p \<noteq> NULL" by (rule ucm_inv_bin [OF u p], simp)+
  show "ucm_inv s'" using u P p np r h by (rule relocated_ucm_inv)
  show "frames_ok s'" using fo dp f(1) p np r by (rule relocated_frames)
  show "pa_map_ok s'" using inv p m np r by (rule relocated_pa_map)
  show "same_registry s s'" "procs s' = (procs s)(pr \<mapsto> ?N)" using r by (simp_all add: relocated_def)
  have lk: "\<not> remap_lock (pages s' x)" for x
    using inv a(4) [of x] a(3,8,9) by (cases "x = p"; cases "x = np") (simp_all add: sys_ok_def pages_idle_def)
  then show "pages_idle s'" using inv by (simp add: sys_ok_def pages_idle_def a(1,5))
  have on: "owner s np = None" and op: "owner s p = Some pr" using np p by simp_all
  then have "pages s' x = pages s x" if "owner s x = Some c" "c \<noteq> pr" for x c
    using that a(4) [of x] by force
  then show "others_kept pr s s'" by (auto simp: others_kept_def a(1))
  show "\<not> in_free_ring (pages s' x)" if "owner s' x = None" for x
    using that inv by (simp add: a(1,7) sys_ok_def)
  have "va_key s' = va_key s" by (simp add: a(5) fun_eq_iff)
  moreover have "tab_ok (offset_key s') (cxl_offset_to_page (mm ?N))"
  proof -
    have el: "tab_elems (cxl_offset_to_page (mm P)) = slow_mapped s pr"
      "tab_ok (offset_key s) (cxl_offset_to_page (mm P))" using ok by (simp_all add: proc_ok_def tables_ok_def)
    have "tab_ok (offset_key s') (if up then tab_del p (cxl_offset_to_page (mm P)) else (?off, p) # cxl_offset_to_page (mm P))"
    proof (rule relocated_tab [OF el(2) _ nn])
      show "offset_key s' x = offset_key s x" if "x \<in> tab_elems (cxl_offset_to_page (mm P))" "x \<noteq> p" for x
        using that sl(3) by (simp add: el)
      show "p \<notin> tab_elems (cxl_offset_to_page (mm P)) \<and> offset_key s' p = ?off \<and> ?off \<notin> fst ` set (cxl_offset_to_page (mm P))"
        if "\<not> up"
        using that dp np free_frame_unknown(1) [OF inv _ P] by (simp add: el a(8) slow_mapped_def)
    qed
    then show ?thesis by (cases up) simp_all
  qed
  moreover have "tab_elems (cxl_offset_to_page (mm ?N)) = slow_mapped s' pr"
    using ok by (simp add: proc_ok_def tables_ok_def sl(1) tab_del_ok(2))
  ultimately have "tables_ok s' pr (mm ?N)"
    using ok by (simp add: proc_ok_def tables_ok_def a(2))
  moreover have "free_reqs_ok s' pr (mm ?N)" "level_reqs_ok s' pr (mm ?N)"
    using ok by (simp_all add: free_reqs_ok_def level_reqs_ok_def proc_ok_def a(1,7))
  moreover have "local_clock (pages s' x) = local_clock (pages s x)" if "owner s x = Some pr" for x
    using that a(4) [of x] a(3,8) on by (cases "x = p"; cases "x = np") simp_all
  then have "clocks_all_ok s' pr ?N"
    using ok by (simp add: proc_ok_def clocks_all_ok_def clocks_ok_def a(1))
  ultimately show "proc_ok s' pr ?N" by (simp add: proc_ok_def)
qed simp

section \<open>The contents of the pages\<close>

lemma relocated_data:
  assumes inv: "sys_ok s" and p: "pg_list s p = Some (bin (\<not> up) pr i)" 
    and np: "pg_list s np = Some (tier_free up)" and r: "relocated up pr P p np h s s'"
  shows "same_data s s'"
  unfolding same_data_def
proof (intro allI impI)
  fix x k assume x: "owner s x \<noteq> None" and k: "k < HUGEPAGE_SIZE"
  note a = relocated_parts [OF p np r] and f = free_page_unknown [OF inv np]
  have t: "tiers_ok s" and fo: "frames_ok s" using inv by (simp_all add: sys_ok_def)
  have fr: "frame_at s (in_dram (pages s y)) (devdax_offset (pages s y))" if "pg_list s y \<noteq> None" for y
    using fo that by (simp add: frames_ok_def frame_ok_def frame_at_def)
  have xl: "pg_list s x \<noteq> None" "x \<noteq> np" using x np by (auto simp: owner_eq)
  have dp: "in_dram (pages s p) = (\<not> up)" by (rule ucm_inv_bin [OF sys_okD(1) [OF inv] p], simp)
  have hp: "pt (pages s p) = HUGEP" using hugepage_pt [OF inv] p by simp
  let ?new = "devdax_offset_to_addr (devdax_offset (pages s np)) up s"
  let ?old = "devdax_offset_to_addr (devdax_offset (pages s p)) (\<not> up) s"
  have mem: "ucm_mem s' = (\<lambda>c. if c - ?new < HUGEPAGE_SIZE then ucm_mem s (?old + (c - ?new)) else ucm_mem s c)"
    and ad: "devdax_offset_to_addr o' g s' = devdax_offset_to_addr o' g s" for o' g
    using r hp registry_tiers(4) by (simp_all add: relocated_def copied_def hemem_memcpy_def)
  show "page_data s' x k = page_data s x k"
  proof (cases "x = p")
    case True
    then show ?thesis using k dp by (simp add: page_data_def mem ad a(8))
  next
    case False
    have "in_dram (pages s x) \<noteq> up \<or> devdax_offset (pages s x) \<noteq> devdax_offset (pages s np)"
      using fo xl np f(1) unfolding frames_ok_def by blast
    then have "\<not> devdax_offset_to_addr (devdax_offset (pages s x)) (in_dram (pages s x)) s + k - ?new < HUGEPAGE_SIZE"
      using frame_apart [OF t fr [OF xl(1)] fr [of np] _ k] np f(1) by simp
    then show ?thesis using a(4) [OF False xl(2)] by (simp add: page_data_def mem ad)
  qed
qed

end
