(* ===== verification/Migration_Loop.thy ===== *)
theory Migration_Loop
  imports Migration_Sys
begin

text \<open>
  The loops \<open>process_migrate_down_bytes\<close> and \<open>process_migrate_up_bytes\<close> of
  \<open>src/ucm/migration.c\<close> with the candidates of \<open>src/ucm/policy/migrate.c\<close>: they return
  within their fuel, keep the invariant and the contents of every page, and stop only for
  one of the reasons the code has.
\<close>

section \<open>A candidate that goes back to its list\<close>

definition requeued :: "bool \<Rightarrow> ptr \<Rightarrow> hemem_process \<Rightarrow> ptr \<Rightarrow> nat \<Rightarrow> ucm_state \<Rightarrow> ucm_state \<Rightarrow> bool" where
  "requeued f pr P p h s s' \<longleftrightarrow> pl_wf s' \<and> same_registry s s' \<and> held s' = held s \<and>
     pg_list s' = (pg_list s)(p \<mapsto> bin f pr h) \<and> pages s' = (pages s)(p := (pages s p)\<lparr>hot := h\<rparr>) \<and>
     procs s' = (procs s)(pr \<mapsto> mm_update (forget f p) P) \<and>
     (\<forall>g. page_seq s' (tier_free g) = page_seq s (tier_free g)) \<and>
     pa_to_proc_map s' = pa_to_proc_map s \<and> ucm_mem s' = ucm_mem s"

lemma requeued_ucm_inv:
  assumes u: "ucm_inv s" and P: "procs s pr = Some P" and p: "pg_list s p = Some (bin f pr i)"
    and r: "requeued f pr P p h s s'" and h: "h < NUM_HOTNESS_LEVELS"
  shows "ucm_inv s'"
proof -
  have l: "pg_list s' = (pg_list s)(p \<mapsto> bin f pr h)" "pages s' = (pages s)(p := (pages s p)\<lparr>hot := h\<rparr>)"
    "pl_wf s'" and pr: "procs s' = (procs s)(pr \<mapsto> mm_update (forget f p) P)"
    using r by (simp_all add: requeued_def)
  have "pages_ok s'"
  proof (rule pages_okI [OF _ same_pids_upd [OF pr P], where p = p])
    show "pages_ok s" using u by (simp add: ucm_inv_def)
    show "list_ok s q (pages s' p)" if "pg_list s' p = Some q" for q
      using that ucm_inv_list [OF u p] h by (auto simp: l list_ok_bin bin_page_def)
  qed (simp_all add: l)
  moreover have "bookmarks_ok s'"
    unfolding bookmarks_ok_def
  proof (intro allI impI)
    fix c C g assume c: "procs s' c = Some C" and x: "cur_cool g (mm C) \<noteq> NULL"
    let ?x = "cur_cool g (mm C)"
    have "\<exists>Q. procs s c = Some Q \<and> cur_cool g (mm Q) = ?x \<and> \<not> (c = pr \<and> g = f \<and> ?x = p)"
      using c x P by (cases f; cases g) (auto simp: pr split: if_splits)
    then obtain Q where Q: "procs s c = Some Q" "cur_cool g (mm Q) = ?x" "\<not> (c = pr \<and> g = f \<and> ?x = p)"
      by blast
    then obtain j where j: "pg_list s ?x = Some (bin g c j)"
      using u x unfolding ucm_inv_def bookmarks_ok_def by metis
    then have "?x \<noteq> p" using Q(3) p by auto
    then show "\<exists>i. pg_list s' ?x = Some (bin g c i)" using j by (simp add: l)
  qed
  ultimately show ?thesis using l(3) by (simp add: ucm_inv_def)
qed

lemma requeued_keeps:
  assumes inv: "sys_ok s" and P: "procs s pr = Some P" and p: "pg_list s p = Some (bin f pr i)"
    and r: "requeued f pr P p h s s'" and h: "h < NUM_HOTNESS_LEVELS"
  shows "sys_ok s'" and "owner s' = owner s" and "same_data s s'"
proof -
  have l: "pg_list s' = (pg_list s)(p \<mapsto> bin f pr h)" "pages s' = (pages s)(p := (pages s p)\<lparr>hot := h\<rparr>)"
    "ucm_mem s' = ucm_mem s" "same_registry s s'" "pa_to_proc_map s' = pa_to_proc_map s"
    and pr: "procs s' = (procs s)(pr \<mapsto> mm_update (forget f p) P)"
    using r by (simp_all add: requeued_def)
  show ow: "owner s' = owner s" using p by (auto simp: owner_def l fun_eq_iff bin_def)
  then have so: "same_owners s s'"
    using l(4) P p by (auto simp: same_owners_def l pr page_id_eq same_registry_def)
  have ok: "proc_ok s pr P" using inv P by (simp add: sys_ok_def)
  show "sys_ok s'"
  proof (rule sys_ok_same_owners [OF inv _ so l(4) P pr])
    show "ucm_inv s'" using sys_okD(1) [OF inv] P p r h by (rule requeued_ucm_inv)
    show "proc_keeps s' pr P (mm_update (forget f p) P)"
      using ok by (simp add: proc_keeps_def proc_ok_def level_reqs_ok_def clocks_all_ok_def clocks_ok_def ow l)
    show "pages s' x = pages s x" if "c \<noteq> pr" "owner s x = Some c" for x c
      using that p by (auto simp: l)
  qed
  show "same_data s s'"
    using registry_tiers(4) [OF l(4)] by (simp add: same_data_def page_data_def l)
qed

section \<open>One iteration\<close>

text \<open>Both directions; the levels searched and the level the page goes to differ.\<close>

definition migrate_loop :: "bool \<Rightarrow> config \<Rightarrow> ucm_env \<Rightarrow> nat \<Rightarrow> ptr \<Rightarrow> u64 \<Rightarrow> u64 \<Rightarrow> ucm_state \<Rightarrow>
    (u64 \<times> ucm_state) result" where
  "migrate_loop up cfg env = (if up then migrate_up_loop cfg env find_hottest_slowmem_page
     else migrate_down_loop cfg env find_coldest_fastmem_page)"

definition search_levels :: "bool \<Rightarrow> nat list" where
  "search_levels up = (if up then rev [0..<NUM_HOTNESS_LEVELS] else [0..<PEBS_MAX_DEMOTION_TIER])"

definition searched :: "bool \<Rightarrow> ptr \<Rightarrow> ucm_state \<Rightarrow> ptr list" where
  "searched up pr s = concat (map (\<lambda>i. page_seq s (bin (\<not> up) pr i)) (search_levels up))"

definition target_level :: "bool \<Rightarrow> config \<Rightarrow> hemem_process \<Rightarrow> hemem_page \<Rightarrow> nat" where
  "target_level up cfg P pg = (if up then cooled_level cfg P pg else hot pg)"

lemma candidate_fn_eq:
  assumes u: "ucm_inv s" and P: "procs s pr = Some P"
  shows "(if up then find_hottest_slowmem_page else find_coldest_fastmem_page) pr s =
    (case find (movable s) (searched up pr s) of None \<Rightarrow> Inr (NULL, s)
     | Some p \<Rightarrow> andThen (page_list_remove (bin (\<not> up) pr (hot (pages s p))) p s) (\<lambda>s. Inr (p, s)))"
proof -
  have "bin True pr = fastmem_lists pr" "bin False pr = slowmem_lists pr" by (simp_all add: fun_eq_iff)
  then have "(if up then find_hottest_slowmem_page else find_coldest_fastmem_page) pr s =
      find_candidate pr (map (bin (\<not> up) pr) (search_levels up)) s"
    by (simp add: find_hottest_slowmem_page_def find_coldest_fastmem_page_def search_levels_def)
  then show ?thesis using find_candidate_ok [OF u P] by (simp add: searched_def)
qed

lemma searched_page:
  assumes u: "ucm_inv s" and f: "find (movable s) (searched up pr s) = Some p"
  obtains i where "pg_list s p = Some (bin (\<not> up) pr i)"
proof -
  have "p \<in> set (searched up pr s)" using f by (auto simp: find_Some_iff)
  then show thesis using that u pl_wf_mem by (auto simp: searched_def ucm_inv_def)
qed

text \<open>What an iteration does once it has a candidate.\<close>

definition iterates :: "bool \<Rightarrow> config \<Rightarrow> ucm_env \<Rightarrow> nat \<Rightarrow> ptr \<Rightarrow> hemem_process \<Rightarrow> ptr \<Rightarrow> u64 \<Rightarrow> u64 \<Rightarrow>
    ucm_state \<Rightarrow> bool" where
  "iterates up cfg env n pr P p bytes m s \<longleftrightarrow>
     (page_seq s (tier_free up) = [] \<and> (\<exists>s'. migrate_loop up cfg env (Suc n) pr bytes m s = Inr (m, s') \<and>
        requeued (\<not> up) pr P p (target_level up cfg P (pages s p)) s s')) \<or>
     (\<exists>np s'. pg_list s np = Some (tier_free up) \<and>
        migrate_loop up cfg env (Suc n) pr bytes m s =
          migrate_loop up cfg env n pr bytes (m + HUGEPAGE_SIZE) s' \<and>
        relocated up pr P p np (target_level up cfg P (pages s p)) s s')"

lemma requeue_run:
  assumes p: "pg_list s p = Some (bin f pr i)" "p \<noteq> NULL" and h: "hot (pages s p) = i"
    and s2: "same_registry s s2" "pages s2 = pages s" "procs s2 = (procs s)(pr \<mapsto> mm_update (forget f p) P)"
      "pl_wf s2" "pg_list s2 = (pg_list s)(p := None)" "held s2 = held s"
      "page_seq s2 = (page_seq s)(bin f pr (hot (pages s p)) := remove1 p (page_seq s (bin f pr (hot (pages s p)))))"
      "pa_to_proc_map s2 = pa_to_proc_map s" "ucm_mem s2 = ucm_mem s"
  shows "\<exists>s'. enqueue_page (bin f pr k) p (upd_page p (hot_update (\<lambda>_. k)) s2) = Inr s' \<and> requeued f pr P p k s s'"
proof -
  let ?t = "upd_page p (hot_update (\<lambda>_. k)) s2"
  have t: "pl_wf ?t" "pg_list ?t p = None" using s2(4,5) by simp_all
  obtain s' where s': "enqueue_page (bin f pr k) p ?t = Inr s'" "pl_wf s'" "page_step ?t s'"
    "page_seq s' = (page_seq ?t)(bin f pr k := p # page_seq ?t (bin f pr k))"
    "pg_list s' = (pg_list ?t)(p := Some (bin f pr k))" "pages s' = pages ?t"
    using t(1) p(2) t(2) by (rule enqueue_step)
  have "same_registry s2 ?t" by (simp add: upd_page_def same_registry_def)
  then have "same_registry s s'"
    using s2(1) page_step_registry [OF s'(3)] by (blast intro: same_registry_trans)
  moreover have "held s' = held s" "pa_to_proc_map s' = pa_to_proc_map s" "ucm_mem s' = ucm_mem s"
    using page_step_frame(2,6,7) [OF s'(3)] s2(6,8,9) by (simp_all add: upd_page_def)
  ultimately have "requeued f pr P p k s s'"
    unfolding requeued_def using s' s2 page_step_frame(1) [OF s'(3)] by simp
  then show ?thesis using s'(1) by blast
qed

lemma set_cur_cool_fn:
  "set_cur_cool True p i = (\<lambda>m. m\<lparr>cur_cool_in_fastmem := p, cur_cool_in_fastmem_list := i\<rparr>)"
  "set_cur_cool False p i = (\<lambda>m. m\<lparr>cur_cool_in_slowmem := p, cur_cool_in_slowmem_list := i\<rparr>)"
  by (simp_all add: set_cur_cool_def fun_eq_iff)

lemma mapped_found:
  assumes inv: "sys_ok s" and P: "procs s pr = Some P" and p: "p \<in> mapped s pr" "p \<noteq> NULL"
  shows "HASH_FIND (va_key s) (pages_table (mm P)) (va (pages s p)) = p"
proof -
  have tk: "tab_ok (va_key s) (pages_table (mm P))" "tab_elems (pages_table (mm P)) = mapped s pr"
    using inv P by (simp_all add: sys_ok_def proc_ok_def tables_ok_def)
  then show ?thesis using p tab_okD(3) [OF tk(1), of p] by (simp add: HASH_FIND_eq [OF tk(1)])
qed

lemma spare_fn: "(\<lambda>p. p\<lparr>devdax_offset := off, in_dram := f, present := False\<rparr>) = spare_page f off"
  by (simp add: spare_page_def fun_eq_iff)

text \<open>The states an iteration goes through, for both directions.\<close>

definition swap_run :: "bool \<Rightarrow> config \<Rightarrow> ucm_env \<Rightarrow> ptr \<Rightarrow> hemem_process \<Rightarrow> ptr \<Rightarrow> nat \<Rightarrow> ucm_state \<Rightarrow>
    ucm_state \<Rightarrow> ptr \<Rightarrow> ucm_state \<Rightarrow> ucm_state \<Rightarrow> ucm_state \<Rightarrow> ucm_state \<Rightarrow> ucm_state \<Rightarrow> bool" where
  "swap_run up cfg env pr P p h s s2 np s3 s4 s5 s6 s7 \<longleftrightarrow>
     dequeue_page (tier_free up) s2 = Inr (np, s3) \<and> np \<noteq> NULL \<and> \<not> present (pages s np) \<and>
     pg_pid (pages s np) = -1 \<and> pages s3 = pages s \<and> mm_find_page pr (va (pages s p)) s3 = Inr p \<and>
     migrate_page up cfg env pr p (devdax_offset (pages s np)) s3 = Inr s4 \<and>
     upd_page np (spare_page (\<not> up) (devdax_offset (pages s p))) s4 = s5 \<and>
     assert_clean_page np s5 = Inr s5 \<and> hot (pages s5 p) = hot (pages s p) \<and>
     enqueue_page (bin up pr h) p (upd_page p (hot_update (\<lambda>_. h)) s5) = Inr s6 \<and>
     \<not> present (pages s6 np) \<and> enqueue_page (tier_free (\<not> up)) np s6 = Inr s7 \<and>
     pt (pages s7 p) = HUGEP \<and> pg_list s np = Some (tier_free up) \<and> relocated up pr P p np h s s7"

lemma swap_ok:
  assumes inv: "sys_ok s" and P: "procs s pr = Some P" and e: "env_good env"
    and p: "pg_list s p = Some (bin (\<not> up) pr i)" and fr: "\<not> in_free_ring (pages s p)"
    and sq: "page_seq s (tier_free up) = xs @ [np]"
    and dq: "dequeue_page (tier_free up) s2 = Inr (np, s3)" and s3: "prepared (\<not> up) pr P p np s s3"
  shows "\<exists>s4 s5 s6 s7. swap_run up cfg env pr P p h s s2 np s3 s4 s5 s6 s7"
proof -
  have u: "ucm_inv s" using inv by (simp add: sys_ok_def)
  have p0: "p \<noteq> NULL" by (rule ucm_inv_bin [OF u p], simp)
  have mp: "p \<in> mapped s pr" using p fr by (simp add: mapped_def)
  have npl: "pg_list s np = Some (tier_free up)"
    using u pl_wf_mem [of s np "tier_free up"] sq by (simp add: ucm_inv_def)
  have 3: "pages s3 = pages s" "procs s3 pr = Some (mm_update (forget (\<not> up) p) P)"
    using s3 by (simp_all add: prepared_def)
  have np: "np \<noteq> NULL" "\<not> present (pages s np)" "pg_pid (pages s np) = -1"
    using u npl pl_wf_nonnull ucm_inv_list [OF u npl]
    by (auto simp: ucm_inv_def pl_wf_mem list_ok_free free_page_def)
  obtain s4 where s4: "migrate_page up cfg env pr p (devdax_offset (pages s np)) s3 = Inr s4"
    "migrated up pr p (devdax_offset (pages s np)) (mm_update (forget (\<not> up) p) P) s3 s4"
    using migrate_page_ok [OF prepared_can_move [OF inv P p fr npl s3] e] by blast
  have "mm_find_page pr (va (pages s p)) s3 = Inr p"
    using mapped_found [OF inv P mp p0] 3 by (simp add: mm_find_page_def)
  moreover obtain s6 s7 where "assert_clean_page np (upd_page np (spare_page (\<not> up) (devdax_offset (pages s p))) s4) =
      Inr (upd_page np (spare_page (\<not> up) (devdax_offset (pages s p))) s4)"
    "enqueue_page (bin up pr h) p (upd_page p (hot_update (\<lambda>_. h))
      (upd_page np (spare_page (\<not> up) (devdax_offset (pages s p))) s4)) = Inr s6"
    "enqueue_page (tier_free (\<not> up)) np s6 = Inr s7" "relocated up pr P p np h s s7"
    "pt (pages s7 p) = HUGEP" "\<not> present (pages s6 np)"
    "hot (pages (upd_page np (spare_page (\<not> up) (devdax_offset (pages s p))) s4) p) = hot (pages s p)"
    using finish_ok [OF inv P p npl s3 s4(2), of h] by blast
  ultimately show ?thesis
    unfolding swap_run_def using dq np npl 3(1) s4(1) by blast
qed

lemma candidate_run:
  assumes inv: "sys_ok s" and P: "procs s pr = Some P" and e: "env_good env"
    and c: "find (movable s) (searched up pr s) = Some p" and fr: "\<not> in_free_ring (pages s p)"
  shows "\<exists>s1 s2. (if up then find_hottest_slowmem_page else find_coldest_fastmem_page) pr s = Inr (p, s1) \<and>
    procs s1 pr = Some P \<and> pages s1 = pages s \<and> drop_bookmark (\<not> up) pr P p s1 = Inr s2 \<and> pages s2 = pages s \<and>
    (page_seq s (tier_free up) = [] \<and> dequeue_page (tier_free up) s2 = Inr (NULL, s2) \<and>
       (\<exists>s'. enqueue_page (bin (\<not> up) pr h) p (upd_page p (hot_update (\<lambda>_. h)) s2) = Inr s' \<and>
          requeued (\<not> up) pr P p h s s') \<or>
     (\<exists>np s3 s4 s5 s6 s7. swap_run up cfg env pr P p h s s2 np s3 s4 s5 s6 s7))"
proof -
  have u: "ucm_inv s" using inv by (simp add: sys_ok_def)
  obtain i where p: "pg_list s p = Some (bin (\<not> up) pr i)" using searched_page [OF u c] by auto
  have b: "hot (pages s p) = i" "p \<noteq> NULL" by (rule ucm_inv_bin [OF u p], simp)+
  obtain s1 s2 where 1: "page_list_remove (bin (\<not> up) pr (hot (pages s p))) p s = Inr s1"
    "procs s1 pr = Some P" "pages s1 = pages s" "drop_bookmark (\<not> up) pr P p s1 = Inr s2"
    and d: "page_seq s (tier_free (\<not> \<not> up)) = [] \<Longrightarrow> dequeue_page (tier_free (\<not> \<not> up)) s2 = Inr (NULL, s2)"
      "\<And>xs np. page_seq s (tier_free (\<not> \<not> up)) = xs @ [np] \<Longrightarrow>
         \<exists>s3. dequeue_page (tier_free (\<not> \<not> up)) s2 = Inr (np, s3) \<and> prepared (\<not> up) pr P p np s s3"
    and 2: "same_registry s s2" "pages s2 = pages s" "procs s2 = (procs s)(pr \<mapsto> mm_update (forget (\<not> up) p) P)"
      "pl_wf s2" "pg_list s2 = (pg_list s)(p := None)" "held s2 = held s"
      "page_seq s2 = (page_seq s)(bin (\<not> up) pr (hot (pages s p)) :=
         remove1 p (page_seq s (bin (\<not> up) pr (hot (pages s p)))))"
      "pa_to_proc_map s2 = pa_to_proc_map s" "ucm_mem s2 = ucm_mem s"
    by (rule prepare_ok [OF u P p]) auto
  have fd: "(if up then find_hottest_slowmem_page else find_coldest_fastmem_page) pr s = Inr (p, s1)"
    unfolding candidate_fn_eq [OF u P] using c 1(1) by simp
  show ?thesis
  proof (cases "page_seq s (tier_free up)" rule: rev_cases)
    case Nil
    then show ?thesis
      using fd 1(2-4) 2(2) d(1) requeue_run [OF p b(2,1) 2, of h] by auto
  next
    case (snoc xs np)
    then obtain s3 where "dequeue_page (tier_free up) s2 = Inr (np, s3)" "prepared (\<not> up) pr P p np s s3"
      using d(2) [of xs np] by auto
    then obtain s4 s5 s6 s7 where "swap_run up cfg env pr P p h s s2 np s3 s4 s5 s6 s7"
      using swap_ok [OF inv P e p fr snoc] by blast
    then show ?thesis using fd 1(2-4) 2(2) by blast
  qed
qed

lemma bookmark_code:
  "drop_bookmark True pr P p s = (if p = cur_cool_in_fastmem (mm P) then assertC (in_dram (pages s p))
     (upd_mm pr (\<lambda>m. m\<lparr>cur_cool_in_fastmem := NULL, cur_cool_in_fastmem_list := 0\<rparr>) s) else Inr s)"
  "drop_bookmark False pr P p s = (if p = cur_cool_in_slowmem (mm P) then assertC (\<not> in_dram (pages s p))
     (upd_mm pr (\<lambda>m. m\<lparr>cur_cool_in_slowmem := NULL, cur_cool_in_slowmem_list := 0\<rparr>) s) else Inr s)"
  by (simp_all add: drop_bookmark_def cur_cool_def set_cur_cool_fn)

lemma hot_unchanged: "hot (pages s p) = h \<Longrightarrow> upd_page p (hot_update (\<lambda>_. h)) s = s"
  by (simp add: upd_page_def fun_upd_idem)

lemma down_iterates:
  assumes inv: "sys_ok s" and P: "procs s pr = Some P" and e: "env_good env"
    and c: "find (movable s) (searched False pr s) = Some p" and fr: "\<not> in_free_ring (pages s p)"
    and m: "m < bytes" "m < PEBS_MIGRATE_RATE"
  shows "iterates False cfg env n pr P p bytes m s"
proof -
  have m': "\<not> PEBS_MIGRATE_RATE \<le> m" using m(2) by simp
  let ?h = "hot (pages s p)"
  have u: "ucm_inv s" using inv by (simp add: sys_ok_def)
  obtain i where p: "pg_list s p = Some (bin (\<not> False) pr i)" using searched_page [OF u c] .
  have b: "p \<noteq> NULL" "pg_pid (pages s p) = pid P" "va (pages s p) \<noteq> 0"
    by (rule ucm_inv_bin [OF u p]; use P in auto)+
  obtain s1 s2 where 1: "find_coldest_fastmem_page pr s = Inr (p, s1)" "procs s1 pr = Some P" "pages s1 = pages s"
    "drop_bookmark (\<not> False) pr P p s1 = Inr s2" "pages s2 = pages s"
    and r: "page_seq s (tier_free False) = [] \<and> dequeue_page (tier_free False) s2 = Inr (NULL, s2) \<and>
       (\<exists>s'. enqueue_page (bin (\<not> False) pr ?h) p (upd_page p (hot_update (\<lambda>_. ?h)) s2) = Inr s' \<and>
          requeued (\<not> False) pr P p ?h s s') \<or>
     (\<exists>np s3 s4 s5 s6 s7. swap_run False cfg env pr P p ?h s s2 np s3 s4 s5 s6 s7)"
    using candidate_run [OF inv P e c fr, of ?h cfg, unfolded if_False] by blast
  from r show ?thesis
  proof (elim disjE conjE exE)
    fix s' assume d: "page_seq s (tier_free False) = []" "dequeue_page (tier_free False) s2 = Inr (NULL, s2)"
      and s': "enqueue_page (bin (\<not> False) pr ?h) p (upd_page p (hot_update (\<lambda>_. ?h)) s2) = Inr s'"
        "requeued (\<not> False) pr P p ?h s s'"
    have "upd_page p (hot_update (\<lambda>_. ?h)) s2 = s2" using 1(5) by (simp add: hot_unchanged)
    then have "migrate_down_loop cfg env find_coldest_fastmem_page (Suc n) pr bytes m s = Inr (m, s')"
      using 1 b d(2) s'(1) m by (simp add: get_free_page flip: bookmark_code)
    then show ?thesis
      unfolding iterates_def using d(1) s'(2) by (auto simp: migrate_loop_def target_level_def)
  next
    fix np s3 s4 s5 s6 s7 assume sr: "swap_run False cfg env pr P p ?h s s2 np s3 s4 s5 s6 s7"
    then have h5: "upd_page p (hot_update (\<lambda>_. ?h)) s5 = s5" "hot (pages s5 p) = ?h"
      by (simp_all add: swap_run_def hot_unchanged)
    have "migrate_down_loop cfg env find_coldest_fastmem_page (Suc n) pr bytes m s =
        migrate_down_loop cfg env find_coldest_fastmem_page n pr bytes (m + HUGEPAGE_SIZE) s7"
      using 1 b m(1) m' sr h5 unfolding swap_run_def
      by (simp add: get_free_page return_free_page migrate_page_def spare_fn flip: bookmark_code)
    then show ?thesis
      unfolding iterates_def using sr by (auto simp: migrate_loop_def target_level_def swap_run_def)
  qed
qed

lemma up_iterates:
  assumes inv: "sys_ok s" and P: "procs s pr = Some P" and e: "env_good env"
    and c: "find (movable s) (searched True pr s) = Some p" and fr: "\<not> in_free_ring (pages s p)"
    and m: "m < bytes" "m < PEBS_MIGRATE_RATE" and pebs: "CONFIG_PEBS cfg"
  shows "iterates True cfg env n pr P p bytes m s"
proof -
  have m': "\<not> PEBS_MIGRATE_RATE \<le> m" using m(2) by simp
  let ?h = "cooled_level cfg P (pages s p)"
  have u: "ucm_inv s" using inv by (simp add: sys_ok_def)
  obtain i where p: "pg_list s p = Some (bin (\<not> True) pr i)" using searched_page [OF u c] .
  have b: "p \<noteq> NULL" "pg_pid (pages s p) = pid P" "va (pages s p) \<noteq> 0"
    by (rule ucm_inv_bin [OF u p]; use P in auto)+
  have "owner s p = Some pr" using p by (rule owner_simps)
  then have "clocks_ok P (pages s p)"
    using inv P by (simp add: sys_ok_def proc_ok_def clocks_all_ok_def)
  then have tmp: "tmp_accesses P (pages s p) = Inr (cooled P (pages s p) FASTMEM, cooled P (pages s p) SLOWMEM)"
    by (rule tmp_accesses_ok)
  obtain s1 s2 where 1: "find_hottest_slowmem_page pr s = Inr (p, s1)" "procs s1 pr = Some P" "pages s1 = pages s"
    "drop_bookmark (\<not> True) pr P p s1 = Inr s2" "pages s2 = pages s"
    and r: "page_seq s (tier_free True) = [] \<and> dequeue_page (tier_free True) s2 = Inr (NULL, s2) \<and>
       (\<exists>s'. enqueue_page (bin (\<not> True) pr ?h) p (upd_page p (hot_update (\<lambda>_. ?h)) s2) = Inr s' \<and>
          requeued (\<not> True) pr P p ?h s s') \<or>
     (\<exists>np s3 s4 s5 s6 s7. swap_run True cfg env pr P p ?h s s2 np s3 s4 s5 s6 s7)"
    using candidate_run [OF inv P e c fr, of ?h cfg, unfolded if_True] by blast
  from r show ?thesis
  proof (elim disjE conjE exE)
    fix s' assume d: "page_seq s (tier_free True) = []" "dequeue_page (tier_free True) s2 = Inr (NULL, s2)"
      and s': "enqueue_page (bin (\<not> True) pr ?h) p (upd_page p (hot_update (\<lambda>_. ?h)) s2) = Inr s'"
        "requeued (\<not> True) pr P p ?h s s'"
    have "migrate_up_loop cfg env find_hottest_slowmem_page (Suc n) pr bytes m s = Inr (m, s')"
      using 1 b d(2) s'(1) m tmp
      by (simp add: get_free_page Let_def flip: bookmark_code cooled_level_def)
    then show ?thesis
      unfolding iterates_def using d(1) s'(2) by (auto simp: migrate_loop_def target_level_def)
  next
    fix np s3 s4 s5 s6 s7 assume sr: "swap_run True cfg env pr P p ?h s s2 np s3 s4 s5 s6 s7"
    have "migrate_up_loop cfg env find_hottest_slowmem_page (Suc n) pr bytes m s =
        migrate_up_loop cfg env find_hottest_slowmem_page n pr bytes (m + HUGEPAGE_SIZE) s7"
      using 1 b m(1) m' tmp sr pebs unfolding swap_run_def
      by (simp add: get_free_page return_free_page migrate_page_def spare_fn Let_def
          flip: bookmark_code cooled_level_def)
    then show ?thesis
      unfolding iterates_def using sr by (auto simp: migrate_loop_def target_level_def swap_run_def)
  qed
qed

section \<open>The loop\<close>

text \<open>What \<open>k\<close> migrated bytes leave behind.\<close>

definition shifted_quota :: "bool \<Rightarrow> u64 \<Rightarrow> process_mem \<Rightarrow> process_mem \<Rightarrow> bool" where
  "shifted_quota up k m m' \<longleftrightarrow> free_page_ring m' = free_page_ring m \<and>
     current_fastmem m' = (if up then current_fastmem m + k else current_fastmem m - k) \<and>
     current_slowmem m' = (if up then current_slowmem m - k else current_slowmem m + k)"

definition loop_kept :: "bool \<Rightarrow> ptr \<Rightarrow> hemem_process \<Rightarrow> u64 \<Rightarrow> ucm_state \<Rightarrow> ucm_state \<Rightarrow> bool" where
  "loop_kept up pr P k s s' \<longleftrightarrow> sys_ok s' \<and> held s' = held s \<and> owner s' = owner s \<and> same_data s s' \<and> listed s' = listed s \<and>
     same_registry s s' \<and> (\<forall>p. in_free_ring (pages s' p) = in_free_ring (pages s p)) \<and>
     (\<exists>P'. procs s' = (procs s)(pr \<mapsto> P') \<and> pid P' = pid P \<and> shifted_quota up k (mm P) (mm P'))"

definition loop_stops :: "bool \<Rightarrow> ptr \<Rightarrow> u64 \<Rightarrow> u64 \<Rightarrow> ucm_state \<Rightarrow> bool" where
  "loop_stops up pr bytes n s \<longleftrightarrow> bytes \<le> n \<or> PEBS_MIGRATE_RATE \<le> n \<or>
     find (movable s) (searched up pr s) = None \<or> page_seq s (tier_free up) = []"

lemma loop_kept_refl: "sys_ok s \<Longrightarrow> procs s pr = Some P \<Longrightarrow> loop_kept up pr P 0 s s"
  by (auto simp: loop_kept_def same_data_def shifted_quota_def fun_upd_idem intro!: exI [of _ P])

lemma loop_kept_trans:
  assumes 1: "loop_kept up pr P k s t" and 2: "loop_kept up pr Q l t u" and Q: "procs t pr = Some Q"
  shows "loop_kept up pr P (k + l) s u"
proof -
  obtain P' where P': "procs t = (procs s)(pr \<mapsto> P')" "pid P' = pid P" "shifted_quota up k (mm P) (mm P')"
    using 1 by (auto simp: loop_kept_def)
  obtain Q' where Q': "procs u = (procs t)(pr \<mapsto> Q')" "pid Q' = pid Q" "shifted_quota up l (mm Q) (mm Q')"
    using 2 by (auto simp: loop_kept_def)
  have "Q = P'" using Q P'(1) by simp
  then have "shifted_quota up (k + l) (mm P) (mm Q')"
    using P'(3) Q'(3) by (auto simp: shifted_quota_def)
  moreover have "same_data s u" using 1 2 by (simp add: loop_kept_def same_data_def)
  moreover have "same_registry s u" using 1 2 by (auto simp: loop_kept_def intro: same_registry_trans)
  ultimately show ?thesis
    using 1 2 P'(1,2) Q'(1,2) \<open>Q = P'\<close> by (auto simp: loop_kept_def)
qed

lemma relocated_loop_kept:
  assumes inv: "sys_ok s" and P: "procs s pr = Some P" and p: "pg_list s p = Some (bin (\<not> up) pr i)"
    and fr: "\<not> in_free_ring (pages s p)" and np: "pg_list s np = Some (tier_free up)"
    and r: "relocated up pr P p np h s s'" and h: "h < NUM_HOTNESS_LEVELS"
  shows "loop_kept up pr P HUGEPAGE_SIZE s s'"
proof -
  note a = relocated_parts [OF p np r]
  let ?N = "moved_proc up p (devdax_offset (pages s np)) HUGEPAGE_SIZE (mm_update (forget (\<not> up) p) P)"
  have "shifted_quota up HUGEPAGE_SIZE (mm P) (mm ?N)"
    by (auto simp: shifted_quota_def moved_proc_def recharged_def retabled_def counted_def forget_def set_cur_cool_def)
  moreover have "procs s' = (procs s)(pr \<mapsto> ?N)" "held s' = held s" "same_registry s s'"
    using r by (simp_all add: relocated_def)
  moreover have "sys_ok s'" using inv P p fr np r h by (rule relocated_keeps)
  moreover have "same_data s s'" using inv p np r by (rule relocated_data)
  moreover have "listed s' = listed s" using r p np by (auto simp: relocated_def listed_def)
  ultimately show ?thesis
    using a(1,7) unfolding loop_kept_def by (auto intro!: exI [of _ ?N])
qed

lemma requeued_loop_kept:
  assumes inv: "sys_ok s" and P: "procs s pr = Some P" and p: "pg_list s p = Some (bin (\<not> up) pr i)"
    and r: "requeued (\<not> up) pr P p h s s'" and h: "h < NUM_HOTNESS_LEVELS"
  shows "loop_kept up pr P 0 s s'"
proof -
  let ?N = "mm_update (forget (\<not> up) p) P"
  have "shifted_quota up 0 (mm P) (mm ?N)"
    by (simp add: shifted_quota_def forget_def set_cur_cool_def)
  moreover have "procs s' = (procs s)(pr \<mapsto> ?N)" "held s' = held s" "same_registry s s'"
    "in_free_ring (pages s' x) = in_free_ring (pages s x)" for x
    using r by (simp_all add: requeued_def)
  moreover have "listed s' = listed s" using r p by (auto simp: requeued_def listed_def)
  ultimately show ?thesis
    using requeued_keeps [OF inv P p r h] unfolding loop_kept_def by (auto intro!: exI [of _ ?N])
qed

text \<open>Every migration takes a page off the lists the fuel counts.\<close>

lemma pages_on_eq:
  "pages_on bins s = (\<Sum>i<NUM_HOTNESS_LEVELS. length (page_seq s (bins i)))"
  by (simp add: pages_on_def page_seq_def length_walk interv_sum_list_conv_sum_set_nat atLeast0LessThan)

lemma relocated_fewer:
  assumes u: "ucm_inv s" and p: "pg_list s p = Some (bin (\<not> up) pr i)" and r: "relocated up pr P p np h s s'"
  shows "Suc (pages_on (bin (\<not> up) pr) s') = pages_on (bin (\<not> up) pr) s"
proof -
  have i: "hot (pages s p) = i" "i < NUM_HOTNESS_LEVELS" "p \<in> set (page_seq s (bin (\<not> up) pr i))"
    by (rule ucm_inv_bin [OF u p], simp)+
  let ?f = "\<lambda>s j. length (page_seq s (bin (\<not> up) pr j))"
  have sq: "?f s' j = (if j = i then ?f s i - 1 else ?f s j)" for j
    using r i(1,3) by (cases up) (simp_all add: relocated_def length_remove1)
  have "0 < ?f s i" using i(3) by (cases "page_seq s (bin (\<not> up) pr i)") auto
  moreover have "(\<Sum>j<NUM_HOTNESS_LEVELS. g j) = g i + (\<Sum>j\<in>{..<NUM_HOTNESS_LEVELS} - {i}. g j)" for g :: "nat \<Rightarrow> nat"
    using i(2) by (intro sum.remove) simp_all
  moreover have "(\<Sum>j\<in>{..<NUM_HOTNESS_LEVELS} - {i}. ?f s' j) = (\<Sum>j\<in>{..<NUM_HOTNESS_LEVELS} - {i}. ?f s j)"
    by (rule sum.cong) (simp_all add: sq)
  ultimately show ?thesis by (simp add: pages_on_eq sq)
qed

lemma migrate_loop_ok:
  assumes e: "env_good env" and pebs: "up \<Longrightarrow> CONFIG_PEBS cfg"
  shows "\<lbrakk>sys_ok s; procs s pr = Some P; \<forall>p. owner s p = Some pr \<longrightarrow> \<not> in_free_ring (pages s p);
      pages_on (bin (\<not> up) pr) s < fuel\<rbrakk> \<Longrightarrow>
    \<exists>n s'. migrate_loop up cfg env fuel pr bytes m s = Inr (n, s') \<and> loop_kept up pr P (n - m) s s' \<and>
      loop_stops up pr bytes n s'"
proof (induction fuel arbitrary: m s P)
  case (Suc fuel)
  note inv = Suc.prems(1) and P = Suc.prems(2)
  have u: "ucm_inv s" using inv by (simp add: sys_ok_def)
  have fin: ?case if "migrate_loop up cfg env (Suc fuel) pr bytes m s = Inr (m, s)" "loop_stops up pr bytes m s"
    using that loop_kept_refl [OF inv P] by simp
  show ?case
  proof (cases "m < bytes \<and> m < PEBS_MIGRATE_RATE")
    case False
    then show ?thesis
      by (intro fin) (auto simp: migrate_loop_def loop_stops_def not_less)
  next
    case True
    then have m: "m < bytes" "m < PEBS_MIGRATE_RATE" and m': "\<not> PEBS_MIGRATE_RATE \<le> m"
      by (simp_all add: not_le)
    show ?thesis
    proof (cases "find (movable s) (searched up pr s)")
      case None
      then have "(if up then find_hottest_slowmem_page else find_coldest_fastmem_page) pr s = Inr (NULL, s)"
        by (simp add: candidate_fn_eq [OF u P])
      then have "migrate_loop up cfg env (Suc fuel) pr bytes m s = Inr (m, s)"
        using m(1) m' by (cases up) (simp_all add: migrate_loop_def)
      then show ?thesis using None by (intro fin) (simp_all add: loop_stops_def)
    next
      case (Some p)
      obtain i where p: "pg_list s p = Some (bin (\<not> up) pr i)" using searched_page [OF u Some] .
      have fr: "\<not> in_free_ring (pages s p)" using Suc.prems(3) owner_simps(1) [OF p] by simp
      let ?h = "target_level up cfg P (pages s p)"
      have h: "?h < NUM_HOTNESS_LEVELS"
        using ucm_inv_bin [OF u p] by (auto simp: target_level_def cooled_level_bound)
      have "iterates up cfg env fuel pr P p bytes m s"
        using down_iterates [OF inv P e _ fr m] up_iterates [OF inv P e _ fr m] Some pebs by (cases up) simp_all
      then show ?thesis
        unfolding iterates_def
      proof (elim disjE conjE exE)
        fix s' assume a: "page_seq s (tier_free up) = []"
          "migrate_loop up cfg env (Suc fuel) pr bytes m s = Inr (m, s')" "requeued (\<not> up) pr P p ?h s s'"
        have "loop_stops up pr bytes m s'" using a(1,3) by (simp add: loop_stops_def requeued_def)
        then show ?thesis using a(2) requeued_loop_kept [OF inv P p a(3) h] by simp
      next
        fix np s' assume a: "pg_list s np = Some (tier_free up)"
          "migrate_loop up cfg env (Suc fuel) pr bytes m s = migrate_loop up cfg env fuel pr bytes (m + HUGEPAGE_SIZE) s'"
          "relocated up pr P p np ?h s s'"
        have k: "loop_kept up pr P HUGEPAGE_SIZE s s'"
          using inv P p fr a(1,3) h by (rule relocated_loop_kept)
        then obtain P' where P': "procs s' pr = Some P'" by (auto simp: loop_kept_def)
        have "pages_on (bin (\<not> up) pr) s' < fuel"
          using relocated_fewer [OF u p a(3)] Suc.prems(4) by simp
        moreover have "sys_ok s'" "\<forall>p. owner s' p = Some pr \<longrightarrow> \<not> in_free_ring (pages s' p)"
          using k Suc.prems(3) by (simp_all add: loop_kept_def)
        ultimately obtain n u where n: "migrate_loop up cfg env fuel pr bytes (m + HUGEPAGE_SIZE) s' = Inr (n, u)"
          "loop_kept up pr P' (n - (m + HUGEPAGE_SIZE)) s' u" "loop_stops up pr bytes n u"
          using Suc.IH [OF _ P'] by blast
        have "loop_kept up pr P (HUGEPAGE_SIZE + (n - (m + HUGEPAGE_SIZE))) s u"
          using k n(2) P' by (rule loop_kept_trans)
        then show ?thesis using a(2) n(1,3) by (auto simp: algebra_simps)
      qed
    qed
  qed
qed simp

end
