(* ===== verification/Sys_Process.thy ===== *)
theory Sys_Process
  imports Migration_Loop Process_Mgr Ucm
begin

text \<open>
  Processes come and go: \<open>ipc_handle_add_process\<close> and \<open>ucm_remove_process\<close> keep the
  invariant of the whole manager. A new process owns nothing; the pages of a removed one
  all go back to the free lists.
\<close>

section \<open>Adding a process\<close>

text \<open>
  A fresh block of memory is on no list, so zeroing the links and the level lists in it
  changes nothing.
\<close>

lemma fresh_bins:
  assumes u: "ucm_inv s" and n: "procs s a = None"
  shows "page_seq s (bin f a i) = []"
proof (rule ccontr)
  assume "page_seq s (bin f a i) \<noteq> []"
  then obtain p where "p \<in> set (page_seq s (bin f a i))" using hd_in_set by blast
  then have "pg_list s p = Some (bin f a i)" using u by (simp add: ucm_inv_def pl_wf_mem)
  then show False using ucm_inv_bin [OF u] n by fastforce
qed

lemma fresh_calloc:
  assumes u: "ucm_inv s" and w: "pr_wf s" and n: "procs s a = None" "\<not> pr_list s a"
  shows "calloc_process a s = s\<lparr>held := held s - {a}, target_miss_ratio := (target_miss_ratio s)(a := Fin 0)\<rparr>"
proof -
  have "plists s (bin f a i) = empty_page_list" for f i
  proof -
    have "is_plist s (bin f a i) []"
      using u fresh_bins [OF u n(1), of f i] pl_wf_plist [of s "bin f a i"] by (simp add: ucm_inv_def)
    then show ?thesis by (simp add: is_plist_def empty_page_list_def)
  qed
  from this [of True] this [of False]
  have "plists (calloc_process a s) = plists s"
    by (auto simp: calloc_process_def fun_eq_iff split: list_id.splits)
  moreover have "pr_next s a = NULL" "pr_prev s a = NULL" using w n(2) by (simp_all add: pr_wf_def)
  ultimately show ?thesis
    using n(2) by (simp add: calloc_process_def fun_upd_idem)
qed

lemma owner_some: "\<lbrakk>ucm_inv s; owner s p = Some c\<rbrakk> \<Longrightarrow> procs s c \<noteq> None"
  by (erule owner_proc) auto

definition empty_proc :: "hemem_process \<Rightarrow> bool" where
  "empty_proc P \<longleftrightarrow> pages_table (mm P) = [] \<and> cxl_offset_to_page (mm P) = [] \<and>
     (\<forall>f. cur_cool f (mm P) = NULL) \<and> (\<forall>r \<in> {hot_ring (mm P), cold_ring (mm P), free_page_ring (mm P)}.
       ring_wf r \<and> ring_list r = [])"

lemma sys_ok_new_proc:
  assumes inv: "sys_ok s" and n: "procs s a = None" "a \<noteq> NULL" and e: "empty_proc P"
  shows "sys_ok (s\<lparr>procs := (procs s)(a \<mapsto> P)\<rparr>)" (is "sys_ok ?s")
proof -
  have u: "ucm_inv s" using inv by (simp add: sys_ok_def)
  have ow: "owner ?s = owner s" by (simp add: owner_def fun_eq_iff)
  have no: "owner s p \<noteq> Some a" for p using owner_some [OF u] n(1) by blast
  have mp: "mapped ?s = mapped s" "slow_mapped ?s = slow_mapped s"
    by (simp_all add: mapped_def slow_mapped_def ow fun_eq_iff)
  have "bin_page ?s f c i pg" if "bin_page s f c i pg" for f c i pg
    using that n(1) by (auto simp: bin_page_def)
  then have "list_ok ?s q pg" if "list_ok s q pg" for q pg
    using that by (cases q) auto
  then have "pages_ok ?s" using u by (simp add: ucm_inv_def pages_ok_def)
  moreover have "bookmarks_ok ?s"
    using u e n(1) by (auto simp: ucm_inv_def bookmarks_ok_def empty_proc_def)
  moreover have "pl_wf ?s" using u page_parts_cong(2) [of ?s s] by (simp add: ucm_inv_def)
  ultimately have "ucm_inv ?s" by (simp add: ucm_inv_def)
  moreover have "proc_ok ?s c C = proc_ok s c C" for c C
    by (simp add: proc_ok_def tables_ok_def free_reqs_ok_def level_reqs_ok_def clocks_all_ok_def mp ow)
  moreover have "proc_ok s a P"
    using e no by (auto simp: proc_ok_def tables_ok_def free_reqs_ok_def level_reqs_ok_def clocks_all_ok_def
        mapped_def slow_mapped_def empty_proc_def)
  moreover have "pa_key ?s = pa_key s" by (simp add: fun_eq_iff pa_key_def)
  ultimately show ?thesis
    using inv n(2) by (auto simp: sys_ok_def frames_ok_def frame_ok_def tier_size_def pa_map_ok_def
        pages_idle_def tiers_ok_def ow mp)
qed

text \<open>The process that \<open>hemem_process_init\<close> builds from three buffers.\<close>

definition buffers_ok :: "ptr list \<Rightarrow> ptr list \<Rightarrow> ptr list \<Rightarrow> bool" where
  "buffers_ok hb cb fb \<longleftrightarrow> length hb = CAPACITY \<and> length cb = CAPACITY \<and> length fb = CAPACITY"

lemma capacity_u64: "unat (of_nat CAPACITY :: u64) = CAPACITY"
  by (simp add: CAPACITY_def)

lemma process_init_ok:
  assumes b: "buffers_ok hb cb fb" and a: "a \<noteq> NULL"
  shows "\<exists>P. hemem_process_init a True (Some hb) (Some cb) (Some fb) pd s =
      Inr (a, (calloc_process a s)\<lparr>procs := (procs s)(a \<mapsto> P)\<rparr>) \<and> empty_proc P \<and> pid P = pd \<and>
      process_clock P = (\<lambda>_. 0)"
proof -
  have "2 \<le> unat (of_nat CAPACITY :: u64)" unfolding capacity_u64 by (simp add: CAPACITY_def)
  note init = ring_init_refines [OF this, unfolded capacity_u64]
  obtain h where h: "ring_buf_init True (Some hb) (of_nat CAPACITY) = Inr h" "ring_wf h" "ring_list h = []"
    using init [of hb] b by (auto simp: buffers_ok_def)
  obtain c where c: "ring_buf_init True (Some cb) (of_nat CAPACITY) = Inr c" "ring_wf c" "ring_list c = []"
    using init [of cb] b by (auto simp: buffers_ok_def)
  obtain f where f: "ring_buf_init True (Some fb) (of_nat CAPACITY) = Inr f" "ring_wf f" "ring_list f = []"
    using init [of fb] b by (auto simp: buffers_ok_def)
  obtain m where m: "process_mem_init True (Some hb) (Some cb) (Some fb) = Inr m" "hot_ring m = h"
    "cold_ring m = c" "free_page_ring m = f" "pages_table m = []" "cxl_offset_to_page m = []"
    "cur_cool_in_fastmem m = NULL" "cur_cool_in_slowmem m = NULL"
    using h(1) c(1) f(1) by (simp add: process_mem_init_def)
  define P where "P = \<lparr>pid = pd, uffd = 0, exited = False, valid_uffd = False, remap_fd = 0,
    zero_pages = False, still_migrating = False, process_clock = (\<lambda>_. 0), mm = m,
    policy = process_policy_init, pstats = process_stats_init\<rparr>"
  have "procs (calloc_process a s) = procs s" by (simp add: calloc_process_def)
  then have "hemem_process_init a True (Some hb) (Some cb) (Some fb) pd s =
      Inr (a, (calloc_process a s)\<lparr>procs := (procs s)(a \<mapsto> P)\<rparr>)"
    using m(1) a by (simp add: hemem_process_init_def P_def)
  moreover have "empty_proc P" "pid P = pd" "process_clock P = (\<lambda>_. 0)"
    using h c f m by (auto simp: empty_proc_def cur_cool_def P_def)
  ultimately show ?thesis by blast
qed

lemma registry_add:
  assumes r: "registry_ok s" and n: "procs s a = None" "a \<noteq> NULL"
    and f: "HASH_FIND (pid_key s) (proc_map s) (pid P) = NULL"
    and s': "pr_wf s'" "set (proc_seq s') = insert a (set (proc_seq s))" "procs s' = (procs s)(a \<mapsto> P)"
      "proc_map s' = (pid P, a) # proc_map s"
  shows "registry_ok s'" and "find_process (pid P) s' = a"
proof -
  have tk: "tab_ok (pid_key s) (proc_map s)" "tab_elems (proc_map s) = dom (procs s)"
    "set (proc_seq s) = dom (procs s)" using r by (simp_all add: registry_ok_def)
  have k: "pid_key s' x = pid_key s x" if "x \<in> tab_elems (proc_map s)" for x
    using that n(1) tk(2) by (auto simp: pid_key_def s'(3))
  have "tab_ok (pid_key s') (proc_map s) = tab_ok (pid_key s) (proc_map s)" by (rule tab_ok_cong) (rule k)
  moreover have "pid P \<notin> fst ` set (proc_map s)" using f by (simp add: HASH_FIND_null [OF tk(1)])
  moreover have "pid_key s' a = pid P" by (simp add: pid_key_def s'(3))
  ultimately have ok: "tab_ok (pid_key s') (proc_map s')"
    using tk n by (auto simp: s'(4) tab_ok_Cons)
  then show "registry_ok s'" using s' tk by (auto simp: registry_ok_def)
  show "find_process (pid P) s' = a"
    using HASH_FIND_eq [OF ok n(2), of "pid P"] by (simp add: find_process_def s'(4))
qed

lemma proc_link_frame:
  assumes "proc_link_step s s'"
  shows "procs s' = procs s" and "proc_map s' = proc_map s" and "held s' = held s" and "owner s' = owner s"
    and "ucm_mem s' = ucm_mem s" and "pages s' = pages s" and "sys_ok s' = sys_ok s"
    and "devdax_offset_to_addr o' g s' = devdax_offset_to_addr o' g s" and "page_seq s' = page_seq s"
    and "listed s' = listed s"
proof -
  obtain n p l h where s': "s' = s\<lparr>pr_next := n, pr_prev := p, pr_list := l, processes_list := h\<rparr>"
    using assms by (auto simp: proc_link_step_def)
  show "sys_ok s' = sys_ok s" by (rule sys_ok_cong) (simp_all add: s')
  show "page_seq s' = page_seq s" by (rule page_parts_cong) (simp_all add: s')
qed (use assms in \<open>auto simp: proc_link_step_def owner_def fun_eq_iff devdax_offset_to_addr_def listed_def\<close>)

lemma add_process_ok:
  assumes inv: "sys_inv s" and n: "procs s a = None" "a \<noteq> NULL" and pd: "0 \<le> pd" "find_process pd s = NULL"
    and b: "buffers_ok hb cb fb"
  shows "\<exists>s'. ipc_handle_add_process cfg pd ratio zero a True (Some hb) (Some cb) (Some fb) s = Inr (a, s') \<and>
    sys_inv s' \<and> same_data s s' \<and> listed s' = listed s \<and> owner s' = owner s \<and>
    pages s' = pages s \<and> page_seq s' = page_seq s \<and> find_process pd s' = a \<and>
    (\<exists>P. procs s' = (procs s)(a \<mapsto> P) \<and> empty_proc P \<and> pid P = pd \<and> process_clock P = (\<lambda>_. 0))"
proof -
  have ok: "sys_ok s" and r: "registry_ok s" and h: "held s = {}" using inv by (simp_all add: sys_inv_def)
  have w: "pr_wf s" and ns: "a \<notin> set (proc_seq s)" using r n(1) by (auto simp: registry_ok_def)
  then have nl: "\<not> pr_list s a" by (simp add: pr_wf_def is_proclist_def)
  obtain P0 where P0: "hemem_process_init a True (Some hb) (Some cb) (Some fb) pd s =
      Inr (a, (calloc_process a s)\<lparr>procs := (procs s)(a \<mapsto> P0)\<rparr>)" "empty_proc P0" "pid P0 = pd"
    "process_clock P0 = (\<lambda>_. 0)"
    using process_init_ok [OF b n(2)] by blast
  have s_held: "s\<lparr>held := {}\<rparr> = s" by (simp flip: h)
  have c: "calloc_process a s = s\<lparr>target_miss_ratio := (target_miss_ratio s)(a := Fin 0)\<rparr>"
    using fresh_calloc [OF _ w n(1) nl] ok h s_held by (simp add: sys_ok_def)
  let ?P = "P0\<lparr>zero_pages := zero, mm := (mm P0)\<lparr>max_fastmem := get_fastmem_size s\<rparr>\<rparr>"
  have cc: "cur_cool f ((mm P0)\<lparr>max_fastmem := x\<rparr>) = cur_cool f (mm P0)" for f x
    by (simp add: cur_cool_def)
  have P: "empty_proc ?P" "pid ?P = pd" "process_clock ?P = (\<lambda>_. 0)" using P0(2-4) by (simp_all add: empty_proc_def cc)
  define tm where "tm = (if ordered_processes cfg then (target_miss_ratio s)(a := ratio)
    else (target_miss_ratio s)(a := Fin 0))"
  define t where "t = s\<lparr>target_miss_ratio := tm, procs := (procs s)(a \<mapsto> ?P)\<rparr>"
  let ?u = "t\<lparr>proc_map := (pd, a) # proc_map s\<rparr>"
  have idle: "pr_idle ?u" using w h by (simp add: pr_idle_def t_def pr_wf_def is_proclist_def proc_seq_def)
  have sq: "proc_seq ?u = proc_seq s" by (simp add: t_def proc_seq_def)
  then have "a \<notin> set (proc_seq ?u)" using ns by simp
  then obtain s' xs ys where s': "enqueue_process cfg a ?u = Inr s'" "pr_idle s'" "proc_link_step ?u s'"
    "proc_seq ?u = xs @ ys" "proc_seq s' = xs @ a # ys"
    using enqueue_process_ok [OF idle n(2)] by blast
  have f': "HASH_FIND (pid_key s) (proc_map s) pd = NULL" using pd(2) by (simp add: find_process_def)
  have el: "tab_elems (proc_map s) = dom (procs s)" using r by (simp add: registry_ok_def)
  have ft: "HASH_FIND (pid_key t) (proc_map s) pd = HASH_FIND (pid_key s) (proc_map s) pd"
    by (rule HASH_FIND_cong) (use el n(1) in \<open>auto simp: pid_key_def t_def\<close>)
  have nd: "a \<notin> dom (procs s)" using n(1) by (simp add: domIff)
  have ad: "add_process cfg a t = Inr s'"
    using s'(1) ft f' P(2) nd by (simp add: add_process_def HASH_ADD_def el t_def)
  have run: "ipc_handle_add_process cfg pd ratio zero a True (Some hb) (Some cb) (Some fb) s = Inr (a, s')"
    using pd P0(1) ad n(2) h
    by (cases "ordered_processes cfg")
      (simp_all add: ipc_handle_add_process_def c Let_def get_fastmem_size_def t_def tm_def fun_upd_upd)
  have tok: "sys_ok t"
  proof -
    have "sys_ok (s\<lparr>procs := (procs s)(a \<mapsto> ?P)\<rparr>)" using ok n P(1) by (rule sys_ok_new_proc)
    then show ?thesis by (rule sys_ok_cong [THEN iffD2, rotated -1]) (simp_all add: t_def)
  qed
  have fld: "procs s' = (procs s)(a \<mapsto> ?P)" "proc_map s' = (pd, a) # proc_map s" "held s' = {}" "sys_ok s' = sys_ok t"
    "owner s' = owner s" "ucm_mem s' = ucm_mem s" "pages s' = pages s" 
    "\<And>o' g. devdax_offset_to_addr o' g s' = devdax_offset_to_addr o' g s" "listed s' = listed s"
    using proc_link_frame [OF s'(3)] h sys_ok_cong [of ?u t]
    by (simp_all add: t_def owner_def fun_eq_iff devdax_offset_to_addr_def) (simp add: listed_def)
  have rg: "registry_ok s'" "find_process (pid ?P) s' = a"
    by (rule registry_add [OF r n, of ?P s']; use s' sq fld P(2) f' in \<open>auto simp: pr_idle_def\<close>)+
  moreover have "page_seq s' = page_seq s" using proc_link_frame(9) [OF s'(3)] page_parts_cong(1) [of ?u s] by (simp add: t_def)
  ultimately show ?thesis
    using run fld tok P by (intro exI [of _ s'] conjI exI [of _ ?P]) (simp_all add: sys_inv_def same_data_def page_data_def)
qed

section \<open>Removing a process\<close>

text \<open>
  Some pages of the process have been handed to its free ring: nothing else changes that the
  rest of the removal reads.
\<close>

definition handed :: "ptr \<Rightarrow> hemem_process \<Rightarrow> ptr list \<Rightarrow> ucm_state \<Rightarrow> ucm_state \<Rightarrow> bool" where
  "handed pr P ps s s' \<longleftrightarrow> kept pr s s' \<and> owner s' = owner s \<and> page_seq s' = page_seq s \<and>
     (\<forall>x. in_free_ring (pages s' x) \<longleftrightarrow> in_free_ring (pages s x) \<or> x \<in> set ps) \<and>
     (\<exists>Q. procs s' pr = Some Q \<and> free_room Q = free_room P - length ps \<and>
        hot_ring (mm Q) = hot_ring (mm P) \<and> cold_ring (mm Q) = cold_ring (mm P))"

lemma handed_Nil: "\<lbrakk>sys_ok s; procs s pr = Some P\<rbrakk> \<Longrightarrow> handed pr P [] s s"
  by (simp add: handed_def kept_refl)

lemma handed_append:
  assumes 1: "handed pr P xs s t" and 2: "handed pr Q ys t u" and Q: "procs t pr = Some Q"
  shows "handed pr P (xs @ ys) s u"
proof -
  have "kept pr s u" using 1 2 by (auto simp: handed_def intro: kept_trans)
  then show ?thesis using 1 2 Q by (auto simp: handed_def)
qed

lemma hand_one:
  assumes inv: "sys_ok s" and P: "procs s pr = Some P" and p: "p \<in> mapped s pr" and room: "0 < free_room P"
  obtains s' where "mm_remove_page pr p s = Inr s'" "handed pr P [p] s s'"
proof -
  obtain r where r: "mm_remove_page pr p s = Inr (unmap pr p P r s)" "sys_ok (unmap pr p P r s)"
    "free_room (unmapped_proc (in_dram (pages s p)) p r P) = free_room P - 1"
    using remove_page_ok [OF inv P p room] by blast
  let ?s = "unmap pr p P r s" and ?Q = "unmapped_proc (in_dram (pages s p)) p r P"
  have "kept pr s ?s"
    using r(2) P by (intro kept_quiet [where P = P and P' = ?Q]) (simp_all add: listed_def, simp add: unmap_def)
  moreover have "page_seq ?s = page_seq s" by (rule page_parts_cong) simp_all
  ultimately have "handed pr P [p] s ?s" using r(3) by (auto simp: handed_def)
  then show thesis using that r(1) by blast
qed

lemma free_mem_loop_ok:
  "\<lbrakk>sys_ok s; procs s pr = Some P; page_seq s (bin f pr i) = xs @ ys; \<forall>p \<in> set ys. \<not> in_free_ring (pages s p);
     length ys \<le> free_room P; length ys < fuel\<rbrakk> \<Longrightarrow>
   \<exists>s'. free_mem_loop fuel pr (bin f pr i) (last_of NULL xs) n s = Inr (n + of_nat (length ys), s') \<and>
     handed pr P ys s s'"
proof (induction ys arbitrary: xs s P n fuel)
  case Nil
  have "pl_wf s" using Nil.prems(1) by (simp add: sys_ok_def ucm_inv_def)
  from next_after [OF this, of "bin f pr i" xs "[]"] Nil.prems show ?case
    by (cases fuel) (auto intro: handed_Nil)
next
  case (Cons y ys)
  have wf: "pl_wf s" using Cons.prems(1) by (simp add: sys_ok_def ucm_inv_def)
  obtain k where k: "fuel = Suc k" "length ys < k" using Cons.prems(6) by (cases fuel) auto
  have nx: "next_page (bin f pr i) (last_of NULL xs) s = y"
    using next_after [OF wf Cons.prems(3)] by simp
  have "pg_list s y = Some (bin f pr i)" using Cons.prems(3) by (simp add: pl_wf_mem [OF wf])
  then have y: "y \<in> mapped s pr" using Cons.prems(4) by (simp add: mapped_def)
  have y0: "y \<noteq> NULL" using mapped_page(1) [OF Cons.prems(1,2) y] .
  obtain t where t: "mm_remove_page pr y s = Inr t" "handed pr P [y] s t"
    using hand_one [OF Cons.prems(1,2) y] Cons.prems(5) by auto
  obtain Q where Q: "procs t pr = Some Q" "free_room Q = free_room P - 1"
    using t(2) by (auto simp: handed_def)
  have st: "sys_ok t" "page_seq t = page_seq s" using t(2) by (simp_all add: handed_def kept_def)
  have "distinct (xs @ y # ys)" using pl_wf_distinct [OF wf, of "bin f pr i"] Cons.prems(3) by simp
  then have fr: "\<forall>p \<in> set ys. \<not> in_free_ring (pages t p)"
    using t(2) Cons.prems(4) by (auto simp: handed_def)
  have "\<exists>s'. free_mem_loop k pr (bin f pr i) (last_of NULL (xs @ [y])) (n + 1) t =
      Inr (n + 1 + of_nat (length ys), s') \<and> handed pr Q ys t s'"
    using Cons.IH [OF st(1) Q(1) _ fr _ k(2), of "xs @ [y]" "n + 1"] st(2) Cons.prems(3,5) Q(2) by simp
  then obtain s' where s': "free_mem_loop k pr (bin f pr i) y (n + 1) t = Inr (n + 1 + of_nat (length ys), s')"
    "handed pr Q ys t s'" by auto
  have "handed pr P (y # ys) s s'" using handed_append [OF t(2) s'(2) Q(1)] by simp
  then show ?case using k(1) nx y0 t(1) s'(1) by (auto simp: algebra_simps)
qed

lemma free_mem_lists_ok:
  "\<lbrakk>sys_ok s; procs s pr = Some P; distinct ls; \<forall>(f, i) \<in> set ls. \<forall>p \<in> set (page_seq s (bin f pr i)). \<not> in_free_ring (pages s p);
     (\<Sum>(f, i) \<leftarrow> ls. length (page_seq s (bin f pr i))) \<le> free_room P\<rbrakk> \<Longrightarrow>
   \<exists>s' n'. free_mem_lists pr (map (\<lambda>(f, i). bin f pr i) ls) n s = Inr (n', s') \<and>
     handed pr P (concat (map (\<lambda>(f, i). page_seq s (bin f pr i)) ls)) s s'"
proof (induction ls arbitrary: s P n)
  case Nil
  then show ?case by (auto intro: handed_Nil)
next
  case (Cons l ls)
  obtain f i where l: "l = (f, i)" by (cases l)
  let ?ps = "page_seq s (bin f pr i)"
  have wf: "pl_wf s" using Cons.prems(1) by (simp add: sys_ok_def ucm_inv_def)
  have len: "length ?ps < Suc (unat (numentries (plists s (bin f pr i))))"
    by (simp add: page_seq_def length_walk)
  obtain t where t: "free_mem_list pr (bin f pr i) s = Inr (of_nat (length ?ps), t)" "handed pr P ?ps s t"
    using free_mem_loop_ok [OF Cons.prems(1,2), of f i "[]" ?ps, OF _ _ _ len, of 0] Cons.prems(4,5) l
    by (auto simp: free_mem_list_def simp del: free_mem_loop.simps)
  obtain Q where Q: "procs t pr = Some Q" "free_room Q = free_room P - length ?ps"
    using t(2) by (auto simp: handed_def)
  have st: "sys_ok t" "page_seq t = page_seq s" using t(2) by (simp_all add: handed_def kept_def)
  have fr: "\<forall>(g, j) \<in> set ls. \<forall>p \<in> set (page_seq t (bin g pr j)). \<not> in_free_ring (pages t p)"
  proof (clarsimp simp: st(2))
    fix g j p assume a: "(g, j) \<in> set ls" "p \<in> set (page_seq s (bin g pr j))" "in_free_ring (pages t p)"
    have "pg_list s p = Some (bin g pr j)" using a(2) by (simp add: pl_wf_mem [OF wf])
    moreover have "(g, j) \<noteq> (f, i)" using Cons.prems(3) l a(1) by force
    ultimately have "p \<notin> set ?ps" by (auto simp: pl_wf_mem [OF wf, symmetric])
    then show False using t(2) a Cons.prems(4) by (auto simp: handed_def)
  qed
  have room: "(\<Sum>(f, i) \<leftarrow> ls. length (page_seq t (bin f pr i))) \<le> free_room Q" "distinct ls"
    using Cons.prems(3,5) Q(2) l st(2) by simp_all
  obtain s' n' where s': "free_mem_lists pr (map (\<lambda>(f, i). bin f pr i) ls) (n + of_nat (length ?ps)) t = Inr (n', s')"
    "handed pr Q (concat (map (\<lambda>(f, i). page_seq t (bin f pr i)) ls)) t s'"
    using Cons.IH [OF st(1) Q(1) room(2) fr room(1), of "n + of_nat (length ?ps)"] by blast
  have "handed pr P (?ps @ concat (map (\<lambda>(f, i). page_seq s (bin f pr i)) ls)) s s'"
    using handed_append [OF t(2) s'(2) Q(1)] st(2) by simp
  then show ?case using t(1) s'(1) l by auto
qed

lemma sys_ok_del_proc:
  assumes inv: "sys_ok s" and no: "\<And>p. owner s p \<noteq> Some a"
  shows "sys_ok (s\<lparr>procs := (procs s)(a := None)\<rparr>)" (is "sys_ok ?s")
proof -
  have u: "ucm_inv s" using inv by (simp add: sys_ok_def)
  have ow: "owner ?s = owner s" by (simp add: owner_def fun_eq_iff)
  have mp: "mapped ?s = mapped s" "slow_mapped ?s = slow_mapped s"
    by (simp_all add: mapped_def slow_mapped_def ow fun_eq_iff)
  have "list_ok ?s q (pages s p)" if p: "pg_list s p = Some q" for p q
  proof -
    have "q \<noteq> bin f a i" for f i using no [of p] p by auto
    then have "q \<noteq> Fastmem_Bin a i" "q \<noteq> Slowmem_Bin a i" for i by (metis bin_fold(5,6))+
    moreover have "list_ok s q (pages s p)" using u p by (rule ucm_inv_list)
    ultimately show ?thesis by (cases q) (auto simp: bin_page_def)
  qed
  then have "pages_ok ?s" by (simp add: pages_ok_def)
  moreover have "bookmarks_ok ?s" using u by (auto simp: ucm_inv_def bookmarks_ok_def)
  moreover have "pl_wf ?s" using u page_parts_cong(2) [of ?s s] by (simp add: ucm_inv_def)
  ultimately have "ucm_inv ?s" by (simp add: ucm_inv_def)
  moreover have "proc_ok ?s c C = proc_ok s c C" for c C
    by (simp add: proc_ok_def tables_ok_def free_reqs_ok_def level_reqs_ok_def clocks_all_ok_def mp ow)
  moreover have "pa_key ?s = pa_key s" by (simp add: fun_eq_iff pa_key_def)
  ultimately show ?thesis
    using inv by (auto simp: sys_ok_def frames_ok_def frame_ok_def tier_size_def pa_map_ok_def
        pages_idle_def tiers_ok_def ow mp)
qed

definition all_bins :: "(bool \<times> nat) list" where
  "all_bins = map (\<lambda>i. (True, i)) [0..<NUM_HOTNESS_LEVELS] @ map (\<lambda>i. (False, i)) [0..<NUM_HOTNESS_LEVELS]"

text \<open>What the code relies on when it removes a process.\<close>

definition removable :: "ucm_state \<Rightarrow> ptr \<Rightarrow> hemem_process \<Rightarrow> bool" where
  "removable s pr P \<longleftrightarrow> (\<forall>p. owner s p = Some pr \<longrightarrow> \<not> in_free_ring (pages s p)) \<and> rings_short P \<and>
     pages_on (bin True pr) s + pages_on (bin False pr) s \<le> free_room P"

lemma all_bins_facts:
  "distinct all_bins"
  "map (\<lambda>(f, i). bin f pr i) all_bins = map (fastmem_lists pr) [0..<NUM_HOTNESS_LEVELS] @
     map (slowmem_lists pr) [0..<NUM_HOTNESS_LEVELS]"
  "(\<Sum>(f, i) \<leftarrow> all_bins. length (page_seq s (bin f pr i))) = pages_on (bin True pr) s + pages_on (bin False pr) s"
proof -
  show "distinct all_bins" by (auto simp: all_bins_def distinct_map inj_on_def)
  show "map (\<lambda>(f, i). bin f pr i) all_bins = map (fastmem_lists pr) [0..<NUM_HOTNESS_LEVELS] @
     map (slowmem_lists pr) [0..<NUM_HOTNESS_LEVELS]"
    by (simp add: all_bins_def)
  show "(\<Sum>(f, i) \<leftarrow> all_bins. length (page_seq s (bin f pr i))) = pages_on (bin True pr) s + pages_on (bin False pr) s"
    by (simp add: all_bins_def pages_on_eq comp_def interv_sum_list_conv_sum_set_nat atLeast0LessThan)
qed

lemma destroy_ok:
  assumes inv: "sys_ok s" and P: "procs s pr = Some P" and rm: "removable s pr P"
  shows "\<exists>t. process_mem_destroy cfg pr s = Inr t \<and> kept pr s t \<and>
    owner t = (\<lambda>p. if owner s p = Some pr then None else owner s p)"
proof -
  have u: "ucm_inv s" using inv by (simp add: sys_ok_def)
  have wf: "pl_wf s" using u by (simp add: ucm_inv_def)
  let ?ps = "concat (map (\<lambda>(f, i). page_seq s (bin f pr i)) all_bins)"
  have own: "x \<in> set ?ps \<longleftrightarrow> owner s x = Some pr" for x
  proof
    show "owner s x = Some pr" if "x \<in> set ?ps" using that by (auto simp: pl_wf_mem [OF wf, symmetric])
    assume "owner s x = Some pr"
    then obtain f i where fi: "pg_list s x = Some (bin f pr i)" by (auto simp: owner_eq)
    have "i < NUM_HOTNESS_LEVELS" "x \<in> set (page_seq s (bin f pr i))" by (rule ucm_inv_bin [OF u fi], simp)+
    then show "x \<in> set ?ps" by (cases f) (auto simp: all_bins_def)
  qed
  have "\<forall>(f, i) \<in> set all_bins. \<forall>p \<in> set (page_seq s (bin f pr i)). \<not> in_free_ring (pages s p)"
    using rm own by (auto simp: removable_def)
  then obtain s1 n where s1: "free_mem_lists pr (map (fastmem_lists pr) [0..<NUM_HOTNESS_LEVELS] @
      map (slowmem_lists pr) [0..<NUM_HOTNESS_LEVELS]) 0 s = Inr (n, s1)" "handed pr P ?ps s s1"
    using free_mem_lists_ok [OF inv P all_bins_facts(1), of 0] rm
    unfolding all_bins_facts(2,3) removable_def by blast
  obtain Q where Q: "procs s1 pr = Some Q" "hot_ring (mm Q) = hot_ring (mm P)" "cold_ring (mm Q) = cold_ring (mm P)"
    using s1(2) by (auto simp: handed_def)
  have k1: "sys_ok s1" "kept pr s s1" "owner s1 = owner s" using s1(2) by (simp_all add: handed_def kept_def)
  have "rings_short Q" using rm Q by (simp add: removable_def rings_short_def)
  with k1(1) Q(1) obtain d t where t: "drain_run cfg pr Q s1 d t" "kept pr s1 t" "mm_drain_async_requests cfg pr s1 = Inr t"
    by (rule drain_sys_ok)
  have "x \<in> set (ring_list (free_page_ring (mm Q))) \<longleftrightarrow> owner s x = Some pr" for x
    using k1 Q(1) s1(2) own [of x] by (auto simp: sys_ok_def proc_ok_def free_reqs_ok_def handed_def)
  then have "owner t x = (if owner s x = Some pr then None else owner s x)" for x
    using drain_owners(1) [OF k1(1) Q(1) t(1), of x] k1(3) by simp
  moreover have "kept pr s t" using k1(2) t(2) by (rule kept_trans) (simp add: k1(3))
  ultimately show ?thesis using s1(1) t(3) by (auto simp: process_mem_destroy_def)
qed

lemma unregister_ok:
  assumes inv: "sys_inv s" and P: "procs s pr = Some P"
  defines "P' \<equiv> mm_update (\<lambda>m. m\<lparr>current_fastmem := 0, current_slowmem := 0\<rparr>) P"
  shows "\<exists>t. remove_process cfg pr s = Inr t \<and> sys_ok t \<and> held t = {} \<and> owner t = owner s \<and>
    pages t = pages s \<and> page_seq t = page_seq s \<and> procs t = (procs s)(pr \<mapsto> P') \<and> same_data s t \<and> listed t = listed s \<and>
    pr_wf t \<and> set (proc_seq t) = set (proc_seq s) - {pr} \<and> proc_map t = tab_del pr (proc_map s)"
proof -
  have ok: "sys_ok s" and r: "registry_ok s" and h: "held s = {}" using inv by (simp_all add: sys_inv_def)
  have w: "pr_wf s" and m: "pr \<in> set (proc_seq s)" "pr \<in> tab_elems (proc_map s)"
    using r P by (auto simp: registry_ok_def)
  obtain xs ys where xy: "proc_seq s = xs @ pr # ys" using m(1) by (auto dest: split_list)
  let ?u = "s\<lparr>proc_map := tab_del pr (proc_map s)\<rparr>"
  have d: "HASH_DELETE pr (proc_map s) = Inr (tab_del pr (proc_map s))"
    using m(2) by (simp add: HASH_DELETE_def tab_del_def)
  have "pr_idle ?u" using w h by (simp add: pr_idle_def pr_wf_def is_proclist_def proc_seq_def)
  moreover have "proc_seq ?u = xs @ pr # ys" using xy by (simp add: proc_seq_def)
  ultimately obtain v where v: "process_list_remove cfg pr ?u = Inr v" "pr_idle v" "proc_link_step ?u v"
    "proc_seq v = xs @ ys"
    by (rule process_list_remove_ok)
  note f = proc_link_frame [OF v(3)]
  have hv: "held v = {}" "procs v pr = Some P" using v(2) f(1) P by (simp_all add: pr_idle_def)
  let ?t = "v\<lparr>procs := (procs v)(pr \<mapsto> P')\<rparr>"
  have "v\<lparr>held := {}\<rparr> = v" by (simp flip: hv(1))
  then have run: "remove_process cfg pr s = Inr ?t"
    using d v(1) hv by (simp add: remove_process_def lock_process_def unlock_process_def P'_def)
  have "sys_ok ?u" using ok by (rule sys_ok_cong [THEN iffD2, rotated -1]) simp_all
  then have "sys_ok v" using f(7) by simp
  then have "sys_ok ?t"
    using hv(2) by (rule sys_ok_proc_same) (simp add: P'_def proc_same_def cur_cool_def)
  moreover have "distinct (xs @ pr # ys)" using w xy by (simp add: pr_wf_def is_proclist_def)
  then have "set (proc_seq ?t) = set (proc_seq s) - {pr}" "pr_wf ?t"
    using xy v(2,4) by (auto simp: proc_seq_def pr_idle_def pr_wf_def is_proclist_def)
  moreover have "same_data s ?t"
    using f(5,6) f(8) [of 0 True] f(8) [of 0 False] by (simp add: same_data_def page_data_def devdax_offset_to_addr_def)
  moreover have "listed ?t = listed s" using f(10) by (simp add: listed_def)
  moreover have "owner ?t = owner s" "page_seq ?t = page_seq s"
    using f(4,9) page_parts_cong(1) [of ?t v] page_parts_cong(1) [of ?u s] by (simp_all add: owner_def fun_eq_iff)
  ultimately show ?thesis
    using run f hv(1) by (intro exI [of _ ?t]) simp
qed

lemma remove_process_ok:
  assumes inv: "sys_inv s" and P: "procs s pr = Some P" and rm: "removable s pr P"
  shows "\<exists>s'. ucm_remove_process cfg pr s = Inr s' \<and> sys_inv s' \<and> same_data s s' \<and> listed s' = listed s \<and>
    owner s' = (\<lambda>p. if owner s p = Some pr then None else owner s p) \<and> procs s' pr = None \<and>
    dom (procs s') = dom (procs s) - {pr}"
proof -
  let ?P = "mm_update (\<lambda>m. m\<lparr>current_fastmem := 0, current_slowmem := 0\<rparr>) P"
  obtain t where t: "remove_process cfg pr s = Inr t" "sys_ok t" "held t = {}" "owner t = owner s"
    "pages t = pages s" "page_seq t = page_seq s" "procs t = (procs s)(pr \<mapsto> ?P)" "same_data s t" "pr_wf t"
    "set (proc_seq t) = set (proc_seq s) - {pr}" "proc_map t = tab_del pr (proc_map s)" "listed t = listed s"
    using unregister_ok [OF inv P] by blast
  have "procs t pr = Some ?P" "removable t pr ?P"
    using rm t(4-7) by (simp_all add: removable_def pages_on_eq free_room_def rings_short_def)
  with t(2) obtain u where u: "process_mem_destroy cfg pr t = Inr u" "kept pr t u"
    "owner u = (\<lambda>p. if owner t p = Some pr then None else owner t p)"
    using destroy_ok by blast
  let ?s = "u\<lparr>procs := (procs u)(pr := None)\<rparr>"
  obtain Q where Q: "procs u = (procs s)(pr \<mapsto> Q)" using u(2) t(7) by (auto simp: kept_def)
  have run: "ucm_remove_process cfg pr s = Inr ?s"
    using t(1) u(1) by (simp add: ucm_remove_process_def hemem_process_destroy_def)
  have ok: "sys_ok ?s" by (rule sys_ok_del_proc) (use u in \<open>auto simp: kept_def\<close>)
  have rg: "same_registry t u" using u(2) by (simp add: kept_def)
  have tk: "tab_ok (pid_key s) (proc_map s)" "tab_elems (proc_map s) = dom (procs s)" "set (proc_seq s) = dom (procs s)"
    using inv by (simp_all add: sys_inv_def registry_ok_def)
  have "tab_ok (pid_key ?s) (tab_del pr (proc_map s))"
    by (rule tab_ok_upd [OF tk(1)]) (simp add: pid_key_def Q)
  moreover have "pr_wf ?s" "proc_seq ?s = proc_seq t"
    using same_registry_seq [OF rg] t(9) by (simp_all add: pr_wf_def is_proclist_def proc_seq_def)
  ultimately have "registry_ok ?s"
    using tk t(10,11) rg Q by (auto simp: registry_ok_def tab_del_ok(2) same_registry_def)
  moreover have "page_data ?s = page_data u" by (simp add: page_data_def devdax_offset_to_addr_def fun_eq_iff)
  then have "same_data s ?s" using t(4,8) u(2) by (simp add: same_data_def kept_def)
  moreover have "owner ?s = owner u" by (simp add: owner_def fun_eq_iff)
  moreover have "held u = {}" "listed ?s = listed s" using u(2) t(3,12) by (simp_all add: kept_def)
  ultimately show ?thesis
    using run ok u(3) t(4) Q by (intro exI [of _ ?s]) (auto simp: sys_inv_def)
qed

end
