(* ===== verification/Sys_Init.thy ===== *)
theory Sys_Init
  imports Sys_Process
begin

text \<open>
  The state the process image starts with (static storage is zero) and the proof that
  \<open>mm_init\<close> and \<open>proc_mgr_init\<close> lead from it to a state that satisfies the invariant
  of the whole manager: every page frame of a tier is on its free list.
\<close>

section \<open>Static storage\<close>

definition boot_stats :: ucm_stats where
  "boot_stats = \<lparr>st_mem_allocated = 0, st_pages_allocated = 0, st_pages_freed = 0, st_memsets = 0,
     st_wp_faults_handled = 0, st_missing_faults_handled = 0, st_migration_waits = 0,
     st_migrations_up = 0, st_migrations_down = 0, st_bytes_migrated = 0\<rparr>"

definition boot_pebs_stats :: pebs_stats where
  "boot_pebs_stats = \<lparr>total_samples_cnt = 0, non_hemem_proc_samples_cnt = 0,
     non_hemem_page_samples_cnt = 0, valid_samples_cnt = 0, cxl_samples_cnt = 0,
     zero_pages_cnt = 0, throttle_cnt = 0, unthrottle_cnt = 0, lost_samples = 0\<rparr>"

text \<open>\<open>mem\<close> is what the tiers hold before the manager maps them.\<close>

definition boot_state :: "(u64 \<Rightarrow> 8 word) \<Rightarrow> ucm_state" where
  "boot_state mem =
     \<lparr>pg_next = (\<lambda>_. NULL), pg_prev = (\<lambda>_. NULL), pg_list = (\<lambda>_. None),
      plists = (\<lambda>_. empty_page_list),
      pr_next = (\<lambda>_. NULL), pr_prev = (\<lambda>_. NULL), pr_list = (\<lambda>_. False), held = {},
      target_miss_ratio = (\<lambda>_. Fin 0),
      processes_list = \<lparr>pl_first = NULL, pl_last = NULL, pl_numentries = 0\<rparr>,
      pages = (\<lambda>_. hemem_page_alloc), procs = Map.empty, pa_to_proc_map = [], proc_map = [],
      stats = boot_stats,
      cools_started = (\<lambda>_. 0), cools_completed = (\<lambda>_. 0), free_ring_requests = 0,
      hot_ring_requests = 0, cold_ring_requests = 0, free_ring_requests_handled = 0,
      hot_ring_requests_handled = 0, cold_ring_requests_handled = 0, scan_epoch = 0,
      cxl_unknown_proc_sample_cnt = 0, g_pebs_stats = boot_pebs_stats,
      physmem_mode = USE_DAX, fastmem_sz = 0, slowmem_sz = 0, fastmem_ptr = 0, slowmem_ptr = 0,
      ucm_mem = mem\<rparr>"

section \<open>Filling a free list\<close>

definition init_page :: "bool \<Rightarrow> nat \<Rightarrow> hemem_page" where
  "init_page fast i = hemem_page_alloc\<lparr>pt := HUGEP, devdax_offset := of_nat i * HUGEPAGE_SIZE, in_dram := fast\<rparr>"

definition tier_filled :: "list_id \<Rightarrow> bool \<Rightarrow> (nat \<Rightarrow> ptr) \<Rightarrow> nat list \<Rightarrow> ucm_state \<Rightarrow> ucm_state \<Rightarrow> bool" where
  "tier_filled q fast alloc is s s' \<longleftrightarrow> pl_wf s' \<and> page_step s s' \<and>
     page_seq s' = (page_seq s)(q := rev (map alloc is) @ page_seq s q) \<and>
     (\<forall>i \<in> set is. pages s' (alloc i) = init_page fast i) \<and>
     (\<forall>p. p \<notin> alloc ` set is \<longrightarrow> pages s' p = pages s p \<and> pg_list s' p = pg_list s p)"

lemma calloc_loose:
  assumes "pl_wf s" and "pg_list s p = None"
  shows "calloc_page p s = upd_page p (\<lambda>_. hemem_page_alloc) s"
  using assms by (simp add: calloc_page_def pl_wf_def fun_upd_idem)

lemma upd_page_seq [simp]: "page_seq (upd_page p f s) = page_seq s" "pl_wf (upd_page p f s) = pl_wf s"
  by (rule page_parts_cong; simp add: upd_page_def)+

lemma init_tier_ok:
  assumes "pl_wf s" and "distinct (map alloc is)" and "\<And>i. i \<in> set is \<Longrightarrow> alloc i \<noteq> NULL \<and> pg_list s (alloc i) = None"
  shows "\<exists>s'. init_tier q fast alloc is s = Inr s' \<and> tier_filled q fast alloc is s s'"
  using assms
proof (induction "is" arbitrary: s)
  case Nil
  then show ?case by (simp add: tier_filled_def)
next
  case (Cons i js)
  let ?p = "alloc i" and ?t = "upd_page (alloc i) (\<lambda>_. init_page fast i) s"
  have p: "?p \<noteq> NULL" "pg_list s ?p = None" using Cons.prems(3) by simp_all
  have "pl_wf ?t" "pg_list ?t ?p = None" using Cons.prems(1) p by simp_all
  with p(1) obtain u where u: "enqueue_page q ?p ?t = Inr u" "pl_wf u" "page_step ?t u"
    "page_seq u = (page_seq ?t)(q := ?p # page_seq ?t q)" "pg_list u = (pg_list ?t)(?p := Some q)"
    "pages u = pages ?t"
    by (metis enqueue_step)
  have "\<And>j. j \<in> set js \<Longrightarrow> alloc j \<noteq> alloc i" using Cons.prems(2) by (auto simp: image_iff)
  then have "\<And>j. j \<in> set js \<Longrightarrow> alloc j \<noteq> NULL \<and> pg_list u (alloc j) = None"
    using Cons.prems(3) u(5) by simp
  with Cons.prems(2) u(2) obtain s' where s': "init_tier q fast alloc js u = Inr s'" "tier_filled q fast alloc js u s'"
    using Cons.IH [of u] by auto
  have "init_tier q fast alloc (i # js) s = Inr s'"
    using p u(1) s'(1) Cons.prems(1)
    by (simp add: calloc_loose get_default_page_size_def pagesize_to_pt_def init_page_def upd_page_def Let_def
        HUGEPAGE_SIZE_def BASEPAGE_SIZE_def)
  moreover have "tier_filled q fast alloc (i # js) s s'"
  proof -
    have "?p \<notin> alloc ` set js" using Cons.prems(2) by auto
    then show ?thesis
      using s'(2) u(4-6) page_step_trans [OF page_step_trans [OF upd_page_step u(3)]]
      by (auto simp: tier_filled_def upd_page_def)
  qed
  ultimately show ?case by blast
qed

section \<open>The invariant after start-up\<close>

text \<open>
  What the start-up relies on: the two tiers are mapped at huge-page boundaries, do not
  overlap and hold at least one page each, and the allocations of the page descriptors
  succeed and return different blocks.
\<close>

definition tier_count :: "u64 \<Rightarrow> nat" where
  "tier_count sz = unat (sz div HUGEPAGE_SIZE)"

definition descriptors :: "(nat \<Rightarrow> ptr) \<Rightarrow> u64 \<Rightarrow> ptr list" where
  "descriptors alloc sz = map alloc [0..<tier_count sz]"

definition boot_ok :: "u64 \<Rightarrow> u64 \<Rightarrow> u64 \<Rightarrow> u64 \<Rightarrow> (nat \<Rightarrow> ptr) \<Rightarrow> (nat \<Rightarrow> ptr) \<Rightarrow> bool" where
  "boot_ok fast_size slow_size fast slow af as \<longleftrightarrow>
     fast \<noteq> 0 \<and> slow \<noteq> 0 \<and> fast mod HUGEPAGE_SIZE = 0 \<and> slow mod HUGEPAGE_SIZE = 0 \<and>
     unat fast + unat fast_size < 2 ^ 64 \<and> unat slow + unat slow_size < 2 ^ 64 \<and>
     (unat fast + unat fast_size \<le> unat slow \<or> unat slow + unat slow_size \<le> unat fast) \<and>
     HUGEPAGE_SIZE \<le> fast_size \<and> HUGEPAGE_SIZE \<le> slow_size \<and>
     distinct (descriptors af fast_size @ descriptors as slow_size) \<and>
     NULL \<notin> set (descriptors af fast_size @ descriptors as slow_size)"

lemma tier_nonempty: "HUGEPAGE_SIZE \<le> sz \<Longrightarrow> sz div HUGEPAGE_SIZE \<noteq> (0 :: u64)"
proof -
  assume "HUGEPAGE_SIZE \<le> sz"
  then have "2 ^ 21 \<le> unat sz" by (simp add: HUGEPAGE_SIZE_def word_le_nat_alt)
  then have "unat (sz div HUGEPAGE_SIZE) \<noteq> 0" by (simp add: HUGEPAGE_SIZE_def unat_div)
  then show ?thesis by auto
qed

lemma tier_offset:
  assumes "i < tier_count sz"
  shows "unat (of_nat i * HUGEPAGE_SIZE :: u64) = i * 2 ^ 21" and "i * 2 ^ 21 + 2 ^ 21 \<le> unat sz"
proof -
  have "i < unat sz div 2 ^ 21"
    using assms by (simp add: tier_count_def HUGEPAGE_SIZE_def unat_div)
  then have "Suc i * 2 ^ 21 \<le> unat sz div 2 ^ 21 * 2 ^ 21" by (intro mult_le_mono1 Suc_leI)
  also have "\<dots> \<le> unat sz" by (rule div_times_less_eq_dividend)
  finally show b: "i * 2 ^ 21 + 2 ^ 21 \<le> unat sz" by simp
  have "unat sz < 2 ^ LENGTH(64)" by (rule unsigned_less)
  then have "i * 2 ^ 21 < 2 ^ 64" using b by simp
  moreover have "of_nat i * HUGEPAGE_SIZE = (of_nat (i * 2 ^ 21) :: u64)" by (simp add: HUGEPAGE_SIZE_def)
  ultimately show "unat (of_nat i * HUGEPAGE_SIZE :: u64) = i * 2 ^ 21"
    by (simp only: unat_of_nat) simp
qed

lemma boot_lists: "pl_wf (boot_state mem)" "page_seq (boot_state mem) = (\<lambda>_. [])"
proof -
  have "is_plist (boot_state mem) q []" for q
    by (simp add: is_plist_def boot_state_def empty_page_list_def)
  moreover have "pg_next (boot_state mem) p = NULL \<and> pg_prev (boot_state mem) p = NULL" for p
    by (simp add: boot_state_def)
  ultimately show "pl_wf (boot_state mem)" "page_seq (boot_state mem) = (\<lambda>_. [])"
    by (rule pl_wfI; blast)+
qed

text \<open>The state after start-up: the two free lists, last page first, and nothing else.\<close>

definition booted :: "(u64 \<Rightarrow> 8 word) \<Rightarrow> u64 \<Rightarrow> u64 \<Rightarrow> u64 \<Rightarrow> u64 \<Rightarrow> (nat \<Rightarrow> ptr) \<Rightarrow> (nat \<Rightarrow> ptr) \<Rightarrow> ucm_state \<Rightarrow> bool" where
  "booted mem fast_size slow_size fast slow af as s \<longleftrightarrow>
     pl_wf s \<and> page_seq s = (\<lambda>_. [])(Fastmem_Free := rev (descriptors af fast_size),
       Slowmem_Free := rev (descriptors as slow_size)) \<and>
     (\<forall>i < tier_count fast_size. pages s (af i) = init_page True i) \<and>
     (\<forall>i < tier_count slow_size. pages s (as i) = init_page False i) \<and>
     (\<forall>p. p \<notin> set (descriptors af fast_size @ descriptors as slow_size) \<longrightarrow> pages s p = hemem_page_alloc) \<and>
     procs s = Map.empty \<and> pa_to_proc_map s = [] \<and> proc_map s = [] \<and> held s = {} \<and> ucm_mem s = mem \<and>
     pr_next s = (\<lambda>_. NULL) \<and> pr_prev s = (\<lambda>_. NULL) \<and> pr_list s = (\<lambda>_. False) \<and>
     processes_list s = \<lparr>pl_first = NULL, pl_last = NULL, pl_numentries = 0\<rparr> \<and>
     fastmem_sz s = fast_size \<and> slowmem_sz s = slow_size \<and> fastmem_ptr s = fast \<and> slowmem_ptr s = slow"

lemma mm_init_booted:
  assumes b: "boot_ok fast_size slow_size fast slow af as"
  shows "\<exists>s. mm_init mode fast_size slow_size fast slow af as (boot_state mem) = Inr s \<and>
    booted mem fast_size slow_size fast slow af as (proc_mgr_init s)"
proof -
  let ?b = "(boot_state mem)\<lparr>physmem_mode := mode, fastmem_sz := fast_size, slowmem_sz := slow_size,
    fastmem_ptr := fast, slowmem_ptr := slow\<rparr>" and ?f = "[0..<tier_count fast_size]" and ?g = "[0..<tier_count slow_size]"
  have m: "mm_async_init ?b = ?b" by (simp add: mm_async_init_def boot_state_def)
  have c: "fast_size div HUGEPAGE_SIZE \<noteq> 0" "slow_size div HUGEPAGE_SIZE \<noteq> 0"
    using b by (simp_all add: boot_ok_def tier_nonempty)
  have b0: "pl_wf ?b" "page_seq ?b = (\<lambda>_. [])" using page_parts_cong [of ?b "boot_state mem"] boot_lists by simp_all
  have "distinct (map af ?f @ map as ?g)" "NULL \<notin> set (map af ?f @ map as ?g)"
    using b unfolding boot_ok_def descriptors_def by blast+
  then have d: "distinct (map af ?f)" "distinct (map as ?g)" "\<And>i. i \<in> set ?f \<Longrightarrow> af i \<noteq> NULL"
    "\<And>i. i \<in> set ?g \<Longrightarrow> as i \<noteq> NULL \<and> as i \<notin> af ` set ?f" "\<And>i. i \<in> set ?f \<Longrightarrow> af i \<notin> as ` set ?g"
    by (simp_all add: disjoint_iff) (metis atLeastLessThan_iff imageI zero_le)+
  obtain t where t: "init_tier Fastmem_Free True af ?f ?b = Inr t" "tier_filled Fastmem_Free True af ?f ?b t"
    using init_tier_ok [OF b0(1) d(1), of Fastmem_Free True] d(3) by (auto simp: boot_state_def)
  have "pl_wf t" "\<And>i. i \<in> set ?g \<Longrightarrow> as i \<noteq> NULL \<and> pg_list t (as i) = None"
    using t(2) d(4) by (auto simp: tier_filled_def boot_state_def)
  then obtain u where u: "init_tier Slowmem_Free False as ?g t = Inr u" "tier_filled Slowmem_Free False as ?g t u"
    using init_tier_ok [OF _ d(2), of t Slowmem_Free False] by blast
  have "page_step ?b t" "page_step t u" using t(2) u(2) by (simp_all add: tier_filled_def)
  then have st: "page_step ?b u" by (rule page_step_trans)
  have sz: "slowmem_sz t = slow_size" using page_step_frame(10) [OF \<open>page_step ?b t\<close>] by simp
  have "mm_init mode fast_size slow_size fast slow af as (boot_state mem) = Inr (pa_proc_map_init u)"
    using b m c t(1) u(1) sz
    by (simp add: mm_init_def physmem_init_def init_free_lists_def get_fastmem_size_def get_slowmem_size_def
        get_default_page_size_def tier_count_def boot_ok_def)
  moreover have "booted mem fast_size slow_size fast slow af as (proc_mgr_init (pa_proc_map_init u))"
  proof -
    let ?u = "proc_mgr_init (pa_proc_map_init u)"
    have "page_seq ?u = page_seq u" "pl_wf ?u = pl_wf u"
      by (rule page_parts_cong; simp add: proc_mgr_init_def pa_proc_map_init_def)+
    moreover have "page_seq u = (\<lambda>_. [])(Fastmem_Free := rev (map af ?f), Slowmem_Free := rev (map as ?g))" "pl_wf u"
      using t(2) u(2) b0(2) by (simp_all add: tier_filled_def)
    moreover have "\<forall>i \<in> set ?f. pages u (af i) = init_page True i" "\<forall>i \<in> set ?g. pages u (as i) = init_page False i"
      using t(2) u(2) d(5) by (simp_all add: tier_filled_def)
    moreover have "\<forall>p. p \<notin> set (map af ?f @ map as ?g) \<longrightarrow> pages u p = hemem_page_alloc"
      using t(2) u(2) by (simp add: tier_filled_def boot_state_def)
    ultimately show ?thesis
      using page_step_frame [OF st]
      by (simp add: booted_def descriptors_def proc_mgr_init_def pa_proc_map_init_def) (simp add: boot_state_def)
  qed
  ultimately show ?thesis by blast
qed

lemma booted_page:
  assumes b: "booted mem fast_size slow_size fast slow af as s" and p: "pg_list s p = Some q"
  obtains f i where "i < tier_count (tier_size s f)" "p = (if f then af i else as i)" "pages s p = init_page f i"
    "q = tier_free f"
proof -
  have "p \<in> set (page_seq s q)" using b p by (simp add: booted_def pl_wf_mem)
  then have "q = Fastmem_Free \<and> p \<in> set (descriptors af fast_size) \<or> q = Slowmem_Free \<and> p \<in> set (descriptors as slow_size)"
    using b by (simp add: booted_def split: if_splits)
  then consider i where "q = Fastmem_Free" "p = af i" "i < tier_count fast_size"
    | i where "q = Slowmem_Free" "p = as i" "i < tier_count slow_size"
    by (auto simp: descriptors_def)
  then show thesis
  proof cases
    case (1 i)
    then show ?thesis using b by (intro that [of i True]) (simp_all add: booted_def tier_size_def tier_free_def)
  next
    case (2 i)
    then show ?thesis using b by (intro that [of i False]) (simp_all add: booted_def tier_size_def tier_free_def)
  qed
qed

lemma booted_frames:
  assumes b: "booted mem fast_size slow_size fast slow af as s"
  shows "frames_ok s"
  unfolding frames_ok_def
proof (intro conjI allI impI)
  fix p assume "pg_list s p \<noteq> None"
  then obtain q where "pg_list s p = Some q" by blast
  with b obtain f i where i: "i < tier_count (tier_size s f)" "pages s p = init_page f i" by (rule booted_page)
  show "frame_ok s (pages s p)"
    using tier_offset(2) [OF i(1)] by (simp add: frame_ok_def init_page_def i(2) tier_offset(1) [OF i(1)])
next
  fix p r
  assume "pg_list s p \<noteq> None" "pg_list s r \<noteq> None" and t: "in_dram (pages s p) = in_dram (pages s r)"
    and o: "devdax_offset (pages s p) = devdax_offset (pages s r)"
  then obtain q q' where q: "pg_list s p = Some q" "pg_list s r = Some q'" by blast
  obtain f i where i: "i < tier_count (tier_size s f)" "p = (if f then af i else as i)" "pages s p = init_page f i"
    using b q(1) by (rule booted_page)
  obtain g j where j: "j < tier_count (tier_size s g)" "r = (if g then af j else as j)" "pages s r = init_page g j"
    using b q(2) by (rule booted_page)
  have g: "f = g" using t i(3) j(3) by (simp add: init_page_def)
  have "of_nat i * HUGEPAGE_SIZE = (of_nat j * HUGEPAGE_SIZE :: u64)"
    using o unfolding i(3) j(3) init_page_def by simp
  then have "i * 2 ^ 21 = j * 2 ^ 21" by (metis i(1) j(1) tier_offset(1))
  then have "i = j" by simp
  then show "p = r" using g i(2) j(2) by simp
qed

lemma booted_inv:
  assumes b: "booted mem fast_size slow_size fast slow af as s" and k: "boot_ok fast_size slow_size fast slow af as"
  shows "sys_inv s"
proof -
  have ow: "owner s p = None" for p
  proof (cases "pg_list s p")
    case (Some q)
    with b obtain f where "q = tier_free f" by (rule booted_page)
    with Some show ?thesis by (simp add: owner_def tier_free_def)
  qed (simp add: owner_def)
  have pg: "\<not> remap_lock (pages s p) \<and> \<not> ppe_used (pa_proc_entry (pages s p)) \<and> \<not> in_free_ring (pages s p)" for p
    using b by (cases "p \<in> set (descriptors af fast_size @ descriptors as slow_size)")
      (auto simp: booted_def descriptors_def init_page_def hemem_page_alloc_def zero_entry_def)
  have "list_ok s q (pages s p)" if "pg_list s p = Some q" for p q
    using b that by (rule booted_page) (simp add: list_ok_free init_page_def hemem_page_alloc_def free_page_def COLD_def)
  then have "ucm_inv s" using b by (simp add: ucm_inv_def pages_ok_def bookmarks_ok_def booted_def)
  moreover have "pa_map_ok s"
    using b pg ow by (simp add: pa_map_ok_def slow_mapped_def mapped_def booted_def tab_ok_def)
  moreover have "pages_idle s" using pg ow by (simp add: pages_idle_def)
  moreover have "tiers_ok s" using b k unfolding tiers_ok_def boot_ok_def booted_def by metis
  moreover have "is_proclist s []" using b by (simp add: is_proclist_def booted_def)
  then have "pr_wf s" "proc_seq s = []"
    using b by - (rule pr_wfI; simp add: booted_def)+
  then have "registry_ok s" using b by (simp add: registry_ok_def booted_def tab_ok_def)
  ultimately show ?thesis
    using booted_frames [OF b] pg b by (simp add: sys_inv_def sys_ok_def booted_def)
qed

lemma mm_init_ok:
  assumes "boot_ok fast_size slow_size fast slow af as"
  shows "\<exists>s. mm_init mode fast_size slow_size fast slow af as (boot_state mem) = Inr s \<and> sys_inv (proc_mgr_init s) \<and>
    booted mem fast_size slow_size fast slow af as (proc_mgr_init s)"
  using mm_init_booted [OF assms] booted_inv [OF _ assms] by blast

end
