(* ===== verification/Ucm_Correct.thy ===== *)
theory Ucm_Correct
  imports Sys_Init
begin

text \<open>
  The entry points of \<open>src/ucm/ucm.c\<close> and of the QoS policy as a whole, with the fuel
  and the locks the code gives them: allocation and deallocation of a range of addresses,
  and one process's share of the migration of an epoch.
\<close>

section \<open>Ranges of addresses\<close>

lemma range_fuel_pages:
  assumes "range_ok b n"
  shows "n < range_fuel (of_nat n * HUGEPAGE_SIZE)"
proof -
  have lt: "n * 2 ^ 21 < 2 ^ 64" using assms by (simp add: range_ok_def)
  have "of_nat n * HUGEPAGE_SIZE = (of_nat (n * 2 ^ 21) :: u64)" by (simp add: HUGEPAGE_SIZE_def)
  then have "unat (of_nat n * HUGEPAGE_SIZE :: u64) = n * 2 ^ 21"
    using lt by (simp only: unat_of_nat) simp
  then show ?thesis by (simp add: range_fuel_def unat_div BASEPAGE_SIZE_def)
qed

lemma range_fuel_cover:
  assumes c: "range_cover b n e"
  shows "n < range_fuel (e - b)"
proof (cases n)
  case (Suc m)
  have lt: "unat b + m * 2 ^ 21 < unat e" using c Suc by (simp add: range_cover_def)
  then have "unat (e - b) = unat e - unat b" by (intro unat_sub) (simp add: word_le_nat_alt)
  then have "m * 512 * 4096 \<le> unat (e - b)" using lt by simp
  then have "m * 512 \<le> unat (e - b) div 4096" by (simp add: less_eq_div_iff_mult_less_eq)
  then show ?thesis using Suc by (simp add: range_fuel_def unat_div BASEPAGE_SIZE_def)
qed (simp add: range_fuel_def)

text \<open>A process can be given \<open>n\<close> pages from address \<open>b\<close> on.\<close>

definition allocatable :: "ucm_state \<Rightarrow> hemem_process \<Rightarrow> u64 \<Rightarrow> nat \<Rightarrow> bool" where
  "allocatable s P b n \<longleftrightarrow> range_ok b n \<and> (\<forall>i < n. lookup s P (addr_at b i) = NULL) \<and> free_clocks_ok s P \<and>
     n \<le> length (page_seq s Slowmem_Free)"

definition grown :: "ptr \<Rightarrow> ucm_state \<Rightarrow> ucm_state \<Rightarrow> bool" where
  "grown pr s s' \<longleftrightarrow> (\<forall>x. owner s' x = owner s x \<or> owner s x = None \<and> owner s' x = Some pr)"

lemma extended_grown:
  assumes "extended pr P N A s s'"
  shows "grown pr s s'"
  unfolding grown_def using extendedD(1,2) [OF assms] by metis

lemma allocate_memory_ok:
  assumes inv: "sys_ok s" and P: "procs s pr = Some P" and h: "pr \<notin> held s" and a: "allocatable s P b n"
    and spec: "alloc_spec alloc"
  shows "\<exists>rs s' N. ucm_allocate_memory alloc pr b (of_nat n * HUGEPAGE_SIZE) s = Inr (int n, rs, s') \<and>
    kept pr s s' \<and> extended pr P N (addr_at b ` {..<n}) s s' \<and> procs s' pr = Some N \<and> length rs = n \<and>
    (\<forall>i < n. mapped_resp s' N (addr_at b i) (rs ! i))"
proof -
  have "n < range_fuel (of_nat n * HUGEPAGE_SIZE)" using a by (intro range_fuel_pages [of b]) (simp add: allocatable_def)
  then obtain rs s' N where "ucm_allocate_loop alloc (range_fuel (of_nat n * HUGEPAGE_SIZE)) pr b (addr_at b n) [] s
      = Inr (int n, rs, s')" "kept pr s s'" "extended pr P N (addr_at b ` {..<n}) s s'" "procs s' = (procs s)(pr \<mapsto> N)" "length rs = n"
    "\<forall>i < n. mapped_resp s' N (addr_at b i) (rs ! i)"
    using allocate_range [OF spec inv P h, of b n "range_fuel (of_nat n * HUGEPAGE_SIZE)" "[]"] a
    unfolding allocatable_def by fastforce
  then show ?thesis by (simp add: ucm_allocate_memory_def flip: addr_at_def)
qed

definition page_base :: "u64 \<Rightarrow> u64" where
  "page_base a = a AND NOT (HUGEPAGE_SIZE - 1)"

lemma deallocate_memory_ok:
  assumes inv: "sys_ok s" and P: "procs s pr = Some P" and c: "range_cover (page_base a) n (a + len)"
    and room: "length (range_pages s P (page_base a) n) \<le> free_room P"
  shows "\<exists>s' N. ucm_deallocate_memory pr a len s = Inr (of_nat (length (range_pages s P (page_base a) n)), s') \<and>
    kept pr s s' \<and> owner s' = owner s \<and> procs s' pr = Some N \<and>
    (\<forall>u. lookup s' N u = (if u \<in> addr_at (page_base a) ` {..<n} then NULL else lookup s P u)) \<and>
    ring_list (free_page_ring (mm N)) = ring_list (free_page_ring (mm P)) @ range_pages s P (page_base a) n \<and> same_marks P N"
  using deallocate_range [OF inv P room c range_fuel_cover [OF c], of 0]
  by (auto simp: ucm_deallocate_memory_def page_base_def Let_def)

section \<open>One process's migration\<close>

definition quiet :: "ucm_state \<Rightarrow> ptr \<Rightarrow> bool" where
  "quiet s pr \<longleftrightarrow> (\<forall>p. owner s p = Some pr \<longrightarrow> \<not> in_free_ring (pages s p))"

lemma loop_kept_kept:
  assumes "loop_kept up pr P k s s'" and "procs s pr = Some P"
  shows "kept pr s s'" and "owner s' = owner s" and "quiet s pr \<Longrightarrow> quiet s' pr"
  using assms by (auto simp: loop_kept_def kept_def quiet_def)

lemma migrate_bytes_ok:
  assumes e: "env_good env" and inv: "sys_ok s" and P: "procs s pr = Some P" and q: "quiet s pr"
  shows "\<exists>n s'. process_migrate_down_bytes cfg env qos_find_demotion_candidate pr bytes s = Inr (n, s') \<and>
      loop_kept False pr P n s s' \<and> loop_stops False pr bytes n s'"
    and "CONFIG_PEBS cfg \<Longrightarrow> \<exists>n s'. process_migrate_up_bytes cfg env qos_find_promotion_candidate pr bytes s = Inr (n, s') \<and>
      loop_kept True pr P n s s' \<and> loop_stops True pr bytes n s'"
proof -
  have "qos_find_demotion_candidate = find_coldest_fastmem_page" "qos_find_promotion_candidate = find_hottest_slowmem_page"
    by (simp_all add: fun_eq_iff qos_find_demotion_candidate_def qos_find_promotion_candidate_def)
  moreover have "fastmem_lists pr = bin True pr" "slowmem_lists pr = bin False pr"
    by (simp_all add: fun_eq_iff)
  moreover note loop = migrate_loop_ok [OF e _ inv P, where fuel = "Suc n" and m = 0 for n]
  ultimately show "\<exists>n s'. process_migrate_down_bytes cfg env qos_find_demotion_candidate pr bytes s = Inr (n, s') \<and>
      loop_kept False pr P n s s' \<and> loop_stops False pr bytes n s'"
    "CONFIG_PEBS cfg \<Longrightarrow> \<exists>n s'. process_migrate_up_bytes cfg env qos_find_promotion_candidate pr bytes s = Inr (n, s') \<and>
      loop_kept True pr P n s s' \<and> loop_stops True pr bytes n s'"
    using loop [of False cfg _ bytes] loop [of True cfg _ bytes] q
    by (simp_all add: process_migrate_down_bytes_def process_migrate_up_bytes_def migrate_loop_def quiet_def)
qed

lemma held_owner [simp]: "owner (s\<lparr>held := h\<rparr>) = owner s" "quiet (s\<lparr>held := h\<rparr>) pr = quiet s pr"
  by (simp_all add: owner_def quiet_def fun_eq_iff)

lemma kept_locked:
  assumes h: "held s = {}" and k: "kept pr (s\<lparr>held := {pr}\<rparr>) u"
  shows "kept pr s (u\<lparr>held := {}\<rparr>)" and "held u = {pr}"
proof -
  show "held u = {pr}" using keptD(2) [OF k] by simp
  moreover have "s\<lparr>held := {}\<rparr> = s" by (simp flip: h)
  ultimately show "kept pr s (u\<lparr>held := {}\<rparr>)"
    using k kept_held [where s = s and s' = u and h = "{}" and pr = pr] by simp
qed

lemma set_targets_ok:
  assumes inv: "sys_ok s" and P: "procs s pr = Some P"
  shows "\<exists>s' P'. set_process_migration_targets cfg pr q s = Inr s' \<and> kept pr s s' \<and> owner s' = owner s \<and>
    pages s' = pages s \<and> procs s' pr = Some P' \<and> mm P' = mm P"
proof -
  have "\<exists>f. set_process_migration_targets cfg pr q s = upd_policy pr f s"
    using P unfolding set_process_migration_targets_def Let_def
    by (cases "fastmem_delta (policy P) > 0"; cases "fastmem_delta (policy P) < 0")
      (simp_all del: upd_proc_simps, blast+)
  then obtain f where f: "set_process_migration_targets cfg pr q s = upd_policy pr f s" ..
  let ?P = "policy_update f P" and ?s = "s\<lparr>procs := (procs s)(pr \<mapsto> policy_update f P)\<rparr>"
  have ok: "sys_ok ?s" by (rule sys_ok_proc_same [OF inv P]) (simp add: proc_same_def)
  have "same_owners s ?s" using P by (auto simp: same_owners_def owner_def)
  then have "kept pr s ?s" using P ok by (intro kept_same_owners [where P = P and P' = ?P]) (simp_all add: same_registry_def)
  moreover have "owner ?s = owner s" by (simp add: owner_def fun_eq_iff)
  ultimately show ?thesis using P f by auto
qed

lemma demote_process_ok:
  assumes e: "env_good env" and inv: "sys_inv s" and P: "procs s pr = Some P" and q: "quiet s pr"
  shows "\<exists>s'. demote_process cfg env pr (qs, s) = Inr (qs, s') \<and> kept pr s s' \<and> owner s' = owner s \<and> quiet s' pr"
proof -
  let ?s = "s\<lparr>held := {pr}\<rparr>"
  have i: "sys_ok ?s" "procs ?s pr = Some P" "owner ?s = owner s" and h: "held s = {}"
    using inv P by (simp_all add: sys_inv_def)
  obtain t Q where t: "set_process_migration_targets cfg pr qs ?s = Inr t" "kept pr ?s t" "owner t = owner ?s"
    "pages t = pages ?s" "procs t pr = Some Q"
    using set_targets_ok [OF i(1,2)] by blast
  have "sys_ok t" "quiet t pr" using t q i(3) by (simp_all add: kept_def quiet_def)
  then obtain n u where u: "process_migrate_down_bytes cfg env qos_find_demotion_candidate pr
      (migration_down_bytes (policy Q)) t = Inr (n, u)" "loop_kept False pr Q n t u"
    using migrate_bytes_ok(1) [OF e _ t(5)] by blast
  note k = loop_kept_kept [OF u(2) t(5)]
  have su: "kept pr ?s u" using t(2) k(1) by (rule kept_trans) (simp add: t(3))
  note lk = kept_locked [OF h su]
  have "demote_process cfg env pr (qs, s) = Inr (qs, u\<lparr>held := {}\<rparr>)"
    using t(1,5) u(1) h P lk(2) by (simp add: demote_process_def lock_process_def unlock_process_def)
  then show ?thesis using k t(3) i(3) lk(1) \<open>quiet t pr\<close> by auto
qed

lemma promote_process_ok:
  assumes e: "env_good env" and c: "CONFIG_PEBS cfg" and inv: "sys_inv s" and P: "procs s pr = Some P" and q: "quiet s pr"
  shows "\<exists>s'. promote_process cfg env pr (qs, s) = Inr (qs, s') \<and> kept pr s s' \<and> owner s' = owner s \<and> quiet s' pr"
proof -
  let ?s = "s\<lparr>held := {pr}\<rparr>"
  have i: "sys_ok ?s" "procs ?s pr = Some P" "quiet ?s pr" and h: "held s = {}"
    using inv P q by (simp_all add: sys_inv_def)
  obtain n u where u: "process_migrate_up_bytes cfg env qos_find_promotion_candidate pr
      (migration_up_bytes (policy P)) ?s = Inr (n, u)" "loop_kept True pr P n ?s u"
    using migrate_bytes_ok(2) [OF e i c] by blast
  note k = loop_kept_kept [OF u(2) i(2)]
  note lk = kept_locked [OF h k(1)]
  have "promote_process cfg env pr (qs, s) = Inr (qs, u\<lparr>held := {}\<rparr>)"
    using u(1) h P lk(2) by (simp add: promote_process_def lock_process_def unlock_process_def)
  then show ?thesis using k i(3) lk(1) by auto
qed

end
