(* ===== verification/Machine.thy ===== *)
theory Machine
  imports Ucm_Correct
begin

text \<open>
  The manager as a state machine. Its actions are the operations the threads of the
  program perform on the shared state: the telemetry handlers mark pages and ask for
  cooling, the request handlers add and remove processes, allocate and free memory, and
  the policy drains the request rings, cools and migrates. \<open>exec\<close> runs the handler
  of an action, \<open>enabled\<close> says when the code may be called, and \<open>reachable\<close> collects
  the states of all interleavings of actions from start-up on.
\<close>

section \<open>Actions\<close>

datatype action =
    Mark_Hot ptr ptr
  | Mark_Cold ptr ptr
  | Ask_Cooling pbuftype ptr bool
  | Cool qos_policy_state ptr
  | Drain ptr
  | Allocate ALLOC_MODE ptr u64 u64
  | Deallocate ptr u64 u64
  | Demote qos_policy_state ptr
  | Promote qos_policy_state ptr
  | Add_Process int double bool ptr "ptr list" "ptr list" "ptr list"
  | Remove_Process ptr

fun exec :: "config \<Rightarrow> ucm_env \<Rightarrow> action \<Rightarrow> ucm_state \<Rightarrow> ucm_state result" where
  "exec cfg env (Mark_Hot pr p) s = andThen (mm_mark_page_hot_async pr p s) (\<lambda>(_, s). Inr s)"
| "exec cfg env (Mark_Cold pr p) s = andThen (mm_mark_page_cold_async pr p s) (\<lambda>(_, s). Inr s)"
| "exec cfg env (Ask_Cooling t pr force) s =
     (case t of FASTMEM \<Rightarrow> proc_cool_fastmem_async pr force s | SLOWMEM \<Rightarrow> proc_cool_slowmem_async pr force s)"
| "exec cfg env (Cool q pr) s = andThen (cool_process cfg pr (q, s)) (\<lambda>(_, s). Inr s)"
| "exec cfg env (Drain pr) s = mm_drain_async_requests cfg pr s"
| "exec cfg env (Allocate mode pr a len) s =
     andThen (ucm_allocate_memory (get_alloc_fn_by_mode mode) pr a len s) (\<lambda>(_, _, s). Inr s)"
| "exec cfg env (Deallocate pr a len) s = andThen (ucm_deallocate_memory pr a len s) (\<lambda>(_, s). Inr s)"
| "exec cfg env (Demote q pr) s = andThen (demote_process cfg env pr (q, s)) (\<lambda>(_, s). Inr s)"
| "exec cfg env (Promote q pr) s = andThen (promote_process cfg env pr (q, s)) (\<lambda>(_, s). Inr s)"
| "exec cfg env (Add_Process pd ratio zero a hb cb fb) s =
     andThen (ipc_handle_add_process cfg pd ratio zero a True (Some hb) (Some cb) (Some fb) s) (\<lambda>(_, s). Inr s)"
| "exec cfg env (Remove_Process pr) s = ucm_remove_process cfg pr s"

definition page_count :: "u64 \<Rightarrow> nat" where
  "page_count len = unat len div 2 ^ 21"

definition cover_count :: "u64 \<Rightarrow> u64 \<Rightarrow> nat" where
  "cover_count a len = (unat (a + len) - unat (page_base a) + (2 ^ 21 - 1)) div 2 ^ 21"

text \<open>
  When an action may run. A page is marked by the process that has it; a cooling round is
  only started while no page would fall 64 rounds behind; a process is drained while no
  more requests wait than one drain serves; a range is allocated at unused addresses while
  the slow tier has enough free pages, and freed while the free ring has room; a process
  migrates when none of its pages waits to be freed; a new process has an unused pid and
  fresh memory, and one that is removed has room in its free ring for all its pages.
\<close>

fun enabled :: "config \<Rightarrow> action \<Rightarrow> ucm_state \<Rightarrow> bool" where
  "enabled cfg (Mark_Hot pr p) s = (owner s p = Some pr)"
| "enabled cfg (Mark_Cold pr p) s = (owner s p = Some pr)"
| "enabled cfg (Ask_Cooling t pr force) s = (procs s pr \<noteq> None \<and> cool_room t pr s)"
| "enabled cfg (Cool q pr) s = (procs s pr \<noteq> None)"
| "enabled cfg (Drain pr) s = (case procs s pr of None \<Rightarrow> False | Some P \<Rightarrow> rings_short P)"
| "enabled cfg (Allocate mode pr a len) s = (case procs s pr of None \<Rightarrow> False
     | Some P \<Rightarrow> len = of_nat (page_count len) * HUGEPAGE_SIZE \<and> allocatable s P a (page_count len))"
| "enabled cfg (Deallocate pr a len) s = (case procs s pr of None \<Rightarrow> False
     | Some P \<Rightarrow> range_cover (page_base a) (cover_count a len) (a + len) \<and>
         length (range_pages s P (page_base a) (cover_count a len)) \<le> free_room P)"
| "enabled cfg (Demote q pr) s = (procs s pr \<noteq> None \<and> quiet s pr)"
| "enabled cfg (Promote q pr) s = (CONFIG_PEBS cfg \<and> procs s pr \<noteq> None \<and> quiet s pr)"
| "enabled cfg (Add_Process pd ratio zero a hb cb fb) s =
     (procs s a = None \<and> a \<noteq> NULL \<and> 0 \<le> pd \<and> find_process pd s = NULL \<and> buffers_ok hb cb fb)"
| "enabled cfg (Remove_Process pr) s = (case procs s pr of None \<Rightarrow> False | Some P \<Rightarrow> removable s pr P)"

section \<open>The specification\<close>

text \<open>
  What the manager promises about its processes and the pages they own, without lists,
  tables, rings and tiers.
\<close>

record manager =
  m_procs :: "ptr set"
  m_owner :: "ptr \<Rightarrow> ptr option"

definition abs_state :: "ucm_state \<Rightarrow> manager" where
  "abs_state s = \<lparr>m_procs = dom (procs s), m_owner = owner s\<rparr>"

fun spec_step :: "action \<Rightarrow> manager \<Rightarrow> manager \<Rightarrow> bool" where
  "spec_step (Drain pr) m m' =
     (m_procs m' = m_procs m \<and> (\<forall>p. m_owner m' p = m_owner m p \<or> m_owner m p = Some pr \<and> m_owner m' p = None))"
| "spec_step (Allocate mode pr a len) m m' =
     (m_procs m' = m_procs m \<and> (\<forall>p. m_owner m' p = m_owner m p \<or> m_owner m p = None \<and> m_owner m' p = Some pr))"
| "spec_step (Add_Process pd ratio zero a hb cb fb) m m' =
     (m_procs m' = insert a (m_procs m) \<and> m_owner m' = m_owner m)"
| "spec_step (Remove_Process pr) m m' =
     (m_procs m' = m_procs m - {pr} \<and> m_owner m' = (\<lambda>p. if m_owner m p = Some pr then None else m_owner m p))"
| "spec_step _ m m' = (m' = m)"

section \<open>Every action\<close>

definition runs :: "config \<Rightarrow> ucm_env \<Rightarrow> action \<Rightarrow> ucm_state \<Rightarrow> bool" where
  "runs cfg env a s \<longleftrightarrow> (\<exists>s'. exec cfg env a s = Inr s' \<and> sys_inv s' \<and> same_data s s' \<and> listed s' = listed s \<and>
     spec_step a (abs_state s) (abs_state s'))"

lemma kept_abs:
  assumes "kept pr s s'" and "owner s' = owner s"
  shows "abs_state s' = abs_state s"
  using assms by (auto simp: kept_def abs_state_def split: if_splits)

lemma runs_kept:
  assumes "sys_inv s" and "kept pr s s'" and "owner s' = owner s" and "exec cfg env a s = Inr s'"
    and "spec_step a (abs_state s) (abs_state s)"
  shows "runs cfg env a s"
  using assms kept_sys_inv [OF assms(1,2)] kept_abs [OF assms(2,3)] keptD [OF assms(2)]
  unfolding runs_def by auto

lemma links_owner: "pg_list s' = pg_list s \<Longrightarrow> owner s' = owner s"
  by (simp add: owner_def fun_eq_iff)

lemma mark_owner:
  "mm_mark_page_hot_async pr p s = Inr (b, s') \<Longrightarrow> owner s' = owner s"
  "mm_mark_page_cold_async pr p s = Inr (b, s') \<Longrightarrow> owner s' = owner s"
  by (rule links_owner, auto simp: mm_mark_page_hot_async_def mm_mark_page_cold_async_def upd_proc_def upd_page_def
      andThen_eq_Inr Let_def split: if_splits)+

lemma cool_request_owner:
  "proc_cool_fastmem_async pr force s = Inr s' \<Longrightarrow> owner s' = owner s"
  "proc_cool_slowmem_async pr force s = Inr s' \<Longrightarrow> owner s' = owner s"
  by (rule links_owner, cases "procs s pr", simp_all add: proc_cool_fastmem_async_def proc_cool_slowmem_async_def
      split: if_splits, auto)+

lemma runs_migrate:
  assumes e: "env_good env" and inv: "sys_inv s"
  shows "enabled cfg (Demote q pr) s \<Longrightarrow> runs cfg env (Demote q pr) s"
    and "enabled cfg (Promote q pr) s \<Longrightarrow> runs cfg env (Promote q pr) s"
proof -
  assume "enabled cfg (Demote q pr) s"
  then obtain P where P: "procs s pr = Some P" "quiet s pr" by auto
  obtain s' where "demote_process cfg env pr (q, s) = Inr (q, s')" "kept pr s s'" "owner s' = owner s"
    using demote_process_ok [OF e inv P] by blast
  then show "runs cfg env (Demote q pr) s" by (intro runs_kept [OF inv]) simp_all
next
  assume "enabled cfg (Promote q pr) s"
  then obtain P where P: "procs s pr = Some P" "quiet s pr" and c: "CONFIG_PEBS cfg" by auto
  obtain s' where "promote_process cfg env pr (q, s) = Inr (q, s')" "kept pr s s'" "owner s' = owner s"
    using promote_process_ok [OF e c inv P] by blast
  then show "runs cfg env (Promote q pr) s" by (intro runs_kept [OF inv]) simp_all
qed

lemma runs_mark:
  assumes inv: "sys_inv s" and o: "owner s p = Some pr"
  shows "runs cfg env (Mark_Hot pr p) s" and "runs cfg env (Mark_Cold pr p) s"
proof -
  have ok: "sys_ok s" using inv by (simp add: sys_inv_def)
  obtain b s' where "mm_mark_page_hot_async pr p s = Inr (b, s')" "kept pr s s'"
    using mark_async_ok(1) [OF ok o] by blast
  then show "runs cfg env (Mark_Hot pr p) s" by (intro runs_kept [OF inv]) (simp_all add: mark_owner)
  obtain b s' where "mm_mark_page_cold_async pr p s = Inr (b, s')" "kept pr s s'"
    using mark_async_ok(2) [OF ok o] by blast
  then show "runs cfg env (Mark_Cold pr p) s" by (intro runs_kept [OF inv]) (simp_all add: mark_owner)
qed

lemma runs_cool:
  assumes inv: "sys_inv s" and P: "procs s pr = Some P"
  shows "cool_room t pr s \<Longrightarrow> runs cfg env (Ask_Cooling t pr force) s" and "runs cfg env (Cool q pr) s"
proof -
  have ok: "sys_ok s" using inv by (simp add: sys_inv_def)
  assume c: "cool_room t pr s"
  obtain s' where "exec cfg env (Ask_Cooling t pr force) s = Inr s'" "kept pr s s'"
    using cool_request_ok [OF ok P, of force] c by (cases t) auto
  moreover from this have "owner s' = owner s"
    using cool_request_owner [of pr force s s'] by (cases t) simp_all
  ultimately show "runs cfg env (Ask_Cooling t pr force) s" using inv by (intro runs_kept) simp_all
next
  obtain s' where "cool_process cfg pr (q, s) = Inr (q, s')" "kept pr s s'" "owner s' = owner s"
    using cool_process_ok [OF inv P] by blast
  then show "runs cfg env (Cool q pr) s" by (intro runs_kept [OF inv]) simp_all
qed

lemma runs_drain:
  assumes inv: "sys_inv s" and P: "procs s pr = Some P" and short: "rings_short P"
  shows "runs cfg env (Drain pr) s"
proof -
  have ok: "sys_ok s" using inv by (simp add: sys_inv_def)
  obtain d s' where d: "drain_run cfg pr P s d s'" "kept pr s s'" "mm_drain_async_requests cfg pr s = Inr s'"
    using drain_sys_ok [OF ok P short] by blast
  have fs: "owner s p = Some pr" if "p \<in> set (ring_list (free_page_ring (mm P)))" for p
    using ok P that by (auto simp: sys_ok_def proc_ok_def free_reqs_ok_def)
  have "owner s' p = owner s p \<or> owner s p = Some pr \<and> owner s' p = None" for p
    using drain_owners(1) [OF ok P d(1), of p] fs [of p] by simp
  moreover have "dom (procs s') = dom (procs s)" using d(2) by (auto simp: kept_def split: if_splits)
  ultimately show ?thesis
    using d(3) kept_sys_inv [OF inv d(2)] keptD(4,5) [OF d(2)] by (simp add: runs_def abs_state_def)
qed

lemma runs_memory:
  assumes inv: "sys_inv s"
  shows "enabled cfg (Allocate mode pr a len) s \<Longrightarrow> runs cfg env (Allocate mode pr a len) s"
    and "enabled cfg (Deallocate pr a len) s \<Longrightarrow> runs cfg env (Deallocate pr a len) s"
proof -
  have ok: "sys_ok s" and h: "pr \<notin> held s" using inv by (simp_all add: sys_inv_def)
  assume "enabled cfg (Allocate mode pr a len) s"
  then obtain P where P: "procs s pr = Some P" "len = of_nat (page_count len) * HUGEPAGE_SIZE"
    "allocatable s P a (page_count len)"
    by (auto split: option.splits)
  obtain rs s' where s': "ucm_allocate_memory (get_alloc_fn_by_mode mode) pr a len s = Inr (int (page_count len), rs, s')"
    "kept pr s s'" "grown pr s s'"
    using allocate_memory_ok [OF ok P(1) h P(3) alloc_spec_modes, of mode] extended_grown unfolding P(2) [symmetric] by blast
  moreover have "dom (procs s') = dom (procs s)" using s'(2) by (auto simp: kept_def split: if_splits)
  ultimately show "runs cfg env (Allocate mode pr a len) s"
    using kept_sys_inv [OF inv s'(2)] keptD(4,5) [OF s'(2)] by (simp add: runs_def abs_state_def grown_def)
next
  have ok: "sys_ok s" using inv by (simp add: sys_inv_def)
  assume "enabled cfg (Deallocate pr a len) s"
  then obtain P where P: "procs s pr = Some P" "range_cover (page_base a) (cover_count a len) (a + len)"
    "length (range_pages s P (page_base a) (cover_count a len)) \<le> free_room P"
    by (auto split: option.splits)
  obtain n s' where "ucm_deallocate_memory pr a len s = Inr (n, s')" "kept pr s s'" "owner s' = owner s"
    using deallocate_memory_ok [OF ok P] by blast
  then show "runs cfg env (Deallocate pr a len) s" by (intro runs_kept [OF inv]) simp_all
qed

lemma runs_process:
  assumes inv: "sys_inv s"
  shows "enabled cfg (Add_Process pd ratio zero a hb cb fb) s \<Longrightarrow> runs cfg env (Add_Process pd ratio zero a hb cb fb) s"
    and "enabled cfg (Remove_Process pr) s \<Longrightarrow> runs cfg env (Remove_Process pr) s"
proof -
  assume "enabled cfg (Add_Process pd ratio zero a hb cb fb) s"
  then show "runs cfg env (Add_Process pd ratio zero a hb cb fb) s"
    using add_process_ok [OF inv, of a pd hb cb fb cfg ratio zero] by (auto simp: runs_def abs_state_def)
next
  assume "enabled cfg (Remove_Process pr) s"
  then obtain P where P: "procs s pr = Some P" "removable s pr P" by (auto split: option.splits)
  then show "runs cfg env (Remove_Process pr) s"
    using remove_process_ok [OF inv P, of cfg] by (auto simp: runs_def abs_state_def cong: if_cong)
qed

lemma exec_runs:
  assumes e: "env_good env" and inv: "sys_inv s" and a: "enabled cfg a s"
  shows "runs cfg env a s"
proof (cases a)
  case (Ask_Cooling t pr force)
  then show ?thesis using a runs_cool(1) [OF inv] by auto
next
  case (Cool q pr)
  then show ?thesis using a runs_cool(2) [OF inv] by auto
next
  case (Drain pr)
  then show ?thesis using a runs_drain [OF inv] by (auto split: option.splits)
qed (use a runs_mark [OF inv] runs_migrate [OF e inv] runs_memory [OF inv] runs_process [OF inv] in \<open>simp_all del: exec.simps\<close>)

section \<open>Reachable states\<close>

inductive reachable :: "config \<Rightarrow> ucm_env \<Rightarrow> ucm_state \<Rightarrow> bool" for cfg env where
  Start: "\<lbrakk>boot_ok fast_size slow_size fast slow af as;
      mm_init mode fast_size slow_size fast slow af as (boot_state mem) = Inr s\<rbrakk> \<Longrightarrow>
    reachable cfg env (proc_mgr_init s)"
| Step: "\<lbrakk>reachable cfg env s; enabled cfg a s; exec cfg env a s = Inr s'\<rbrakk> \<Longrightarrow> reachable cfg env s'"

lemma reachable_inv:
  assumes e: "env_good env" and r: "reachable cfg env s"
  shows "sys_inv s"
  using r
proof (induction rule: reachable.induct)
  case (Start fast_size slow_size fast slow af as mode mem s)
  then show ?case using mm_init_ok [OF Start(1), of mode mem] by auto
next
  case (Step s a s')
  then show ?case using exec_runs [OF e Step.IH Step.hyps(2)] by (auto simp: runs_def)
qed

section \<open>Runs\<close>

fun exec_all :: "config \<Rightarrow> ucm_env \<Rightarrow> action list \<Rightarrow> ucm_state \<Rightarrow> ucm_state result" where
  "exec_all cfg env [] s = Inr s"
| "exec_all cfg env (a # as) s = andThen (exec cfg env a s) (exec_all cfg env as)"

text \<open>Every action of a run is enabled when its turn comes.\<close>

fun allowed :: "config \<Rightarrow> ucm_env \<Rightarrow> action list \<Rightarrow> ucm_state \<Rightarrow> bool" where
  "allowed cfg env [] s = True"
| "allowed cfg env (a # as) s = (enabled cfg a s \<and>
     (case exec cfg env a s of Inl e \<Rightarrow> True | Inr s' \<Rightarrow> allowed cfg env as s'))"

text \<open>A page belongs to some process before every action of a run.\<close>

fun owned_during :: "config \<Rightarrow> ucm_env \<Rightarrow> ptr \<Rightarrow> action list \<Rightarrow> ucm_state \<Rightarrow> bool" where
  "owned_during cfg env p [] s = True"
| "owned_during cfg env p (a # as) s = (owner s p \<noteq> None \<and>
     (case exec cfg env a s of Inl e \<Rightarrow> True | Inr s' \<Rightarrow> owned_during cfg env p as s'))"

lemma exec_all_ok:
  assumes e: "env_good env"
  shows "\<lbrakk>sys_inv s; allowed cfg env as s\<rbrakk> \<Longrightarrow>
    \<exists>s'. exec_all cfg env as s = Inr s' \<and> sys_inv s' \<and> listed s' = listed s \<and>
      (\<forall>p k. owned_during cfg env p as s \<longrightarrow> k < HUGEPAGE_SIZE \<longrightarrow> page_data s' p k = page_data s p k)"
proof (induction "as" arbitrary: s)
  case (Cons a "as")
  then have "runs cfg env a s" by (intro exec_runs [OF e]) simp_all
  then obtain t where t: "exec cfg env a s = Inr t" "sys_inv t" "same_data s t" "listed t = listed s"
    by (auto simp: runs_def)
  moreover have "allowed cfg env as t" using Cons.prems t(1) by (simp del: exec.simps)
  ultimately obtain s' where s': "exec_all cfg env as t = Inr s'" "sys_inv s'" "listed s' = listed t"
    "\<forall>p k. owned_during cfg env p as t \<longrightarrow> k < HUGEPAGE_SIZE \<longrightarrow> page_data s' p k = page_data t p k"
    using Cons.IH by blast
  then show ?case
    using t by (intro exI [of _ s']) (simp add: same_data_def del: exec.simps)
qed simp

lemma exec_all_reachable:
  assumes "reachable cfg env s" and "allowed cfg env as s" and "exec_all cfg env as s = Inr s'"
  shows "reachable cfg env s'"
  using assms
proof (induction "as" arbitrary: s)
  case (Cons a "as")
  then obtain t where t: "exec cfg env a s = Inr t" "exec_all cfg env as t = Inr s'"
    by (auto simp: andThen_eq_Inr simp del: exec.simps)
  then have "reachable cfg env t" "allowed cfg env as t"
    using Cons.prems by (auto simp del: exec.simps enabled.simps intro: reachable.Step)
  then show ?case using Cons.IH t(2) by blast
qed simp

text \<open>A page of the tiers is on exactly one list.\<close>

lemma listed_once: "pl_wf s \<Longrightarrow> p \<in> listed s \<longleftrightarrow> (\<exists>!q. p \<in> set (page_seq s q))"
  by (auto simp: listed_def simp flip: pl_wf_mem)

lemma booted_listed:
  assumes "booted mem fast_size slow_size fast slow af as s"
  shows "listed s = set (descriptors af fast_size @ descriptors as slow_size)"
proof -
  have "pl_wf s" using assms by (simp add: booted_def)
  then have "p \<in> listed s \<longleftrightarrow> (\<exists>q. p \<in> set (page_seq s q))" for p
    by (auto simp: listed_def simp flip: pl_wf_mem)
  moreover have "page_seq s = (\<lambda>_. [])(Fastmem_Free := rev (descriptors af fast_size),
       Slowmem_Free := rev (descriptors as slow_size))"
    using assms by (simp add: booted_def)
  ultimately show ?thesis by (auto split: if_splits)
qed

end
