(* ===== verification/Example_Run.thy ===== *)
theory Example_Run
  imports Machine Example_State
begin

text \<open>
  A run of the manager on which the properties of whole runs are exercised: it starts with
  one fast and three slow pages, a process registers and allocates two pages.
\<close>

definition run_cfg :: config where
  "run_cfg = \<lparr>CONFIG_PEBS = True, CONFIG_PEBS_SKEWNESS = False, CONFIG_CXL_TELEM = False,
     CONFIG_POLICY_QOS = True, CONFIG_POLICY_FAIR_SHARE = False\<rparr>"

definition run_env :: ucm_env where
  "run_env = \<lparr>env_remap = (\<lambda>s pr pg. Reply True (app_va pg)), env_wp = (\<lambda>s p b. Ioctl_Ok)\<rparr>"

definition run_fast :: "nat \<Rightarrow> ptr" where "run_fast i = 16 + of_nat i"
definition run_slow :: "nat \<Rightarrow> ptr" where "run_slow i = 32 + of_nat i"

definition run_buffer :: "ptr list" where "run_buffer = replicate CAPACITY NULL"

definition run_boot :: "ucm_state result" where
  "run_boot = mm_init USE_DAX 0x200000 0x600000 0x10000000 0x20000000 run_fast run_slow (boot_state (\<lambda>_. 7))"

definition run_add :: action where
  "run_add = Add_Process 42 (Fin (1 / 4)) False proc1 run_buffer run_buffer run_buffer"

definition run_alloc :: action where
  "run_alloc = Allocate SLOWMEM_PREFERRED proc1 0x40000000 0x400000"

lemma run_env_good: "env_good run_env"
  by (simp add: env_good_def run_env_def)

lemma run_boot_ok: "boot_ok 0x200000 0x600000 0x10000000 0x20000000 run_fast run_slow"
  by (simp add: boot_ok_def HUGEPAGE_SIZE_def descriptors_def tier_count_def run_fast_def run_slow_def upt_rec)

lemma run_start:
  obtains s where "run_boot = Inr s" "reachable run_cfg run_env (proc_mgr_init s)" "sys_inv (proc_mgr_init s)"
    "booted (\<lambda>_. 7) 0x200000 0x600000 0x10000000 0x20000000 run_fast run_slow (proc_mgr_init s)"
  using mm_init_ok [OF run_boot_ok, of USE_DAX "\<lambda>_. 7"] reachable.Start [OF run_boot_ok] unfolding run_boot_def by blast

lemma run_added:
  assumes inv: "sys_inv s" and b: "booted (\<lambda>_. 7) 0x200000 0x600000 0x10000000 0x20000000 run_fast run_slow s"
  shows "enabled run_cfg run_add s"
    and "\<exists>t. exec run_cfg run_env run_add s = Inr t \<and> sys_inv t \<and> enabled run_cfg run_alloc t"
proof -
  have en: "procs s proc1 = None" "find_process 42 s = NULL" "buffers_ok run_buffer run_buffer run_buffer"
    using b by (simp_all add: booted_def find_process_def HASH_FIND_def buffers_ok_def run_buffer_def)
  then show "enabled run_cfg run_add s" by (simp add: run_add_def)
  obtain t P where t: "ipc_handle_add_process run_cfg 42 (Fin (1 / 4)) False proc1 True (Some run_buffer) (Some run_buffer)
      (Some run_buffer) s = Inr (proc1, t)" "sys_inv t" "pages t = pages s" "page_seq t = page_seq s"
    "procs t = (procs s)(proc1 \<mapsto> P)" "empty_proc P" "process_clock P = (\<lambda>_. 0)"
    using add_process_ok [OF inv en(1) _ _ en(2,3), of run_cfg "Fin (1 / 4)" False] by auto
  have "clocks_ok P (pages t p)" if "pg_list t p = Some (tier_free f)" for p f
  proof -
    have "pl_wf t" using t(2) by (simp add: sys_inv_def sys_ok_def ucm_inv_def)
    then have "p \<in> set (page_seq s (tier_free f))" using that t(4) by (simp add: pl_wf_mem)
    then have "pg_list s p = Some (tier_free f)" using b by (simp add: booted_def pl_wf_mem)
    with b obtain g i where "pages s p = init_page g i" by (rule booted_page)
    then show ?thesis using t(3,7) by (simp add: clocks_ok_def init_page_def hemem_page_alloc_def)
  qed
  then have "free_clocks_ok t P" by (simp add: free_clocks_ok_def)
  moreover have "length (page_seq t Slowmem_Free) = 3"
    using b t(4) by (simp add: booted_def descriptors_def tier_count_def HUGEPAGE_SIZE_def)
  moreover have "lookup t P v = NULL" for v using t(6) by (simp add: empty_proc_def HASH_FIND_def)
  ultimately have "enabled run_cfg run_alloc t"
    using t(5) by (simp add: run_alloc_def page_count_def allocatable_def range_ok_def HUGEPAGE_SIZE_def)
  then show "\<exists>t. exec run_cfg run_env run_add s = Inr t \<and> sys_inv t \<and> enabled run_cfg run_alloc t"
    using t(1,2) by (simp add: run_add_def)
qed

text \<open>The run is allowed, and after it the process owns two different pages.\<close>

lemma run_pages:
  obtains s t p q where "run_boot = Inr s" "allowed run_cfg run_env [run_add, run_alloc] (proc_mgr_init s)"
    "exec_all run_cfg run_env [run_add, run_alloc] (proc_mgr_init s) = Inr t" "reachable run_cfg run_env t"
    "owner t p = Some proc1" "owner t q = Some proc1" "p \<noteq> q"
proof -
  obtain s where s: "run_boot = Inr s" "reachable run_cfg run_env (proc_mgr_init s)" "sys_inv (proc_mgr_init s)"
    "booted (\<lambda>_. 7) 0x200000 0x600000 0x10000000 0x20000000 run_fast run_slow (proc_mgr_init s)"
    by (rule run_start)
  note a = run_added [OF s(3,4)]
  obtain u where u: "exec run_cfg run_env run_add (proc_mgr_init s) = Inr u" "sys_inv u" "enabled run_cfg run_alloc u"
    using a(2) by blast
  obtain P where P: "procs u proc1 = Some P" "allocatable u P 0x40000000 2"
    using u(3) by (auto simp: run_alloc_def page_count_def split: option.splits)
  have ok: "sys_ok u" "proc1 \<notin> held u" using u(2) by (simp_all add: sys_inv_def)
  obtain rs t N where t: "ucm_allocate_memory (get_alloc_fn_by_mode SLOWMEM_PREFERRED) proc1 0x40000000
      (of_nat 2 * HUGEPAGE_SIZE) u = Inr (int 2, rs, t)" "kept proc1 u t" "procs t proc1 = Some N"
    "\<forall>i < 2. mapped_resp t N (addr_at 0x40000000 i) (rs ! i)"
    using allocate_memory_ok [OF ok(1) P(1) ok(2) P(2) alloc_spec_modes] by blast
  let ?p = "lookup t N 0x40000000" and ?q = "lookup t N 0x40200000"
  have "addr_at 0x40000000 0 = 0x40000000" "addr_at 0x40000000 1 = 0x40200000" by (simp_all add: addr_at_def HUGEPAGE_SIZE_def)
  then have "?p \<noteq> NULL" "?q \<noteq> NULL" using t(4) unfolding mapped_resp_def by (metis zero_less_numeral one_less_numeral_iff semiring_norm(76))+
  then have "?p \<in> mapped t proc1" "?q \<in> mapped t proc1" "va (pages t ?p) = 0x40000000" "va (pages t ?q) = 0x40200000"
    using lookup_mapped [OF keptD(1) [OF t(2)] t(3)] by blast+
  then have "owner t ?p = Some proc1" "owner t ?q = Some proc1" "?p \<noteq> ?q" by (auto simp: mapped_def)
  moreover have "exec run_cfg run_env run_alloc u = Inr t" using t(1) by (simp add: run_alloc_def HUGEPAGE_SIZE_def)
  then have "exec_all run_cfg run_env [run_add, run_alloc] (proc_mgr_init s) = Inr t"
    "allowed run_cfg run_env [run_add, run_alloc] (proc_mgr_init s)"
    using u a(1) by simp_all
  ultimately show thesis using that s(1,2) exec_all_reachable by blast
qed

end
