(* ===== verification/Example_Inv.thy ===== *)
theory Example_Inv
  imports Machine Example_State
begin

text \<open>
  The example state satisfies the invariant of the whole manager.
\<close>

lemma example_owner: "owner example_state p =
    (if p = 3 \<or> p = 4 \<or> p = 5 \<or> p = 6 then Some proc1 else if p = 7 then Some proc2 else None)"
  by (simp add: owner_def example_state_def)

lemma example_mapped: "mapped example_state pr =
    (if pr = proc1 then {3, 5, 6} else if pr = proc2 then {7} else {})"
  "slow_mapped example_state pr = (if pr = proc1 then {5, 6} else {})"
  by (auto simp: mapped_def slow_mapped_def example_owner split: if_splits) (simp_all add: example_page_defs)

lemma example_registry: "registry_ok example_state"
proof -
  have "dom (procs example_state) = {proc1, proc2}" by (auto simp: example_proc_defs)
  moreover have "tab_ok (pid_key example_state) (proc_map example_state)" "snd ` set (proc_map example_state) = {proc1, proc2}"
    by (auto simp: tab_ok_def pid_key_def example_proc_defs)
  ultimately show ?thesis using example_procs_ok by (auto simp: registry_ok_def pr_idle_def)
qed

lemma example_frames: "frames_ok example_state" "tiers_ok example_state" "pages_idle example_state" "pa_map_ok example_state"
proof -
  show "frames_ok example_state"
    unfolding frames_ok_def
    by (intro conjI allI impI) (simp_all add: frame_ok_def tier_size_def example_page_defs split: if_splits)
  show "tiers_ok example_state" by (simp add: tiers_ok_def example_state_def HUGEPAGE_SIZE_def)
  show "pages_idle example_state"
    by (simp add: pages_idle_def example_owner) (simp add: example_page_defs HUGEPAGE_SIZE_def)
  have "tab_ok (pa_key example_state) (pa_to_proc_map example_state)"
    by (auto simp: tab_ok_def pa_key_def example_page_defs)
  then show "pa_map_ok example_state"
    unfolding pa_map_ok_def example_mapped by (auto simp: example_page_defs split: if_splits)
qed

lemma example_ring_ok [simp]:
  "ring_wf (example_ring [])" "ring_list (example_ring []) = []" "ring_bound (example_ring []) = 7"
  "ring_wf (example_ring [x])" "ring_list (example_ring [x]) = [x]" "ring_bound (example_ring [x]) = 7"
  by (simp_all add: ring_wf_def ring_list_def ring_count_def ring_bound_def example_ring_def)

lemma example_proc_ok:
  assumes "procs example_state pr = Some P"
  shows "proc_ok example_state pr P"
proof -
  have "pr = proc1 \<or> pr = proc2" using assms by (auto simp: example_proc_defs split: if_splits)
  then show ?thesis
  proof
    assume pr: "pr = proc1"
    then have P: "pages_table (mm P) = [(0x200000, 3), (0x600000, 5), (0x800000, 6)]" "cxl_offset_to_page (mm P) = [(0x200000, 5), (0x400000, 6)]"
      "free_page_ring (mm P) = example_ring [4]" "hot_ring (mm P) = example_ring [3]" "cold_ring (mm P) = example_ring [5]"
      "process_clock P = (\<lambda>_. 0)"
      using assms by (auto simp: example_proc_defs)
    have "tables_ok example_state pr (mm P)"
      unfolding tables_ok_def example_mapped P pr by (auto simp: tab_ok_def example_page_defs)
    moreover have "free_reqs_ok example_state pr (mm P)" "level_reqs_ok example_state pr (mm P)"
      unfolding free_reqs_ok_def level_reqs_ok_def P pr
      by (auto simp: example_owner split: if_splits) (simp_all add: example_page_defs)
    moreover have "clocks_all_ok example_state pr P"
      by (auto simp: clocks_all_ok_def clocks_ok_def P example_owner split: if_splits) (simp_all add: example_page_defs)
    ultimately show ?thesis by (simp add: proc_ok_def)
  next
    assume pr: "pr = proc2"
    then have P: "pages_table (mm P) = [(0x200000, 7)]" "cxl_offset_to_page (mm P) = []"
      "free_page_ring (mm P) = example_ring []" "hot_ring (mm P) = example_ring []" "cold_ring (mm P) = example_ring []"
      "process_clock P = (\<lambda>_. 0)"
      using assms by (auto simp: example_proc_defs)
    have "tables_ok example_state pr (mm P)"
      unfolding tables_ok_def example_mapped P pr by (auto simp: tab_ok_def example_page_defs)
    moreover have "free_reqs_ok example_state pr (mm P)" "level_reqs_ok example_state pr (mm P)"
      unfolding free_reqs_ok_def level_reqs_ok_def P pr
      by (auto simp: example_owner split: if_splits) (simp_all add: example_page_defs)
    moreover have "clocks_all_ok example_state pr P"
      by (auto simp: clocks_all_ok_def clocks_ok_def P example_owner pr split: if_splits) (simp_all add: example_page_defs)
    ultimately show ?thesis by (simp add: proc_ok_def)
  qed
qed

lemma example_sys_inv: "sys_inv example_state"
proof -
  have "\<not> in_free_ring (pages example_state p)" if "owner example_state p = None" for p
    using that by (auto simp: example_owner split: if_splits) (auto simp: example_page_defs split: if_splits)
  moreover have "procs example_state NULL = None" "held example_state = {}"
    by (simp_all add: example_procs_def example_state_def)
  ultimately show ?thesis
    using example_inv example_frames example_registry example_proc_ok by (simp add: sys_inv_def sys_ok_def)
qed

end
