(* ===== verification/Sys_Properties.thy ===== *)
theory Sys_Properties
  imports Example_Run Example_Inv Mm_Properties
begin

text \<open>
  Properties of start-up, of the requests of applications and of migration. The witnesses
  run them on the example state or on the example run.
\<close>

section \<open>Start-up\<close>

text \<open>
  C15: Start-up: \<open>mm_init\<close> succeeds, puts one descriptor for every huge page of a tier on the
  tier's free list, newest first, with the offsets 0, 2 MiB, 4 MiB and so on, and touches
  no byte of the tiers.
\<close>

theorem start_up_free_lists:
  assumes "boot_ok fast_size slow_size fast slow af as"
  shows "\<exists>s. mm_init mode fast_size slow_size fast slow af as (boot_state mem) = Inr s \<and>
    page_seq s Fastmem_Free = rev (descriptors af fast_size) \<and>
    page_seq s Slowmem_Free = rev (descriptors as slow_size) \<and>
    (\<forall>i < tier_count fast_size. in_dram (pages s (af i)) \<and> devdax_offset (pages s (af i)) = of_nat i * HUGEPAGE_SIZE) \<and>
    (\<forall>i < tier_count slow_size. \<not> in_dram (pages s (as i)) \<and> devdax_offset (pages s (as i)) = of_nat i * HUGEPAGE_SIZE) \<and>
    ucm_mem s = mem"
proof -
  obtain s where s: "mm_init mode fast_size slow_size fast slow af as (boot_state mem) = Inr s"
    "booted mem fast_size slow_size fast slow af as (proc_mgr_init s)"
    using mm_init_ok [OF assms] by blast
  have "page_seq (proc_mgr_init s) = page_seq s" by (rule page_parts_cong) (simp_all add: proc_mgr_init_def)
  then have "page_seq s = (\<lambda>_. [])(Fastmem_Free := rev (descriptors af fast_size),
      Slowmem_Free := rev (descriptors as slow_size))"
    using s(2) by (simp add: booted_def)
  moreover have "\<forall>i < tier_count fast_size. pages s (af i) = init_page True i"
    "\<forall>i < tier_count slow_size. pages s (as i) = init_page False i" "ucm_mem s = mem"
    using s(2) by (simp_all add: booted_def proc_mgr_init_def)
  ultimately show ?thesis using s(1) by (simp add: init_page_def)
qed

theorem start_up_free_lists_witness:
  "\<exists>s. run_boot = Inr s \<and> page_seq s Fastmem_Free = [run_fast 0] \<and>
    page_seq s Slowmem_Free = [run_slow 2, run_slow 1, run_slow 0] \<and> devdax_offset (pages s (run_slow 2)) = 0x400000"
proof -
  have c: "tier_count 0x200000 = 1" "tier_count 0x600000 = 3" by (simp_all add: tier_count_def HUGEPAGE_SIZE_def)
  have d: "descriptors run_fast 0x200000 = [run_fast 0]" "descriptors run_slow 0x600000 = [run_slow 0, run_slow 1, run_slow 2]"
    by (simp_all add: descriptors_def c upt_rec numeral_2_eq_2)
  obtain s where s: "run_boot = Inr s" "page_seq s Fastmem_Free = rev (descriptors run_fast 0x200000)"
    "page_seq s Slowmem_Free = rev (descriptors run_slow 0x600000)"
    "\<forall>i < tier_count 0x600000. \<not> in_dram (pages s (run_slow i)) \<and> devdax_offset (pages s (run_slow i)) = of_nat i * HUGEPAGE_SIZE"
    using start_up_free_lists [OF run_boot_ok, of USE_DAX "\<lambda>_. 7"] unfolding run_boot_def by blast
  have "devdax_offset (pages s (run_slow 2)) = of_nat 2 * HUGEPAGE_SIZE" using s(4) c(2) by simp
  then show ?thesis using s(1-3) d by (intro exI [of _ s]) (simp add: HUGEPAGE_SIZE_def)
qed

section \<open>Allocation and deallocation\<close>

text \<open>
  C10: Allocation: for a range of \<open>n\<close> huge pages at unused aligned addresses and enough
  free slow pages, \<open>ucm_allocate_memory\<close> returns \<open>n\<close> and one response per page; every
  address of the range then finds a page whose frame, as the response describes it, is all
  zero, every other address of the process finds what it found before, and the invariant
  holds.
\<close>

theorem allocate_memory_maps:
  assumes "sys_inv s" and "procs s pr = Some P" and "allocatable s P b n"
  shows "\<exists>rs s' N. ucm_allocate_memory (get_alloc_fn_by_mode mode) pr b (of_nat n * HUGEPAGE_SIZE) s = Inr (int n, rs, s') \<and>
    sys_inv s' \<and> procs s' pr = Some N \<and> length rs = n \<and>
    (\<forall>i < n. mapped_resp s' N (addr_at b i) (rs ! i)) \<and>
    (\<forall>v. v \<notin> addr_at b ` {..<n} \<longrightarrow> lookup s' N v = lookup s P v)"
proof -
  have "sys_ok s" "pr \<notin> held s" using assms(1) by (simp_all add: sys_inv_def)
  then obtain rs s' N where s': "ucm_allocate_memory (get_alloc_fn_by_mode mode) pr b (of_nat n * HUGEPAGE_SIZE) s = Inr (int n, rs, s')"
    "kept pr s s'" "extended pr P N (addr_at b ` {..<n}) s s'" "procs s' pr = Some N" "length rs = n"
    "\<forall>i < n. mapped_resp s' N (addr_at b i) (rs ! i)"
    using allocate_memory_ok [OF _ assms(2) _ assms(3) alloc_spec_modes] by blast
  then show ?thesis using kept_sys_inv [OF assms(1) s'(2)] extendedD(3) [OF s'(3)] by blast
qed

lemma example_proc2:
  obtains P where "procs example_state proc2 = Some P" "pages_table (mm P) = [(0x200000, 7)]"
    "free_page_ring (mm P) = example_ring []" "hot_ring (mm P) = example_ring []" "cold_ring (mm P) = example_ring []"
    "process_clock P = (\<lambda>_. 0)" "current_fastmem (mm P) = 0x200000"
proof -
  obtain P where P: "procs example_state proc2 = Some P" by (simp add: example_state_def example_procs_def)
  show thesis by (rule that [OF P]) (use P in \<open>auto simp: example_proc_defs\<close>)
qed

lemma example_allocatable:
  assumes "pages_table (mm P) = [(0x200000, 7)]" and "process_clock P = (\<lambda>_. 0)"
  shows "allocatable example_state P 0x40000000 1"
proof -
  have "free_clocks_ok example_state P"
    using assms(2) by (auto simp: free_clocks_ok_def clocks_ok_def example_page_defs tier_free_def split: if_splits)
  moreover have "lookup example_state P 0x40000000 = NULL" using assms(1) by (simp add: HASH_FIND_def)
  ultimately show ?thesis
    by (simp add: allocatable_def range_ok_def HUGEPAGE_SIZE_def example_lists_ok example_lists_def)
qed

theorem allocate_memory_maps_witness:
  "\<exists>rs s' N. ucm_allocate_memory (get_alloc_fn_by_mode FASTMEM_PREFERRED) proc2 0x40000000 0x200000 example_state =
      Inr (1, rs, s') \<and> sys_inv s' \<and> procs s' proc2 = Some N \<and> mapped_resp s' N 0x40000000 (rs ! 0) \<and>
    lookup s' N 0x200000 = 7"
proof -
  obtain P where P: "procs example_state proc2 = Some P" "pages_table (mm P) = [(0x200000, 7)]" "process_clock P = (\<lambda>_. 0)"
    by (rule example_proc2)
  have l: "lookup example_state P 0x200000 = 7" using P(2) by (simp add: example_page_defs)
  show ?thesis
    using allocate_memory_maps [OF example_sys_inv P(1) example_allocatable [OF P(2,3)], of FASTMEM_PREFERRED] l
    by (auto simp: HUGEPAGE_SIZE_def lessThan_Suc)
qed

text \<open>
  C12: Deallocation: freeing a range returns the number of pages found at its huge-page
  addresses, hands exactly these pages to the free ring of the process, in order, and
  leaves every other address as it was; the pages keep their owner until the ring is
  drained.
\<close>

theorem deallocate_memory_unmaps:
  assumes "sys_inv s" and "procs s pr = Some P" and "range_cover (page_base a) n (a + len)"
    and "length (range_pages s P (page_base a) n) \<le> free_room P"
  shows "\<exists>s' N. ucm_deallocate_memory pr a len s = Inr (of_nat (length (range_pages s P (page_base a) n)), s') \<and>
    sys_inv s' \<and> owner s' = owner s \<and> procs s' pr = Some N \<and>
    (\<forall>v. lookup s' N v = (if v \<in> addr_at (page_base a) ` {..<n} then NULL else lookup s P v)) \<and>
    ring_list (free_page_ring (mm N)) = ring_list (free_page_ring (mm P)) @ range_pages s P (page_base a) n"
proof -
  have ok: "sys_ok s" using assms(1) by (simp add: sys_inv_def)
  show ?thesis using deallocate_memory_ok [OF ok assms(2-4)] kept_sys_inv [OF assms(1)] by blast
qed

theorem deallocate_memory_unmaps_witness:
  "\<exists>s' N. ucm_deallocate_memory proc2 0x200800 0x1000 example_state = Inr (1, s') \<and> sys_inv s' \<and>
    procs s' proc2 = Some N \<and> lookup s' N 0x200000 = NULL \<and> ring_list (free_page_ring (mm N)) = [7]"
proof -
  obtain P where P: "procs example_state proc2 = Some P" "pages_table (mm P) = [(0x200000, 7)]"
    "free_page_ring (mm P) = example_ring []"
    by (rule example_proc2)
  have b: "page_base 0x200800 = 0x200000" by (simp add: page_base_def HUGEPAGE_SIZE_def)
  have rp: "range_pages example_state P 0x200000 1 = [7]"
    using P(2) by (simp add: range_pages_def example_page_defs)
  have "range_cover 0x200000 1 (0x200800 + 0x1000)" by (simp add: range_cover_def range_ok_def HUGEPAGE_SIZE_def)
  moreover have "length (range_pages example_state P 0x200000 1) \<le> free_room P" using P(3) unfolding rp by (simp add: free_room_def)
  ultimately show ?thesis
    using deallocate_memory_unmaps [OF example_sys_inv P(1), of "0x200800" 1 "0x1000"] P(3) unfolding b rp by auto
qed

lemma page_base_aligned: "b mod HUGEPAGE_SIZE = 0 \<Longrightarrow> page_base b = b"
proof -
  assume "b mod HUGEPAGE_SIZE = 0"
  then have t: "take_bit 21 b = 0" by (simp add: take_bit_eq_mod HUGEPAGE_SIZE_def)
  have m: "HUGEPAGE_SIZE - 1 = (mask 21 :: u64)" by (simp add: HUGEPAGE_SIZE_def mask_eq_exp_minus_1)
  have "bit (b AND NOT (mask 21)) i = bit b i" for i
  proof (cases "i < 21")
    case True
    then have "\<not> bit b i" using t bit_take_bit_iff [of 21 b i] by simp
    then show ?thesis by (simp add: bit_and_iff)
  next
    case False
    then show ?thesis using bit_imp_le_length [of b i] by (auto simp: bit_and_iff bit_not_iff bit_mask_iff)
  qed
  then have "b AND NOT (mask 21) = b" by (rule bit_word_eqI)
  then show ?thesis by (simp add: page_base_def m)
qed

lemma range_ok_cover:
  assumes "range_ok b n"
  shows "range_cover b n (b + of_nat n * HUGEPAGE_SIZE)" and "page_base b = b"
proof -
  show "range_cover b n (b + of_nat n * HUGEPAGE_SIZE)"
    using assms addr_at_unat [OF assms order.refl] by (cases n) (simp_all add: range_cover_def addr_at_def)
  show "page_base b = b" using assms by (intro page_base_aligned) (simp add: range_ok_def)
qed

text \<open>
  C11: Round trip: allocating a range, freeing it and draining the requests of the process
  gives every page back: each page of the manager has the owner it had before the
  allocation, and after the two requests every address finds what it found before them.
\<close>

theorem allocate_free_roundtrip:
  assumes "sys_inv s" and "procs s pr = Some P" and "allocatable s P b n" and "n \<le> free_room P"
    and "ring_list (free_page_ring (mm P)) = []" and "rings_short P"
  shows "\<exists>rs s1 s2 s3 N. ucm_allocate_memory (get_alloc_fn_by_mode mode) pr b (of_nat n * HUGEPAGE_SIZE) s = Inr (int n, rs, s1) \<and>
    ucm_deallocate_memory pr b (of_nat n * HUGEPAGE_SIZE) s1 = Inr (of_nat n, s2) \<and>
    mm_drain_async_requests cfg pr s2 = Inr s3 \<and> procs s2 pr = Some N \<and> (\<forall>v. lookup s2 N v = lookup s P v) \<and>
    owner s3 = owner s"
proof -
  have ok: "sys_ok s" "pr \<notin> held s" and r: "range_ok b n" using assms(1,3) by (simp_all add: sys_inv_def allocatable_def)
  obtain rs s1 N1 where 1: "ucm_allocate_memory (get_alloc_fn_by_mode mode) pr b (of_nat n * HUGEPAGE_SIZE) s = Inr (int n, rs, s1)"
    "kept pr s s1" "extended pr P N1 (addr_at b ` {..<n}) s s1" "procs s1 pr = Some N1"
    "\<forall>i < n. mapped_resp s1 N1 (addr_at b i) (rs ! i)"
    using allocate_memory_ok [OF ok(1) assms(2) ok(2) assms(3) alloc_spec_modes] by blast
  note e = extendedD [OF 1(3)]
  have rp: "range_pages s1 N1 b n = map (\<lambda>i. lookup s1 N1 (addr_at b i)) [0..<n]"
    using 1(5) by (auto simp: range_pages_def mapped_resp_def filter_id_conv)
  have st: "set (range_pages s1 N1 b n) = lookup s1 N1 ` addr_at b ` {..<n}"
    unfolding rp by (simp add: image_image atLeast0LessThan)
  have "length (range_pages s1 N1 b n) \<le> free_room N1" using assms(4) e(5) by (simp add: rp free_room_def)
  then obtain s2 N2 where 2: "ucm_deallocate_memory pr b (of_nat n * HUGEPAGE_SIZE) s1 = Inr (of_nat n, s2)"
    "kept pr s1 s2" "owner s2 = owner s1" "procs s2 pr = Some N2"
    "\<forall>v. lookup s2 N2 v = (if v \<in> addr_at b ` {..<n} then NULL else lookup s1 N1 v)"
    "ring_list (free_page_ring (mm N2)) = range_pages s1 N1 b n" "same_marks N1 N2"
    using deallocate_memory_ok [OF keptD(1) [OF 1(2)] 1(4), of b n "of_nat n * HUGEPAGE_SIZE"] range_ok_cover [OF r]
      e(5) assms(5) by (auto simp: rp)
  have "rings_short N2" using assms(6) 2(7) e(6,7) by (simp add: same_marks_def rings_short_def)
  then obtain d s3 where 3: "drain_run cfg pr N2 s2 d s3" "mm_drain_async_requests cfg pr s2 = Inr s3"
    using drain_sys_ok [OF keptD(1) [OF 2(2)] 2(4)] by blast
  have "owner s3 x = owner s x" for x
    using drain_owners(1) [OF keptD(1) [OF 2(2)] 2(4) 3(1), of x] e(1,2) [of x] unfolding 2(3,6) st by metis
  moreover have "lookup s2 N2 v = lookup s P v" for v
    using 2(5) e(3) [of v] assms(3) by (auto simp: allocatable_def)
  ultimately show ?thesis using 1(1) 2(1,4) 3(2) by blast
qed

theorem allocate_free_roundtrip_witness:
  "\<exists>rs s1 s2 s3. ucm_allocate_memory (get_alloc_fn_by_mode SLOWMEM_PREFERRED) proc2 0x40000000 0x200000 example_state = Inr (1, rs, s1) \<and>
    ucm_deallocate_memory proc2 0x40000000 0x200000 s1 = Inr (1, s2) \<and>
    mm_drain_async_requests run_cfg proc2 s2 = Inr s3 \<and> owner s3 = owner example_state"
proof -
  obtain P where P: "procs example_state proc2 = Some P" "pages_table (mm P) = [(0x200000, 7)]"
    "free_page_ring (mm P) = example_ring []" "hot_ring (mm P) = example_ring []" "cold_ring (mm P) = example_ring []"
    "process_clock P = (\<lambda>_. 0)"
    by (rule example_proc2)
  have "1 \<le> free_room P" "ring_list (free_page_ring (mm P)) = []" "rings_short P"
    using P(3-5) by (simp_all add: free_room_def rings_short_def)
  from allocate_free_roundtrip [OF example_sys_inv P(1) example_allocatable [OF P(2,6)] this, of SLOWMEM_PREFERRED run_cfg]
  show ?thesis by (simp add: HUGEPAGE_SIZE_def) blast
qed

section \<open>Migration\<close>

text \<open>
  C8: Demotion: migrating a process down returns and keeps the invariant, moves no page to
  another owner, changes no byte of a page, and shifts exactly the bytes it reports
  from the fast to the slow account of the process. It stops only because the requested
  bytes or the rate limit are reached, no page of the cold levels may move, or the slow
  tier is full.
\<close>

theorem migrate_down_correct:
  assumes "env_good env" and "sys_inv s" and "procs s pr = Some P"
    and "\<forall>p. owner s p = Some pr \<longrightarrow> \<not> in_free_ring (pages s p)"
  shows "\<exists>n s' N. process_migrate_down_bytes cfg env qos_find_demotion_candidate pr bytes s = Inr (n, s') \<and>
    sys_inv s' \<and> owner s' = owner s \<and> same_data s s' \<and> procs s' pr = Some N \<and>
    current_fastmem (mm N) = current_fastmem (mm P) - n \<and> current_slowmem (mm N) = current_slowmem (mm P) + n \<and>
    (bytes \<le> n \<or> PEBS_MIGRATE_RATE \<le> n \<or> page_seq s' Slowmem_Free = [] \<or>
     (\<forall>i < PEBS_MAX_DEMOTION_TIER. \<forall>p \<in> set (page_seq s' (Fastmem_Bin pr i)). \<not> migratable (scan_epoch s') (pages s' p)))"
proof -
  have ok: "sys_ok s" "quiet s pr" using assms(2,4) by (simp_all add: sys_inv_def quiet_def)
  obtain n s' where s': "process_migrate_down_bytes cfg env qos_find_demotion_candidate pr bytes s = Inr (n, s')"
    "loop_kept False pr P n s s'" "loop_stops False pr bytes n s'"
    using migrate_bytes_ok(1) [OF assms(1) ok(1) assms(3) ok(2)] by blast
  obtain N where N: "procs s' pr = Some N" "shifted_quota False n (mm P) (mm N)" using s'(2) by (auto simp: loop_kept_def)
  note k = loop_kept_kept [OF s'(2) assms(3)]
  have "bytes \<le> n \<or> PEBS_MIGRATE_RATE \<le> n \<or> page_seq s' Slowmem_Free = [] \<or>
     (\<forall>i < PEBS_MAX_DEMOTION_TIER. \<forall>p \<in> set (page_seq s' (Fastmem_Bin pr i)). \<not> migratable (scan_epoch s') (pages s' p))"
    using s'(3) by (auto simp: loop_stops_def find_None_iff searched_def search_levels_def movable_def tier_free_def
        atLeast0LessThan)
  then show ?thesis
    using s'(1) k(1,2) N kept_sys_inv [OF assms(2) k(1)] keptD(4) [OF k(1)] by (auto simp: shifted_quota_def)
qed

theorem migrate_down_correct_witness:
  "\<exists>n s' N. process_migrate_down_bytes run_cfg run_env qos_find_demotion_candidate proc2 0x200000 example_state = Inr (n, s') \<and>
    sys_inv s' \<and> owner s' = owner example_state \<and> same_data example_state s' \<and> procs s' proc2 = Some N \<and>
    current_fastmem (mm N) = 0x200000 - n"
proof -
  obtain P where P: "procs example_state proc2 = Some P" "current_fastmem (mm P) = 0x200000"
    by (rule example_proc2)
  have "\<forall>p. owner example_state p = Some proc2 \<longrightarrow> \<not> in_free_ring (pages example_state p)"
    by (simp add: example_owner) (simp add: example_page_defs)
  from migrate_down_correct [OF run_env_good example_sys_inv P(1) this, of run_cfg "0x200000"] show ?thesis
    using P(2) by auto
qed

text \<open>
  C9: Promotion, with PEBS sampling: the same in the other direction; it stops only because
  the requested bytes or the rate limit are reached, no page of the slow tier may move, or
  the fast tier is full.
\<close>

theorem migrate_up_correct:
  assumes "env_good env" and "CONFIG_PEBS cfg" and "sys_inv s" and "procs s pr = Some P"
    and "\<forall>p. owner s p = Some pr \<longrightarrow> \<not> in_free_ring (pages s p)"
  shows "\<exists>n s' N. process_migrate_up_bytes cfg env qos_find_promotion_candidate pr bytes s = Inr (n, s') \<and>
    sys_inv s' \<and> owner s' = owner s \<and> same_data s s' \<and> procs s' pr = Some N \<and>
    current_fastmem (mm N) = current_fastmem (mm P) + n \<and> current_slowmem (mm N) = current_slowmem (mm P) - n \<and>
    (bytes \<le> n \<or> PEBS_MIGRATE_RATE \<le> n \<or> page_seq s' Fastmem_Free = [] \<or>
     (\<forall>i < NUM_HOTNESS_LEVELS. \<forall>p \<in> set (page_seq s' (Slowmem_Bin pr i)). \<not> migratable (scan_epoch s') (pages s' p)))"
proof -
  have ok: "sys_ok s" "quiet s pr" using assms(3,5) by (simp_all add: sys_inv_def quiet_def)
  obtain n s' where s': "process_migrate_up_bytes cfg env qos_find_promotion_candidate pr bytes s = Inr (n, s')"
    "loop_kept True pr P n s s'" "loop_stops True pr bytes n s'"
    using migrate_bytes_ok(2) [OF assms(1) ok(1) assms(4) ok(2) assms(2)] by blast
  obtain N where N: "procs s' pr = Some N" "shifted_quota True n (mm P) (mm N)" using s'(2) by (auto simp: loop_kept_def)
  note k = loop_kept_kept [OF s'(2) assms(4)]
  have "bytes \<le> n \<or> PEBS_MIGRATE_RATE \<le> n \<or> page_seq s' Fastmem_Free = [] \<or>
     (\<forall>i < NUM_HOTNESS_LEVELS. \<forall>p \<in> set (page_seq s' (Slowmem_Bin pr i)). \<not> migratable (scan_epoch s') (pages s' p))"
    using s'(3) by (auto simp: loop_stops_def find_None_iff searched_def search_levels_def movable_def tier_free_def
        atLeast0LessThan)
  then show ?thesis
    using s'(1) k(1,2) N kept_sys_inv [OF assms(3) k(1)] keptD(4) [OF k(1)] by (auto simp: shifted_quota_def)
qed

theorem migrate_up_correct_witness:
  "\<exists>n s'. process_migrate_up_bytes run_cfg run_env qos_find_promotion_candidate proc2 0x200000 example_state = Inr (n, s') \<and>
    sys_inv s' \<and> owner s' = owner example_state \<and> same_data example_state s'"
proof -
  obtain P where P: "procs example_state proc2 = Some P" by (rule example_proc2)
  have "\<forall>p. owner example_state p = Some proc2 \<longrightarrow> \<not> in_free_ring (pages example_state p)"
    by (simp add: example_owner) (simp add: example_page_defs)
  moreover have "CONFIG_PEBS run_cfg" by (simp add: run_cfg_def)
  ultimately show ?thesis
    using migrate_up_correct [OF run_env_good _ example_sys_inv P, of run_cfg "0x200000"] by blast
qed



text \<open>The page of a process at an address, found by looking through its level lists.\<close>

definition scan_page :: "ucm_state \<Rightarrow> ptr \<Rightarrow> u64 \<Rightarrow> ptr" where
  "scan_page s pr v =
     (case find (\<lambda>p. va (pages s p) = v \<and> \<not> in_free_ring (pages s p))
        (concat (map (\<lambda>(f, i). page_seq s (bin f pr i)) all_bins)) of None \<Rightarrow> NULL | Some p \<Rightarrow> p)"

text \<open>
  C13: The hash table of a process is equivalent to its level lists: looking an address up in
  the table finds the page that a search through all level lists of the process for a page
  at this address that has not been freed finds.
\<close>

theorem find_page_equivalent:
  assumes "sys_inv s" and "procs s pr = Some P"
  shows "mm_find_page pr v s = Inr (scan_page s pr v)"
proof -
  let ?ps = "concat (map (\<lambda>(f, i). page_seq s (bin f pr i)) all_bins)" and ?f = "\<lambda>p. va (pages s p) = v \<and> \<not> in_free_ring (pages s p)"
  have ok: "sys_ok s" "ucm_inv s" "pl_wf s" using assms(1) by (simp_all add: sys_inv_def sys_ok_def ucm_inv_def)
  have ps: "p \<in> set ?ps \<longleftrightarrow> owner s p = Some pr" for p
  proof
    assume "owner s p = Some pr"
    then obtain f i where l: "pg_list s p = Some (bin f pr i)" by (auto simp: owner_eq)
    then have "i < NUM_HOTNESS_LEVELS" using ucm_inv_list [OF ok(2) l] by (simp add: list_ok_bin bin_page_def)
    then have "(f, i) \<in> set all_bins" by (cases f) (auto simp: all_bins_def)
    then show "p \<in> set ?ps" using l ok(3) by (auto simp: pl_wf_mem)
  qed (auto simp: owner_eq pl_wf_mem [OF ok(3)])
  have tk: "tab_ok (va_key s) (pages_table (mm P))" "tab_elems (pages_table (mm P)) = mapped s pr"
    using ok(1) assms(2) by (simp_all add: sys_ok_def proc_ok_def tables_ok_def)
  have "lookup s P v = scan_page s pr v"
  proof (cases "find ?f ?ps")
    case None
    have "lookup s P v = NULL"
    proof (rule ccontr)
      assume "lookup s P v \<noteq> NULL"
      then have m: "owner s (lookup s P v) = Some pr" "?f (lookup s P v)"
        using lookup_mapped [OF ok(1) assms(2), of v] by (simp_all add: mapped_def)
      then have "lookup s P v \<in> set ?ps" by (simp only: ps)
      then show False using None m(2) unfolding find_None_iff by blast
    qed
    then show ?thesis using None by (simp add: scan_page_def)
  next
    case (Some p)
    then have "p \<in> set ?ps" "?f p" unfolding find_Some_iff by (metis nth_mem)+
    then have p: "p \<in> tab_elems (pages_table (mm P))" "va_key s p = v" unfolding ps tk(2) mapped_def by simp_all
    then have "(v, p) \<in> set (pages_table (mm P))" using tab_okD(3) [OF tk(1) p(1)] p(2) by simp
    moreover have "p \<noteq> NULL" using tk(1) p(1) by (auto simp: tab_ok_def)
    ultimately have "lookup s P v = p" using HASH_FIND_eq [OF tk(1)] by blast
    then show ?thesis using Some by (simp add: scan_page_def)
  qed
  then show ?thesis using assms(2) by (simp add: mm_find_page_def)
qed

theorem find_page_equivalent_witness:
  "mm_find_page proc2 0x200000 example_state = Inr (scan_page example_state proc2 0x200000) \<and>
    scan_page example_state proc2 0x200000 = 7"
proof -
  obtain P where P: "procs example_state proc2 = Some P" "pages_table (mm P) = [(0x200000, 7)]" by (rule example_proc2)
  have l: "lookup example_state P 0x200000 = 7" using P(2) by (simp add: example_page_defs)
  show ?thesis using find_page_equivalent [OF example_sys_inv P(1), of "0x200000"] l P(1) by (simp add: mm_find_page_def)
qed

section \<open>Processes\<close>

text \<open>
  C16: Registration: adding a process with a new pid succeeds, the process is found under its
  pid, owns no page, and the invariant, the contents and the owners of all pages and the
  free lists are as before.
\<close>

theorem add_process_correct:
  assumes "sys_inv s" and "procs s a = None" and "a \<noteq> NULL" and "0 \<le> pd" and "find_process pd s = NULL"
    and "buffers_ok hb cb fb"
  shows "\<exists>s' P. ipc_handle_add_process cfg pd ratio zero a True (Some hb) (Some cb) (Some fb) s = Inr (a, s') \<and>
    sys_inv s' \<and> find_process pd s' = a \<and> procs s' = (procs s)(a \<mapsto> P) \<and> pid P = pd \<and>
    (\<forall>p. owner s' p \<noteq> Some a) \<and> owner s' = owner s \<and> same_data s s' \<and> page_seq s' = page_seq s"
proof -
  have "owner s p \<noteq> Some a" for p
    using assms(1,2) owner_some [of s p a] by (auto simp: sys_inv_def sys_ok_def)
  then show ?thesis using add_process_ok [OF assms, of cfg ratio zero] by auto
qed

theorem add_process_correct_witness:
  "\<exists>s' P. ipc_handle_add_process run_cfg 44 (Fin (1 / 2)) False 12288 True (Some run_buffer) (Some run_buffer)
      (Some run_buffer) example_state = Inr (12288, s') \<and> sys_inv s' \<and> find_process 44 s' = 12288 \<and>
    procs s' 12288 = Some P \<and> pid P = 44"
proof -
  have "procs example_state 12288 = None" "find_process 44 example_state = NULL" "buffers_ok run_buffer run_buffer run_buffer"
    by (simp_all add: example_proc_defs proc1_def proc2_def find_process_def HASH_FIND_def buffers_ok_def run_buffer_def)
  from add_process_correct [OF example_sys_inv this(1) _ _ this(2,3), of run_cfg "Fin (1 / 2)" False]
  show ?thesis by auto
qed



end
