(* ===== verification/Uffd.thy ===== *)
theory Uffd
  imports Ucm
begin

text \<open>
  The page fault handler of \<open>src/ucm/uffd.c\<close>: write-protection faults wait for the
  migration of the page to end, missing faults allocate a page, and unmap events free the
  pages of a range unless the manager caused them itself.

  The answers of the kernel and the application extend the environment of \<open>Migration\<close>.
\<close>

record uffd_env = ucm_env +
  env_migration_ends :: "ucm_state \<Rightarrow> ptr \<Rightarrow> bool"
  env_wait_us :: "ucm_state \<Rightarrow> ptr \<Rightarrow> u64"
  env_wake :: "ucm_state \<Rightarrow> ptr \<Rightarrow> ioctl_result"

section \<open>Write-protection faults\<close>

text \<open>
  The bounded wait spins until the page is no longer migrating or one second has passed;
  \<open>env_migration_ends\<close> says which comes first.
\<close>

definition bounded_migration_wait :: "uffd_env \<Rightarrow> ptr \<Rightarrow> ucm_state \<Rightarrow> bool" where
  "bounded_migration_wait env page s \<longleftrightarrow> \<not> migrating (pages s page) \<or> env_migration_ends env s page"

definition handle_wp_fault_inner :: "uffd_env \<Rightarrow> ptr \<Rightarrow> u64 \<Rightarrow> ucm_state \<Rightarrow> ucm_state result" where
  "handle_wp_fault_inner env process page_boundary s =
     assertC (process \<noteq> NULL) (
     andThen (mm_find_page process page_boundary s) (\<lambda>page.
     assertC (page \<noteq> NULL) (
     assertC (bounded_migration_wait env page s)
       (ucm_stats_record_migration_wait process (env_wait_us env s page) s))))"

definition handle_wp_fault :: "uffd_env \<Rightarrow> ptr \<Rightarrow> u64 \<Rightarrow> u64 \<Rightarrow> ucm_state \<Rightarrow> ucm_state result" where
  "handle_wp_fault env process page_boundary fault_addr s =
     (if physmem_mode s = USE_SHM \<and> fault_addr = page_boundary then Inr s
      else handle_wp_fault_inner env process page_boundary s)"

section \<open>Missing faults\<close>

definition after_remap :: "config \<Rightarrow> ptr \<Rightarrow> ipc_result \<Rightarrow> ucm_state \<Rightarrow> ucm_state result" where
  "after_remap cfg process status s =
     (case status of
        IPC_SUCCESS \<Rightarrow> Inr s
      | IPC_APP_EXITED \<Rightarrow> ucm_remove_process cfg process s
      | _ \<Rightarrow> Inl Assert_Fail)"

definition handle_missing_fault_unallocated :: "config \<Rightarrow> uffd_env \<Rightarrow> candidate_fn \<Rightarrow> ptr \<Rightarrow> u64 \<Rightarrow>
    ucm_state \<Rightarrow> ucm_state result" where
  "handle_missing_fault_unallocated cfg env alloc process page_boundary s =
     assertC (page_boundary \<noteq> 0) (
     andThen (alloc process s) (\<lambda>(page, s).
     assertC (page \<noteq> NULL) (
     andThen (get_proc process s) (\<lambda>pr.
     let offset = devdax_offset (pages s page); fast = in_dram (pages s page);
         pagesize = pt_to_pagesize (pt (pages s page));
         s = (if zero_pages pr
              then hemem_memset (devdax_offset_to_addr offset fast s) 0 pagesize s else s);
         s = s\<lparr>stats := (stats s)\<lparr>st_memsets := st_memsets (stats s) + 1\<rparr>\<rparr>;
         s = upd_page page (\<lambda>p. p\<lparr>pg_uffd := uffd pr, pg_pid := pid pr, va := page_boundary\<rparr>) s
     in assertC (va (pages s page) \<noteq> 0) (
        assertC (va (pages s page) mod HUGEPAGE_SIZE = 0) (
        let s = upd_page page (\<lambda>p. p\<lparr>migrations_up := 0, migrations_down := 0\<rparr>) s;
            s = s\<lparr>stats := (stats s)\<lparr>st_missing_faults_handled :=
                  st_missing_faults_handled (stats s) + 1\<rparr>\<rparr>
        in andThen (ucm_stats_record_page_allocated process pagesize s) (\<lambda>s.
           andThen (mm_add_page process page s) (\<lambda>s.
           let page_app = page_resp page_boundary (pages s page)
           in andThen (ipc_remap_pages (ucm_env.truncate env) process page_app s) (\<lambda>status.
              after_remap cfg process status s)))))))))"

definition handle_missing_fault_allocated :: "config \<Rightarrow> uffd_env \<Rightarrow> ptr \<Rightarrow> ptr \<Rightarrow> ucm_state \<Rightarrow>
    ucm_state result" where
  "handle_missing_fault_allocated cfg env process found_page s =
     andThen (upd_proc process (pstats_update (\<lambda>st.
       st\<lparr>miss_but_allocated_faults := miss_but_allocated_faults st + 1\<rparr>)) s) (\<lambda>s.
     let page_app = page_resp (va (pages s found_page)) (pages s found_page)
     in andThen (ipc_remap_pages (ucm_env.truncate env) process page_app s) (\<lambda>status.
        after_remap cfg process status s))"

definition handle_missing_fault :: "config \<Rightarrow> uffd_env \<Rightarrow> candidate_fn \<Rightarrow> ptr \<Rightarrow> u64 \<Rightarrow> ucm_state \<Rightarrow>
    ucm_state result" where
  "handle_missing_fault cfg env alloc process page_boundary s =
     andThen (upd_proc process (pstats_update (\<lambda>st. st\<lparr>miss_faults := miss_faults st + 1\<rparr>)) s) (\<lambda>s.
     andThen (mm_find_page process page_boundary s) (\<lambda>found_page.
     if found_page \<noteq> NULL then Inr s
     else handle_missing_fault_unallocated cfg env alloc process page_boundary s))"

section \<open>Events\<close>

definition UFFD_PAGEFAULT_FLAG_WP :: u64 where "UFFD_PAGEFAULT_FLAG_WP = 2"
definition UFFD_PAGEFAULT_FLAG_MINOR :: u64 where "UFFD_PAGEFAULT_FLAG_MINOR = 4"

definition handle_page_fault :: "config \<Rightarrow> uffd_env \<Rightarrow> candidate_fn \<Rightarrow> u64 \<Rightarrow> u64 \<Rightarrow> ptr \<Rightarrow> ucm_state \<Rightarrow>
    ucm_state result" where
  "handle_page_fault cfg env alloc fault_addr fault_flags process s =
     (let page_boundary = fault_addr AND NOT (get_default_page_size - 1)
      in assertC (page_boundary \<noteq> 0) (
         let is_wp = (fault_flags AND UFFD_PAGEFAULT_FLAG_WP \<noteq> 0);
             is_minor = (fault_flags AND UFFD_PAGEFAULT_FLAG_MINOR \<noteq> 0);
             is_missing = (\<not> is_minor \<and> \<not> is_wp)
         in andThen (if is_wp then handle_wp_fault env process page_boundary fault_addr s
                     else if is_missing then handle_missing_fault cfg env alloc process page_boundary s
                     else Inl Assert_Fail) (\<lambda>s.
            andThen (get_proc process s) (\<lambda>pr.
            case env_wake env s process of
              Ioctl_Ok \<Rightarrow> Inr s
            | Ioctl_Gone \<Rightarrow> assertC (exited pr) (Inr s)
            | Ioctl_Error \<Rightarrow> Inl Assert_Fail))))"

fun handle_page_unmap_loop :: "nat \<Rightarrow> u64 \<Rightarrow> u64 \<Rightarrow> ptr \<Rightarrow> ucm_state \<Rightarrow> ucm_state result" where
  "handle_page_unmap_loop 0 page_boundary range_end process s = Inl Out_Of_Fuel"
| "handle_page_unmap_loop (Suc fuel) page_boundary range_end process s =
     (if \<not> page_boundary < range_end then Inr s
      else andThen (mm_find_page process page_boundary s) (\<lambda>page.
        if page \<noteq> NULL
        then let pagesize = pt_to_pagesize (pt (pages s page))
             in andThen
                  (if migration_uffd_unmap_pending (pages s page)
                   then Inr (upd_page page (migration_uffd_unmap_pending_update (\<lambda>_. False)) s)
                   else if map_fixed_uffd_unmap_pending (pages s page)
                   then Inr (upd_page page (map_fixed_uffd_unmap_pending_update (\<lambda>_. False)) s)
                   else andThen (mm_remove_page process page s)
                          (ucm_stats_record_page_freed process pagesize))
                  (handle_page_unmap_loop fuel (page_boundary + pagesize) range_end process)
        else handle_page_unmap_loop fuel (page_boundary + get_default_page_size) range_end process s))"

definition handle_page_unmap :: "u64 \<Rightarrow> u64 \<Rightarrow> ptr \<Rightarrow> ucm_state \<Rightarrow> ucm_state result" where
  "handle_page_unmap start range_end process s =
     (let page_boundary = start AND NOT (get_default_page_size - 1)
      in handle_page_unmap_loop (range_fuel (range_end - page_boundary)) page_boundary range_end
           process s)"

datatype uffd_msg =
    UFFD_EVENT_UNMAP u64 u64
  | UFFD_EVENT_REMOVE u64 u64
  | UFFD_EVENT_REMAP u64 u64 u64
  | UFFD_EVENT_PAGEFAULT u64 u64
  | UFFD_EVENT_OTHER

fun handle_uffd_msg :: "config \<Rightarrow> uffd_env \<Rightarrow> candidate_fn \<Rightarrow> uffd_msg \<Rightarrow> ptr \<Rightarrow> ucm_state \<Rightarrow>
    ucm_state result" where
  "handle_uffd_msg cfg env alloc (UFFD_EVENT_UNMAP st en) process s = handle_page_unmap st en process s"
| "handle_uffd_msg cfg env alloc (UFFD_EVENT_REMOVE st en) process s = Inr s"
| "handle_uffd_msg cfg env alloc (UFFD_EVENT_REMAP from to len) process s = Inr s"
| "handle_uffd_msg cfg env alloc (UFFD_EVENT_PAGEFAULT addr flags) process s =
     handle_page_fault cfg env alloc addr flags process s"
| "handle_uffd_msg cfg env alloc UFFD_EVENT_OTHER process s = Inl Assert_Fail"

end
