(* ===== verification/Telemetry.thy ===== *)
theory Telemetry
  imports Migration
begin

text \<open>
  Access telemetry: the handler of the CXL access counters
  (\<open>src/ucm/telem/handler/cxl.c\<close>) and the scan that feeds it
  (\<open>src/ucm/telem/source/cxl.c\<close>), the handler of the processor's memory samples
  (\<open>src/ucm/telem/handler/pebs.c\<close>) and the scan of the kernel's sample buffers
  (\<open>src/ucm/telem/source/pebs.c\<close>), and the engine that polls both
  (\<open>src/ucm/telem/engine.c\<close>).

  Access counters are 64-bit words; a signed 64-bit delta is an integer, read off a word
  with \<open>sint\<close>, and negating the least one is undefined.
\<close>

definition PEBS_COOLING_THRESHOLD :: u64 where
  "PEBS_COOLING_THRESHOLD = push_bit NUM_HOTNESS_LEVELS 1"

definition CXL_COOLING_THRESHOLD :: "config \<Rightarrow> u64" where
  "CXL_COOLING_THRESHOLD cfg =
     (if CONFIG_CXL_TELEM cfg then PEBS_COOLING_THRESHOLD * 1024 else PEBS_COOLING_THRESHOLD)"

section \<open>CXL counters\<close>

text \<open>The parameters of this function are \<open>uint\<close>: 32 bits of the counters.\<close>

definition detect_hot_cxl_page :: "u64 \<Rightarrow> u64 \<Rightarrow> bool" where
  "detect_hot_cxl_page prev_cnt new_count =
     (let prev_cnt = (ucast prev_cnt :: u32); new_count = (ucast new_count :: u32);
          hot_thresh = (0 :: u64)
      in (ucast new_count :: u64) > (ucast prev_cnt :: u64) + hot_thresh \<or> new_count < prev_cnt)"

definition cxl_find_proc_page :: "u64 \<Rightarrow> ucm_state \<Rightarrow> (ptr \<times> ptr) result" where
  "cxl_find_proc_page offset s =
     andThen (mm_find_proc_by_cxl_offset offset s) (\<lambda>proc.
     if proc = NULL then Inr (NULL, NULL)
     else andThen (mm_find_page_by_cxl_offset proc offset s) (\<lambda>page.
          assertC (page = NULL \<or> \<not> in_dram (pages s page)) (Inr (proc, page))))"

definition counter_safe_add :: "u64 \<Rightarrow> int \<Rightarrow> u64 result" where
  "counter_safe_add a b =
     (if b \<ge> 0 then Inr (a + word_of_int b)
      else check Undefined (b \<noteq> - (2 ^ 63)) (
           let abs_b = word_of_int (- b)
           in if abs_b > a then Inr 0 else Inr (a - abs_b)))"

definition cool_accesses :: "hemem_process \<Rightarrow> hemem_page \<Rightarrow> hemem_page result" where
  "cool_accesses pr p =
     andThen (tmp_accesses pr p) (\<lambda>(a, b).
     Inr (p\<lparr>accesses := (accesses p)(FASTMEM := a, SLOWMEM := b),
            local_clock := (local_clock p)(FASTMEM := process_clock pr FASTMEM,
              SLOWMEM := process_clock pr SLOWMEM)\<rparr>))"

definition mark_hotness_change :: "ptr \<Rightarrow> ptr \<Rightarrow> nat \<Rightarrow> ucm_state \<Rightarrow> ucm_state result" where
  "mark_hotness_change proc page new_hotness s =
     (if new_hotness > hot (pages s page)
      then andThen (mm_mark_page_hot_async proc page s) (\<lambda>(_, s). Inr s)
      else if new_hotness < hot (pages s page)
      then andThen (mm_mark_page_cold_async proc page s) (\<lambda>(_, s). Inr s)
      else Inr s)"

definition cxl_page_update_stats :: "config \<Rightarrow> ptr \<Rightarrow> ptr \<Rightarrow> int \<Rightarrow> ucm_state \<Rightarrow> ucm_state result" where
  "cxl_page_update_stats cfg proc page delta s =
     andThen (counter_safe_add (accesses (pages s page) SLOWMEM) delta) (\<lambda>a.
     andThen (counter_safe_add (tot_accesses (pages s page) SLOWMEM) delta) (\<lambda>t.
     let s = upd_page page (\<lambda>p. p\<lparr>accesses := (accesses p)(SLOWMEM := a),
               tot_accesses := (tot_accesses p)(SLOWMEM := t)\<rparr>) s
     in andThen (if accesses (pages s page) SLOWMEM > CXL_COOLING_THRESHOLD cfg
                 then mm_request_soft_cool_slowmem proc s else Inr s) (\<lambda>s.
        andThen (get_proc proc s) (\<lambda>pr.
        andThen (cool_accesses pr (pages s page)) (\<lambda>p.
        let s = upd_page page (\<lambda>_. p) s;
            new_hotness = access_to_index cfg (accesses (pages s page) FASTMEM)
                            (accesses (pages s page) SLOWMEM)
        in mark_hotness_change proc page new_hotness s)))))"

definition cxl_calc_access_count_delta :: "u64 \<Rightarrow> u64 \<Rightarrow> ptr \<Rightarrow> ucm_state \<Rightarrow> int \<times> ucm_state" where
  "cxl_calc_access_count_delta prev_cnt curr_cnt page s =
     (let access_cnt_delta = (if curr_cnt > prev_cnt then curr_cnt - prev_cnt else curr_cnt);
          migration_comp = migration_access_comp (pages s page);
          s = upd_page page (migration_access_comp_update (\<lambda>_. 0)) s
      in (sint (access_cnt_delta - migration_comp), s))"

definition cxl_apply_access_count_delta :: "int \<Rightarrow> ptr \<Rightarrow> ptr \<Rightarrow> ucm_state \<Rightarrow> ucm_state result" where
  "cxl_apply_access_count_delta delta proc page s =
     andThen (get_proc proc s) (\<lambda>pr.
     let curr = access_count (policy pr) SLOWMEM
     in if delta > 0
        then upd_policy proc (\<lambda>po. po\<lparr>access_count :=
               (access_count po)(SLOWMEM := curr + word_of_int delta)\<rparr>) s
        else check Undefined (delta \<noteq> - (2 ^ 63)) (
             let delta_abs = word_of_int (- delta) :: u64
             in if delta_abs > curr
                then andThen (upd_policy proc (\<lambda>po. po\<lparr>access_count :=
                       (access_count po)(SLOWMEM := curr - curr)\<rparr>) s) (\<lambda>s.
                     if scan_epoch s \<le> last_migrated_epoch (pages s page) + 1
                     then let remaining_delta = word_of_int \<bar>delta\<bar> - curr
                          in Inr (upd_page page (\<lambda>p. p\<lparr>migration_access_comp :=
                               migration_access_comp p + remaining_delta\<rparr>) s)
                     else Inr s)
                else upd_policy proc (\<lambda>po. po\<lparr>access_count :=
                       (access_count po)(SLOWMEM := curr + word_of_int delta)\<rparr>) s))"

definition cxl_update_stats :: "config \<Rightarrow> u64 \<Rightarrow> u64 \<Rightarrow> ptr \<Rightarrow> ptr \<Rightarrow> ucm_state \<Rightarrow> ucm_state result" where
  "cxl_update_stats cfg prev_cnt curr_cnt proc page s =
     (let (delta, s) = cxl_calc_access_count_delta prev_cnt curr_cnt page s
      in andThen (if ordered_processes cfg then cxl_apply_access_count_delta delta proc page s
                  else Inr s) (cxl_page_update_stats cfg proc page delta))"

definition on_cxl_counter_update :: "config \<Rightarrow> u64 \<Rightarrow> u64 \<Rightarrow> u64 \<Rightarrow> ucm_state \<Rightarrow> ucm_state result" where
  "on_cxl_counter_update cfg offset prev_cnt curr_cnt s =
     (if curr_cnt = prev_cnt \<or> scan_epoch s = 0 then Inr s
      else if detect_hot_cxl_page prev_cnt curr_cnt
      then andThen (cxl_find_proc_page offset s) (\<lambda>(proc, page).
           if proc = NULL
           then Inr (s\<lparr>cxl_unknown_proc_sample_cnt := cxl_unknown_proc_sample_cnt s + 1\<rparr>)
           else if page = NULL
           then upd_proc proc (pstats_update (\<lambda>st.
                  st\<lparr>unknown_page_count := unknown_page_count st + 1\<rparr>)) s
           else cxl_update_stats cfg prev_cnt curr_cnt proc page s)
      else Inr s)"

text \<open>
  The scan over the counters: \<open>tmp_cnts\<close> are the differences the device driver has
  accumulated, \<open>cnts\<close> the running counts. The previous count is kept in an
  \<open>unsigned int\<close>.
\<close>

definition N_COUNTERS :: nat where "N_COUNTERS = 8192"

fun scan_counters :: "config \<Rightarrow> (nat \<Rightarrow> u64) \<Rightarrow> nat \<Rightarrow> nat list \<Rightarrow> (nat \<Rightarrow> u64) \<Rightarrow> ucm_state \<Rightarrow>
    ((nat \<Rightarrow> u64) \<times> ucm_state) result" where
  "scan_counters cfg tmp_cnts start [] cnts s = Inr (cnts, s)"
| "scan_counters cfg tmp_cnts start (i # is) cnts s =
     (let prev_cnt = (ucast (ucast (cnts i) :: u32) :: u64);
          cnts = cnts(i := cnts i + tmp_cnts i);
          curr_cnt = cnts i;
          cxl_devdax_offset = of_nat (i - start) * HUGEPAGE_SIZE
      in andThen (on_cxl_counter_update cfg cxl_devdax_offset prev_cnt curr_cnt s)
           (scan_counters cfg tmp_cnts start is cnts))"

definition cxl_epoch_scan :: "config \<Rightarrow> (nat \<Rightarrow> u64) \<Rightarrow> (nat \<Rightarrow> u64) \<Rightarrow> ucm_state \<Rightarrow>
    ((nat \<Rightarrow> u64) \<times> ucm_state) result" where
  "cxl_epoch_scan cfg tmp_cnts cnts s = scan_counters cfg tmp_cnts 0 [0..<N_COUNTERS] cnts s"

section \<open>Processor samples\<close>

definition get_basepage_index_in_hugepage :: "u64 \<Rightarrow> nat result" where
  "get_basepage_index_in_hugepage addr =
     (let base_page_num = unat (drop_bit 12 (addr AND 0x1FF000))
      in assertC (base_page_num < N_BASEPAGES_IN_HUGEPAGE) (Inr base_page_num))"

definition safe_add_uint32 :: "u32 \<Rightarrow> u32 \<Rightarrow> u32 option" where
  "safe_add_uint32 a b = (if a > - 1 - b then None else Some (a + b))"

definition halve_skewness_counters :: "hemem_page \<Rightarrow> hemem_page" where
  "halve_skewness_counters p =
     p\<lparr>subpage_skewness := map (drop_bit 1) (subpage_skewness p)\<rparr>"

definition update_skewness_counter :: "u64 \<Rightarrow> hemem_page \<Rightarrow> hemem_page result" where
  "update_skewness_counter addr p =
     andThen (get_basepage_index_in_hugepage addr) (\<lambda>i.
     check Out_Of_Bounds (i < length (subpage_skewness p)) (
     case safe_add_uint32 (subpage_skewness p ! i) 1 of
       Some v \<Rightarrow> Inr (p\<lparr>subpage_skewness := (subpage_skewness p)[i := v]\<rparr>)
     | None \<Rightarrow>
         let p = halve_skewness_counters p
         in Inr (p\<lparr>subpage_skewness := (subpage_skewness p)[i := subpage_skewness p ! i + 1]\<rparr>)))"

definition process_valid_pebs_sample :: "config \<Rightarrow> ptr \<Rightarrow> ptr \<Rightarrow> u64 \<Rightarrow> ucm_state \<Rightarrow> ucm_state result" where
  "process_valid_pebs_sample cfg process page sample_va s =
     (let new_hotness = access_to_index cfg (accesses (pages s page) FASTMEM)
                          (accesses (pages s page) SLOWMEM)
      in andThen (mark_hotness_change process page new_hotness s) (\<lambda>s.
         andThen (get_proc process s) (\<lambda>pr.
         andThen (cool_accesses pr (pages s page)) (\<lambda>p.
         andThen (if CONFIG_PEBS_SKEWNESS cfg then update_skewness_counter sample_va p else Inr p) (\<lambda>p.
         let s = upd_page page (\<lambda>_. p) s
         in if accesses (pages s page) FASTMEM > PEBS_COOLING_THRESHOLD
            then andThen (upd_mm process (epoch_did_cool_update (\<lambda>_. True)) s) (\<lambda>s.
                 andThen (mm_request_cool_fastmem process s) (\<lambda>s.
                 mm_request_cool_slowmem process s))
            else Inr s)))))"

datatype perf_event =
    PERF_RECORD_SAMPLE int u64
  | PERF_RECORD_THROTTLE
  | PERF_RECORD_UNTHROTTLE
  | PERF_RECORD_LOST_SAMPLES
  | PERF_RECORD_LOST
  | PERF_RECORD_OTHER

text \<open>The lookup of the process table of \<open>src/ucm/proc-mgr.c\<close> is in \<open>Process_Mgr\<close>.\<close>

definition process_perf_sample :: "config \<Rightarrow> int \<Rightarrow> u64 \<Rightarrow> nat \<Rightarrow> ucm_state \<Rightarrow> ucm_state result" where
  "process_perf_sample cfg sample_pid addr core_idx s =
     (let s = s\<lparr>g_pebs_stats := (g_pebs_stats s)\<lparr>total_samples_cnt :=
                total_samples_cnt (g_pebs_stats s) + 1\<rparr>\<rparr>
      in if addr = 0
         then Inr (s\<lparr>g_pebs_stats := (g_pebs_stats s)\<lparr>zero_pages_cnt :=
                zero_pages_cnt (g_pebs_stats s) + 1\<rparr>\<rparr>)
         else
           let process = find_process sample_pid s
           in if process = NULL
              then Inr (s\<lparr>g_pebs_stats := (g_pebs_stats s)\<lparr>non_hemem_proc_samples_cnt :=
                     non_hemem_proc_samples_cnt (g_pebs_stats s) + 1\<rparr>\<rparr>)
              else andThen (mm_find_page process (addr AND HUGE_PFN_MASK) s) (\<lambda>page.
                if page = NULL
                then Inr (s\<lparr>g_pebs_stats := (g_pebs_stats s)\<lparr>non_hemem_page_samples_cnt :=
                       non_hemem_page_samples_cnt (g_pebs_stats s) + 1\<rparr>\<rparr>)
                else
                  let s = s\<lparr>g_pebs_stats := (g_pebs_stats s)\<lparr>valid_samples_cnt :=
                            valid_samples_cnt (g_pebs_stats s) + 1,
                            cxl_samples_cnt := cxl_samples_cnt (g_pebs_stats s) +
                              (if \<not> in_dram (pages s page) then 1 else 0)\<rparr>\<rparr>
                  in assertC (va (pages s page) \<noteq> 0) (
                     andThen (upd_policy process (\<lambda>po. po\<lparr>sample_count :=
                       (sample_count po)(core_idx := sample_count po core_idx + 1)\<rparr>) s) (\<lambda>s.
                     let tier = (if in_dram (pages s page) then FASTMEM else SLOWMEM);
                         count_cxl_sample = (\<not> CONFIG_CXL_TELEM cfg);
                         do_update = (tier = FASTMEM \<or> (tier = SLOWMEM \<and> count_cxl_sample))
                     in if do_update
                        then andThen (if ordered_processes cfg
                               then upd_policy process (\<lambda>po. po\<lparr>access_count :=
                                      (access_count po)(tier := access_count po tier + 1)\<rparr>) s
                               else Inr s) (\<lambda>s.
                             let s = upd_page page (\<lambda>p. p\<lparr>
                                       accesses := (accesses p)(tier := accesses p tier + 1),
                                       tot_accesses := (tot_accesses p)(tier := tot_accesses p tier + 1)\<rparr>) s
                             in process_valid_pebs_sample cfg process page addr s)
                        else Inr s))))"

fun on_pebs_sample_received :: "config \<Rightarrow> perf_event \<Rightarrow> nat \<Rightarrow> ucm_state \<Rightarrow> ucm_state result" where
  "on_pebs_sample_received cfg (PERF_RECORD_SAMPLE sample_pid addr) core_idx s =
     process_perf_sample cfg sample_pid addr core_idx s"
| "on_pebs_sample_received cfg PERF_RECORD_THROTTLE core_idx s =
     Inr (s\<lparr>g_pebs_stats := (g_pebs_stats s)\<lparr>throttle_cnt := throttle_cnt (g_pebs_stats s) + 1\<rparr>\<rparr>)"
| "on_pebs_sample_received cfg PERF_RECORD_UNTHROTTLE core_idx s =
     Inr (s\<lparr>g_pebs_stats := (g_pebs_stats s)\<lparr>unthrottle_cnt := unthrottle_cnt (g_pebs_stats s) + 1\<rparr>\<rparr>)"
| "on_pebs_sample_received cfg PERF_RECORD_LOST_SAMPLES core_idx s =
     Inr (s\<lparr>g_pebs_stats := (g_pebs_stats s)\<lparr>lost_samples := lost_samples (g_pebs_stats s) + 1\<rparr>\<rparr>)"
| "on_pebs_sample_received cfg PERF_RECORD_LOST core_idx s =
     Inr (s\<lparr>g_pebs_stats := (g_pebs_stats s)\<lparr>lost_samples := lost_samples (g_pebs_stats s) + 1\<rparr>\<rparr>)"
| "on_pebs_sample_received cfg PERF_RECORD_OTHER core_idx s = Inr s"

section \<open>The sample buffer of a core\<close>

text \<open>
  The kernel's buffer: \<open>pb_record off\<close> is the size and the contents of the record that
  starts at offset \<open>off\<close>. The loop is given the number of bytes between tail and head as
  fuel: a record is not empty.
\<close>

record perf_buffer =
  pb_data_size :: u64
  pb_data_head :: u64
  pb_data_tail :: u64
  pb_record :: "u64 \<Rightarrow> u64 \<times> perf_event"

fun pebs_scan_loop :: "(perf_event \<Rightarrow> 's \<Rightarrow> 's result) \<Rightarrow> nat \<Rightarrow> perf_buffer \<Rightarrow> 's \<Rightarrow> (perf_buffer \<times> 's) result" where
  "pebs_scan_loop handler 0 p s = Inl Out_Of_Fuel"
| "pebs_scan_loop handler (Suc fuel) p s =
     (if \<not> pb_data_head p > pb_data_tail p then Inr (p, s)
      else
        let off = pb_data_tail p mod pb_data_size p; (sz, event) = pb_record p off
        in andThen (if off + sz \<ge> pb_data_size p then Inr s else handler event s)
             (pebs_scan_loop handler fuel (p\<lparr>pb_data_tail := pb_data_tail p + sz\<rparr>)))"

definition pebs_scan :: "(perf_event \<Rightarrow> 's \<Rightarrow> 's result) \<Rightarrow> perf_buffer \<Rightarrow> 's \<Rightarrow> (perf_buffer \<times> 's) result" where
  "pebs_scan handler p s =
     (if pb_data_head p = pb_data_tail p then Inr (p, s)
      else assertC (pb_data_head p > pb_data_tail p)
             (pebs_scan_loop handler (Suc (unat (pb_data_head p - pb_data_tail p))) p s))"

fun pebs_scan_cores :: "config \<Rightarrow> nat list \<Rightarrow> (nat \<Rightarrow> perf_buffer) \<Rightarrow> ucm_state \<Rightarrow>
    ((nat \<Rightarrow> perf_buffer) \<times> ucm_state) result" where
  "pebs_scan_cores cfg [] bufs s = Inr (bufs, s)"
| "pebs_scan_cores cfg (i # is) bufs s =
     andThen (pebs_scan (\<lambda>ev. on_pebs_sample_received cfg ev i) (bufs i) s) (\<lambda>(p, s).
     pebs_scan_cores cfg is (bufs(i := p)) s)"

definition HEMEM_NCORES :: nat where "HEMEM_NCORES = 56"

text \<open>\<open>last_thread\<close> is the core of the manager's last thread, which depends on the build.\<close>

definition pebs_epoch_scan :: "config \<Rightarrow> nat \<Rightarrow> (nat \<Rightarrow> perf_buffer) \<Rightarrow> ucm_state \<Rightarrow>
    ((nat \<Rightarrow> perf_buffer) \<times> ucm_state) result" where
  "pebs_epoch_scan cfg last_thread bufs s =
     pebs_scan_cores cfg [last_thread + 1..<HEMEM_NCORES] bufs s"

definition telem_engine_poll :: "config \<Rightarrow> nat \<Rightarrow> (nat \<Rightarrow> u64) \<Rightarrow> (nat \<Rightarrow> perf_buffer) \<Rightarrow> (nat \<Rightarrow> u64) \<Rightarrow>
    ucm_state \<Rightarrow> ((nat \<Rightarrow> perf_buffer) \<times> (nat \<Rightarrow> u64) \<times> ucm_state) result" where
  "telem_engine_poll cfg last_thread tmp_cnts bufs cnts s =
     andThen (if CONFIG_PEBS cfg then pebs_epoch_scan cfg last_thread bufs s else Inr (bufs, s)) (\<lambda>(bufs, s).
     andThen (if CONFIG_CXL_TELEM cfg then cxl_epoch_scan cfg tmp_cnts cnts s else Inr (cnts, s)) (\<lambda>(cnts, s).
     Inr (bufs, cnts, s)))"

end
