(* ===== verification/Uthash.thy ===== *)
theory Uthash
  imports Dll
begin

text \<open>
  The intrusive hash tables of \<open>src/ucm/ds/uthash.h\<close> at the level of their pointers. A
  table is a head element, an array of buckets and the handles of its elements; a handle
  links its element into two lists, the list of all elements in the order they were added
  and the chain of its bucket. All handles of a table are at the same offset in their
  elements, so a handle is named by its element, and the handles' \<open>tbl\<close> fields all point at
  the one table of the record. The contents of the keys are in the elements and are an
  argument of the lookups. Only the macros the manager uses are modelled, with the default
  hash function, the integrity check of debug builds, and \<open>exit\<close> on a failed \<open>malloc\<close>.
\<close>

type_synonym byte = "8 word"

section \<open>The hash function\<close>

definition HASH_JEN_MIX :: "u32 \<times> u32 \<times> u32 \<Rightarrow> u32 \<times> u32 \<times> u32" where
  "HASH_JEN_MIX = (\<lambda>(a, b, c).
     let a = a - b; a = a - c; a = a XOR drop_bit 13 c;
         b = b - c; b = b - a; b = b XOR push_bit 8 a;
         c = c - a; c = c - b; c = c XOR drop_bit 13 b;
         a = a - b; a = a - c; a = a XOR drop_bit 12 c;
         b = b - c; b = b - a; b = b XOR push_bit 16 a;
         c = c - a; c = c - b; c = c XOR drop_bit 5 b;
         a = a - b; a = a - c; a = a XOR drop_bit 3 c;
         b = b - c; b = b - a; b = b XOR push_bit 10 a;
         c = c - a; c = c - b; c = c XOR drop_bit 15 b
     in (a, b, c))"

definition key_byte :: "byte list \<Rightarrow> nat \<Rightarrow> nat \<Rightarrow> u32" where
  "key_byte key i sh = push_bit sh (ucast (key ! i))"

definition key_word :: "byte list \<Rightarrow> nat \<Rightarrow> u32" where
  "key_word key i = key_byte key i 0 + key_byte key (i + 1) 8 + key_byte key (i + 2) 16 + key_byte key (i + 3) 24"

function jen_blocks :: "u32 \<times> u32 \<times> u32 \<Rightarrow> byte list \<Rightarrow> (u32 \<times> u32 \<times> u32) \<times> byte list" where
  "jen_blocks st key =
     (if 12 \<le> length key
      then let (i, j, hashv) = st
           in jen_blocks (HASH_JEN_MIX (i + key_word key 0, j + key_word key 4, hashv + key_word key 8)) (drop 12 key)
      else (st, key))"
  by pat_completeness auto
termination by (relation "measure (length \<circ> snd)") auto

definition jen_tail :: "byte list \<Rightarrow> nat \<Rightarrow> nat \<Rightarrow> u32" where
  "jen_tail key i sh = (if i < length key then key_byte key i sh else 0)"

text \<open>The \<open>switch\<close> falls through: a remaining byte is added in every case above its index.\<close>

definition HASH_JEN :: "byte list \<Rightarrow> u32" where
  "HASH_JEN key =
     (let ((i, j, hashv), rest) = jen_blocks (0x9e3779b9, 0x9e3779b9, 0xfeedbeef) key;
          hashv = hashv + of_nat (length key);
          hashv = hashv + jen_tail rest 10 24 + jen_tail rest 9 16 + jen_tail rest 8 8;
          j = j + jen_tail rest 7 24 + jen_tail rest 6 16 + jen_tail rest 5 8 + jen_tail rest 4 0;
          i = i + jen_tail rest 3 24 + jen_tail rest 2 16 + jen_tail rest 1 8 + jen_tail rest 0 0
      in snd (snd (HASH_JEN_MIX (i, j, hashv))))"

definition HASH_VALUE :: "byte list \<Rightarrow> u32" where
  "HASH_VALUE key = HASH_JEN key"

section \<open>Tables\<close>

record UT_hash_bucket =
  hh_head :: ptr
  bk_count :: u32
  expand_mult :: u32

record UT_hash_table =
  buckets :: "u32 \<Rightarrow> UT_hash_bucket"
  num_buckets :: u32
  log2_num_buckets :: u32
  num_items :: u32
  ut_tail :: ptr
  ideal_chain_maxlen :: u32
  nonideal_items :: u32
  ineff_expands :: u32
  noexpand :: u32

record ut_heap =
  ut_head :: ptr
  ut_tbl :: UT_hash_table
  el_prev :: "ptr \<Rightarrow> ptr"
  el_next :: "ptr \<Rightarrow> ptr"
  hh_prev :: "ptr \<Rightarrow> ptr"
  hh_next :: "ptr \<Rightarrow> ptr"
  hh_keylen :: "ptr \<Rightarrow> u32"
  hh_hashv :: "ptr \<Rightarrow> u32"

definition HASH_INITIAL_NUM_BUCKETS :: u32 where "HASH_INITIAL_NUM_BUCKETS = 2097152"
definition HASH_INITIAL_NUM_BUCKETS_LOG2 :: u32 where "HASH_INITIAL_NUM_BUCKETS_LOG2 = 21"
definition HASH_BKT_CAPACITY_THRESH :: u32 where "HASH_BKT_CAPACITY_THRESH = 10"

definition zero_bucket :: UT_hash_bucket where
  "zero_bucket = \<lparr>hh_head = NULL, bk_count = 0, expand_mult = 0\<rparr>"

definition HASH_TO_BKT :: "u32 \<Rightarrow> u32 \<Rightarrow> u32" where
  "HASH_TO_BKT hashv num_bkts = hashv AND (num_bkts - 1)"

section \<open>Lookup\<close>

fun find_in_bkt_loop :: "(ptr \<Rightarrow> byte list) \<Rightarrow> nat \<Rightarrow> byte list \<Rightarrow> u32 \<Rightarrow> ptr \<Rightarrow> ut_heap \<Rightarrow> ptr result" where
  "find_in_bkt_loop key_of 0 key hashval out t = Inl Out_Of_Fuel"
| "find_in_bkt_loop key_of (Suc fuel) key hashval out t =
     (if out = NULL then Inr NULL
      else if hh_hashv t out = hashval \<and> hh_keylen t out = of_nat (length key) \<and>
              take (length key) (key_of out) = key
      then Inr out
      else find_in_bkt_loop key_of fuel key hashval (hh_next t out) t)"

definition HASH_FIND_IN_BKT :: "(ptr \<Rightarrow> byte list) \<Rightarrow> u32 \<Rightarrow> byte list \<Rightarrow> u32 \<Rightarrow> ut_heap \<Rightarrow> ptr result" where
  "HASH_FIND_IN_BKT key_of bkt key hashval t =
     find_in_bkt_loop key_of (Suc (unat (bk_count (buckets (ut_tbl t) bkt)))) key hashval
       (hh_head (buckets (ut_tbl t) bkt)) t"

definition HASH_FIND_BYHASHVALUE :: "(ptr \<Rightarrow> byte list) \<Rightarrow> byte list \<Rightarrow> u32 \<Rightarrow> ut_heap \<Rightarrow> ptr result" where
  "HASH_FIND_BYHASHVALUE key_of key hashval t =
     (if ut_head t = NULL then Inr NULL
      else HASH_FIND_IN_BKT key_of (HASH_TO_BKT hashval (num_buckets (ut_tbl t))) key hashval t)"

definition HASH_FIND_hh :: "(ptr \<Rightarrow> byte list) \<Rightarrow> byte list \<Rightarrow> ut_heap \<Rightarrow> ptr result" where
  "HASH_FIND_hh key_of key t =
     (if ut_head t = NULL then Inr NULL else HASH_FIND_BYHASHVALUE key_of key (HASH_VALUE key) t)"

section \<open>Insertion\<close>

text \<open>
  One element of an old chain goes to the front of its new chain. \<open>rehash\<close> is what the
  redistribution changes: the new buckets, the count of badly placed elements and the
  chain links.
\<close>

record rehash =
  new_buckets :: "u32 \<Rightarrow> UT_hash_bucket"
  re_nonideal :: u32
  re_prev :: "ptr \<Rightarrow> ptr"
  re_next :: "ptr \<Rightarrow> ptr"

definition rehash_one :: "ut_heap \<Rightarrow> u32 \<Rightarrow> ptr \<Rightarrow> rehash \<Rightarrow> rehash" where
  "rehash_one t ideal thh r =
     (let bkt = HASH_TO_BKT (hh_hashv t thh) (num_buckets (ut_tbl t) * 2);
          b = new_buckets r bkt;
          b = b\<lparr>bk_count := bk_count b + 1\<rparr>;
          r = (if bk_count b > ideal then r\<lparr>re_nonideal := re_nonideal r + 1\<rparr> else r);
          b = (if bk_count b > ideal \<and> bk_count b > expand_mult b * ideal
               then b\<lparr>expand_mult := expand_mult b + 1\<rparr> else b);
          pv = (re_prev r)(thh := NULL);
          nx = (re_next r)(thh := hh_head b);
          pv = (if hh_head b \<noteq> NULL then pv(hh_head b := thh) else pv);
          b = b\<lparr>hh_head := thh\<rparr>
      in r\<lparr>new_buckets := (new_buckets r)(bkt := b), re_prev := pv, re_next := nx\<rparr>)"

fun rehash_chain :: "ut_heap \<Rightarrow> u32 \<Rightarrow> nat \<Rightarrow> ptr \<Rightarrow> rehash \<Rightarrow> rehash result" where
  "rehash_chain t ideal 0 thh r = Inl Out_Of_Fuel"
| "rehash_chain t ideal (Suc fuel) thh r =
     (if thh = NULL then Inr r
      else let nxt = re_next r thh in rehash_chain t ideal fuel nxt (rehash_one t ideal thh r))"

fun rehash_buckets :: "ut_heap \<Rightarrow> u32 \<Rightarrow> u32 list \<Rightarrow> rehash \<Rightarrow> rehash result" where
  "rehash_buckets t ideal [] r = Inr r"
| "rehash_buckets t ideal (i # is) r =
     andThen (rehash_chain t ideal (Suc (unat (bk_count (buckets (ut_tbl t) i)))) (hh_head (buckets (ut_tbl t) i)) r)
       (rehash_buckets t ideal is)"

definition HASH_EXPAND_BUCKETS :: "bool \<Rightarrow> ut_heap \<Rightarrow> ut_heap result" where
  "HASH_EXPAND_BUCKETS malloc t =
     (if \<not> malloc then Inl Exit
      else check Undefined (log2_num_buckets (ut_tbl t) + 1 < 32) (
        let ideal = drop_bit (unat (log2_num_buckets (ut_tbl t) + 1)) (num_items (ut_tbl t)) +
              (if num_items (ut_tbl t) AND (num_buckets (ut_tbl t) * 2 - 1) \<noteq> 0 then 1 else 0)
        in andThen (rehash_buckets t ideal (map of_nat [0..<unat (num_buckets (ut_tbl t))])
             \<lparr>new_buckets = (\<lambda>_. zero_bucket), re_nonideal = 0, re_prev = hh_prev t, re_next = hh_next t\<rparr>) (\<lambda>r.
           let ineff = (if re_nonideal r > drop_bit 1 (num_items (ut_tbl t)) then ineff_expands (ut_tbl t) + 1 else 0)
           in Inr (t\<lparr>hh_prev := re_prev r, hh_next := re_next r,
                ut_tbl := (ut_tbl t)\<lparr>buckets := new_buckets r,
                  num_buckets := num_buckets (ut_tbl t) * 2,
                  log2_num_buckets := log2_num_buckets (ut_tbl t) + 1,
                  ideal_chain_maxlen := ideal,
                  nonideal_items := re_nonideal r,
                  ineff_expands := ineff,
                  noexpand := (if ineff > 1 then 1 else noexpand (ut_tbl t))\<rparr>\<rparr>))))"

definition HASH_ADD_TO_BKT :: "bool \<Rightarrow> u32 \<Rightarrow> ptr \<Rightarrow> ut_heap \<Rightarrow> ut_heap result" where
  "HASH_ADD_TO_BKT malloc bkt addhh t =
     (let b = buckets (ut_tbl t) bkt;
          b = b\<lparr>bk_count := bk_count b + 1\<rparr>;
          nx = (hh_next t)(addhh := hh_head b);
          pv = (hh_prev t)(addhh := NULL);
          pv = (if hh_head b \<noteq> NULL then pv(hh_head b := addhh) else pv);
          b = b\<lparr>hh_head := addhh\<rparr>;
          t = t\<lparr>hh_next := nx, hh_prev := pv, ut_tbl := (ut_tbl t)\<lparr>buckets := (buckets (ut_tbl t))(bkt := b)\<rparr>\<rparr>
      in if bk_count b \<ge> (expand_mult b + 1) * HASH_BKT_CAPACITY_THRESH \<and> noexpand (ut_tbl t) = 0
         then HASH_EXPAND_BUCKETS malloc t else Inr t)"

definition HASH_ADD_TO_TABLE :: "bool \<Rightarrow> u32 \<Rightarrow> ptr \<Rightarrow> ut_heap \<Rightarrow> ut_heap result" where
  "HASH_ADD_TO_TABLE malloc hashval add t =
     (let t = t\<lparr>ut_tbl := (ut_tbl t)\<lparr>num_items := num_items (ut_tbl t) + 1\<rparr>\<rparr>
      in HASH_ADD_TO_BKT malloc (HASH_TO_BKT hashval (num_buckets (ut_tbl t))) add t)"

definition HASH_MAKE_TABLE :: "bool \<Rightarrow> ptr \<Rightarrow> ut_heap \<Rightarrow> ut_heap result" where
  "HASH_MAKE_TABLE malloc add t =
     (if \<not> malloc then Inl Exit
      else Inr (t\<lparr>ut_tbl := \<lparr>buckets = (\<lambda>_. zero_bucket), num_buckets = HASH_INITIAL_NUM_BUCKETS,
        log2_num_buckets = HASH_INITIAL_NUM_BUCKETS_LOG2, num_items = 0, ut_tail = add,
        ideal_chain_maxlen = 0, nonideal_items = 0, ineff_expands = 0, noexpand = 0\<rparr>\<rparr>))"

definition HASH_APPEND_LIST :: "ptr \<Rightarrow> ut_heap \<Rightarrow> ut_heap" where
  "HASH_APPEND_LIST add t =
     t\<lparr>el_next := (el_next t)(add := NULL, ut_tail (ut_tbl t) := add),
       el_prev := (el_prev t)(add := ut_tail (ut_tbl t)),
       ut_tbl := (ut_tbl t)\<lparr>ut_tail := add\<rparr>\<rparr>"

definition HASH_ADD_KEYPTR_BYHASHVALUE :: "bool \<Rightarrow> byte list \<Rightarrow> u32 \<Rightarrow> ptr \<Rightarrow> ut_heap \<Rightarrow> ut_heap result" where
  "HASH_ADD_KEYPTR_BYHASHVALUE malloc key hashval add t =
     (let t = t\<lparr>hh_hashv := (hh_hashv t)(add := hashval), hh_keylen := (hh_keylen t)(add := of_nat (length key))\<rparr>
      in andThen
           (if ut_head t = NULL
            then let t = t\<lparr>el_next := (el_next t)(add := NULL), el_prev := (el_prev t)(add := NULL)\<rparr>
                 in andThen (HASH_MAKE_TABLE malloc add t) (\<lambda>t. Inr (t\<lparr>ut_head := add\<rparr>))
            else Inr (HASH_APPEND_LIST add t))
           (HASH_ADD_TO_TABLE malloc hashval add))"

definition HASH_ADD_hh :: "bool \<Rightarrow> byte list \<Rightarrow> ptr \<Rightarrow> ut_heap \<Rightarrow> ut_heap result" where
  "HASH_ADD_hh malloc key add t = HASH_ADD_KEYPTR_BYHASHVALUE malloc key (HASH_VALUE key) add t"

section \<open>Deletion\<close>

definition HASH_DEL_IN_BKT :: "u32 \<Rightarrow> ptr \<Rightarrow> ut_heap \<Rightarrow> ut_heap" where
  "HASH_DEL_IN_BKT bkt delhh t =
     (let b = buckets (ut_tbl t) bkt;
          b = b\<lparr>bk_count := bk_count b - 1\<rparr>;
          b = (if hh_head b = delhh then b\<lparr>hh_head := hh_next t delhh\<rparr> else b);
          nx = (if hh_prev t delhh \<noteq> NULL then (hh_next t)(hh_prev t delhh := hh_next t delhh) else hh_next t);
          pv = (if nx delhh \<noteq> NULL then (hh_prev t)(nx delhh := hh_prev t delhh) else hh_prev t)
      in t\<lparr>hh_next := nx, hh_prev := pv, ut_tbl := (ut_tbl t)\<lparr>buckets := (buckets (ut_tbl t))(bkt := b)\<rparr>\<rparr>)"

definition HASH_DELETE_hh :: "ptr \<Rightarrow> ut_heap \<Rightarrow> ut_heap result" where
  "HASH_DELETE_hh del t =
     check Null_Deref (ut_head t \<noteq> NULL) (
       if el_prev t del = NULL \<and> el_next t del = NULL then Inr (t\<lparr>ut_head := NULL\<rparr>)
       else
         let t = (if del = ut_tail (ut_tbl t) then t\<lparr>ut_tbl := (ut_tbl t)\<lparr>ut_tail := el_prev t del\<rparr>\<rparr> else t);
             t = (if el_prev t del \<noteq> NULL
                  then t\<lparr>el_next := (el_next t)(el_prev t del := el_next t del)\<rparr>
                  else t\<lparr>ut_head := el_next t del\<rparr>);
             t = (if el_next t del \<noteq> NULL
                  then t\<lparr>el_prev := (el_prev t)(el_next t del := el_prev t del)\<rparr> else t);
             t = HASH_DEL_IN_BKT (HASH_TO_BKT (hh_hashv t del) (num_buckets (ut_tbl t))) del t
         in Inr (t\<lparr>ut_tbl := (ut_tbl t)\<lparr>num_items := num_items (ut_tbl t) - 1\<rparr>\<rparr>))"

section \<open>Integrity check\<close>

text \<open>
  The check of debug builds walks a chain, compares every back link with the element it
  came from, and counts. \<open>Exit\<close> is its \<open>HASH_OOPS\<close>.
\<close>

fun fsck_walk :: "(ptr \<Rightarrow> ptr) \<Rightarrow> (ptr \<Rightarrow> ptr) \<Rightarrow> nat \<Rightarrow> ptr \<Rightarrow> ptr \<Rightarrow> u32 \<Rightarrow> u32 result" where
  "fsck_walk nx pv 0 prev thh count = Inl Out_Of_Fuel"
| "fsck_walk nx pv (Suc fuel) prev thh count =
     (if thh = NULL then Inr count
      else check Exit (prev = pv thh) (fsck_walk nx pv fuel thh (nx thh) (count + 1)))"

fun fsck_buckets :: "ut_heap \<Rightarrow> u32 list \<Rightarrow> u32 \<Rightarrow> u32 result" where
  "fsck_buckets t [] count = Inr count"
| "fsck_buckets t (i # is) count =
     andThen (fsck_walk (hh_next t) (hh_prev t) (2 ^ 32) NULL (hh_head (buckets (ut_tbl t) i)) 0) (\<lambda>bkt_count.
     check Exit (bk_count (buckets (ut_tbl t) i) = bkt_count) (fsck_buckets t is (count + bkt_count)))"

definition HASH_FSCK :: "ut_heap \<Rightarrow> unit result" where
  "HASH_FSCK t =
     (if ut_head t = NULL then Inr ()
      else andThen (fsck_buckets t (map of_nat [0..<unat (num_buckets (ut_tbl t))]) 0) (\<lambda>count.
           check Exit (count = num_items (ut_tbl t)) (
           andThen (fsck_walk (el_next t) (el_prev t) (2 ^ 32) NULL (ut_head t) 0) (\<lambda>count.
           check Exit (count = num_items (ut_tbl t)) (Inr ())))))"

definition HASH_CNT :: "ut_heap \<Rightarrow> u32" where
  "HASH_CNT t = (if ut_head t \<noteq> NULL then num_items (ut_tbl t) else 0)"

definition HASH_CLEAR :: "ut_heap \<Rightarrow> ut_heap" where
  "HASH_CLEAR t = (if ut_head t \<noteq> NULL then t\<lparr>ut_head := NULL\<rparr> else t)"

end
