(* ===== verification/Uthash_Correct.thy ===== *)
theory Uthash_Correct
  imports Uthash
begin

text \<open>
  Correctness of the hash tables of \<open>Uthash\<close>. A table is in order when its two kinds of
  lists are well linked, every element is on the chain its hash value selects, and the
  counts are right. Insertion, with the doubling of the buckets it may trigger, and
  deletion keep tables in order, and a lookup finds the element with the key.
\<close>

section \<open>Chains\<close>

definition bchain :: "(ptr \<Rightarrow> ptr) \<Rightarrow> (ptr \<Rightarrow> ptr) \<Rightarrow> UT_hash_bucket \<Rightarrow> ptr list \<Rightarrow> bool" where
  "bchain nx pv b xs \<longleftrightarrow> links nx pv NULL xs NULL \<and> distinct xs \<and> NULL \<notin> set xs \<and>
     hh_head b = first_of xs NULL \<and> bk_count b = of_nat (length xs)"

definition bchains :: "(ptr \<Rightarrow> ptr) \<Rightarrow> (ptr \<Rightarrow> ptr) \<Rightarrow> (u32 \<Rightarrow> UT_hash_bucket) \<Rightarrow> (ptr \<Rightarrow> u32) \<Rightarrow> u32 \<Rightarrow> ptr set \<Rightarrow> bool" where
  "bchains nx pv bs h n P \<longleftrightarrow> (\<forall>b < n. \<exists>xs. bchain nx pv (bs b) xs \<and> set xs = {e \<in> P. h e = b})"

lemma bchainsD:
  assumes "bchains nx pv bs h n P" and "b < n"
  obtains xs where "bchain nx pv (bs b) xs" "set xs = {e \<in> P. h e = b}"
  using assms by (auto simp: bchains_def)

lemma bchains_empty: "bchains nx pv (\<lambda>_. zero_bucket) h n {}"
  by (auto simp: bchains_def bchain_def zero_bucket_def)

lemma bchain_cong:
  assumes "\<And>e. e \<in> set xs \<Longrightarrow> nx' e = nx e" and "\<And>e. e \<in> set xs \<Longrightarrow> pv' e = pv e"
  shows "bchain nx' pv' b xs = bchain nx pv b xs"
  using links_cong [of xs nx' nx pv' pv NULL NULL] assms by (simp add: bchain_def)

lemma bchains_cong:
  assumes "\<And>e. e \<in> P \<Longrightarrow> nx' e = nx e" and "\<And>e. e \<in> P \<Longrightarrow> pv' e = pv e" and "\<And>e. e \<in> P \<Longrightarrow> h' e = h e"
  shows "bchains nx' pv' bs h' n P = bchains nx pv bs h n P"
proof -
  have "bchain nx' pv' (bs b) xs \<and> set xs = {e \<in> P. h' e = b} \<longleftrightarrow> bchain nx pv (bs b) xs \<and> set xs = {e \<in> P. h e = b}" for b xs
  proof -
    have "{e \<in> P. h' e = b} = {e \<in> P. h e = b}" using assms(3) by auto
    moreover have "bchain nx' pv' (bs b) xs = bchain nx pv (bs b) xs" if "set xs = {e \<in> P. h e = b}"
      by (rule bchain_cong) (use that assms in auto)
    ultimately show ?thesis by auto
  qed
  then show ?thesis by (simp add: bchains_def)
qed

lemma bchains_other:
  assumes "bchains nx pv bs h n P" and "b < n"
    and "\<And>i xs. \<lbrakk>i < n; i \<noteq> b; set xs = {e \<in> P. h e = i}; bchain nx pv (bs i) xs\<rbrakk> \<Longrightarrow>
      bchain nx' pv' (bs i) xs \<and> {e \<in> P'. h e = i} = {e \<in> P. h e = i}"
    and "\<And>xs. \<lbrakk>set xs = {e \<in> P. h e = b}; bchain nx pv (bs b) xs\<rbrakk> \<Longrightarrow>
      \<exists>ys. bchain nx' pv' b' ys \<and> set ys = {e \<in> P'. h e = b}"
  shows "bchains nx' pv' (bs(b := b')) h n P'"
  unfolding bchains_def
proof (intro allI impI)
  fix i assume i: "i < n"
  obtain xs where xs: "bchain nx pv (bs i) xs" "set xs = {e \<in> P. h e = i}"
    using assms(1) i by (rule bchainsD)
  show "\<exists>ys. bchain nx' pv' ((bs(b := b')) i) ys \<and> set ys = {e \<in> P'. h e = i}"
    using assms(3) [OF i _ xs(2,1)] assms(4) [of xs] xs by (cases "i = b") auto
qed

lemma bchain_head_in: "\<lbrakk>bchain nx pv b xs; hh_head b \<noteq> NULL\<rbrakk> \<Longrightarrow> hh_head b \<in> set xs"
  by (cases xs) (auto simp: bchain_def)

definition push_prev :: "ptr \<Rightarrow> ptr \<Rightarrow> (ptr \<Rightarrow> ptr) \<Rightarrow> ptr \<Rightarrow> ptr" where
  "push_prev h e pv = (if h \<noteq> NULL then (pv(e := NULL))(h := e) else pv(e := NULL))"

lemma bchain_push:
  assumes "bchain nx pv b xs" and "e \<notin> set xs" and "e \<noteq> NULL" and "hh_head b' = e" and "bk_count b' = bk_count b + 1"
  shows "bchain (nx(e := hh_head b)) (push_prev (hh_head b) e pv) b' (e # xs)"
proof -
  have l: "links nx pv NULL xs NULL" and d: "distinct (e # xs)" and h: "hh_head b = first_of xs NULL"
    and n: "NULL \<notin> set xs"
    using assms by (auto simp: bchain_def)
  have "links (nx(e := hh_head b)) (push_prev (hh_head b) e pv) NULL (e # xs) NULL"
    using h d n by (intro links_push [OF l d]) (auto simp: push_prev_def fix_prev_def first_of_hd)
  then show ?thesis using assms by (auto simp: bchain_def)
qed

lemma bchains_push:
  assumes c: "bchains nx pv bs h n P" and e: "e \<notin> P" "e \<noteq> NULL" and b: "h e = b" "b < n"
    and b': "hh_head b' = e" "bk_count b' = bk_count (bs b) + 1"
  shows "bchains (nx(e := hh_head (bs b))) (push_prev (hh_head (bs b)) e pv) (bs(b := b')) h n (insert e P)"
    (is "bchains ?nx ?pv _ h n _")
proof (rule bchains_other [OF c b(2)])
  fix i xs assume i: "i < n" "i \<noteq> b" and xs: "set xs = {e \<in> P. h e = i}" "bchain nx pv (bs i) xs"
  obtain ys where ys: "bchain nx pv (bs b) ys" "set ys = {e \<in> P. h e = b}"
    using c b(2) by (rule bchainsD)
  have "hh_head (bs b) \<notin> set xs" if "hh_head (bs b) \<noteq> NULL"
    using bchain_head_in [OF ys(1) that] ys(2) xs(1) i(2) by auto
  then have "bchain ?nx ?pv (bs i) xs = bchain nx pv (bs i) xs"
    by (intro bchain_cong) (use e(1) xs in \<open>auto simp: push_prev_def\<close>)
  then show "bchain ?nx ?pv (bs i) xs \<and> {e' \<in> insert e P. h e' = i} = {e \<in> P. h e = i}"
    using xs i b(1) by auto
next
  fix xs assume xs: "set xs = {e \<in> P. h e = b}" "bchain nx pv (bs b) xs"
  then have "bchain ?nx ?pv b' (e # xs)"
    using bchain_push [of nx pv "bs b" xs e b'] e b' by auto
  moreover have "set (e # xs) = {e' \<in> insert e P. h e' = b}" using xs(1) b(1) by auto
  ultimately show "\<exists>ys. bchain ?nx ?pv b' ys \<and> set ys = {e' \<in> insert e P. h e' = b}" by blast
qed

section \<open>Taking an element out\<close>

definition del_next :: "ptr \<Rightarrow> (ptr \<Rightarrow> ptr) \<Rightarrow> (ptr \<Rightarrow> ptr) \<Rightarrow> ptr \<Rightarrow> ptr" where
  "del_next e nx pv = (if pv e \<noteq> NULL then nx(pv e := nx e) else nx)"

definition del_prev :: "ptr \<Rightarrow> (ptr \<Rightarrow> ptr) \<Rightarrow> (ptr \<Rightarrow> ptr) \<Rightarrow> ptr \<Rightarrow> ptr" where
  "del_prev e nx pv = (if nx e \<noteq> NULL then pv(nx e := pv e) else pv)"

lemma links_delete:
  assumes l: "links nx pv NULL (xs @ e # ys) NULL" and d: "distinct (xs @ e # ys)" and n: "NULL \<notin> set (xs @ e # ys)"
  shows "links (del_next e nx pv) (del_prev e nx pv) NULL (xs @ ys) NULL"
    and "del_next e nx pv e = nx e" and "nx e = first_of ys NULL" and "pv e = last_of NULL xs"
proof -
  show nx: "nx e = first_of ys NULL" and pv: "pv e = last_of NULL xs"
    using links_next [OF l] links_prev [OF l] .
  have "pv e \<noteq> e"
  proof (cases xs rule: rev_cases)
    case (snoc zs z)
    then show ?thesis using pv d by auto
  qed (use pv n in auto)
  moreover have "nx e \<noteq> e" using nx d n by (cases ys) auto
  ultimately have "del_next e nx pv = (fix_next xs (first_of ys NULL) nx)(e := nx e)"
    and "del_prev e nx pv = (fix_prev ys (last_of NULL xs) pv)(e := pv e)"
    using nx pv n by (auto simp: del_next_def del_prev_def fix_next_def fix_prev_def fun_eq_iff
        first_of_hd last_of_last)
  then show "links (del_next e nx pv) (del_prev e nx pv) NULL (xs @ ys) NULL" "del_next e nx pv e = nx e"
    using links_splice_out [OF l d, of "nx e" "pv e"] by simp_all
qed

lemma bchain_delete:
  assumes c: "bchain nx pv b xs" and e: "e \<in> set xs"
    and b': "hh_head b' = (if hh_head b = e then nx e else hh_head b)" "bk_count b' = bk_count b - 1"
  shows "bchain (del_next e nx pv) (del_prev e nx pv) b' (remove1 e xs)"
proof -
  obtain ys zs where xs: "xs = ys @ e # zs" "e \<notin> set ys"
    using split_list_first [OF e] by blast
  have r: "remove1 e xs = ys @ zs" using xs by (simp add: remove1_append)
  have l: "links nx pv NULL (ys @ e # zs) NULL" "distinct (ys @ e # zs)" "NULL \<notin> set (ys @ e # zs)"
    using c by (auto simp: bchain_def xs(1))
  note d = links_delete [OF l]
  have "hh_head b' = first_of (ys @ zs) NULL"
    using b'(1) c d(3) l(2) xs by (cases ys) (auto simp: bchain_def)
  then show ?thesis
    using d(1) l(2,3) b'(2) c unfolding r by (auto simp: bchain_def xs(1))
qed

lemma links_neighbours:
  assumes "links nx pv NULL (xs @ e # ys) NULL"
  shows "pv e \<noteq> NULL \<Longrightarrow> pv e \<in> set xs" and "nx e \<noteq> NULL \<Longrightarrow> nx e \<in> set ys"
proof -
  assume "pv e \<noteq> NULL"
  then show "pv e \<in> set xs"
    using links_prev [OF assms] by (cases xs rule: rev_cases) auto
next
  assume "nx e \<noteq> NULL"
  then show "nx e \<in> set ys"
    using links_next [OF assms] by (cases ys) auto
qed

lemma bchains_delete:
  assumes c: "bchains nx pv bs h n P" and e: "e \<in> P" and b: "h e = b" "b < n"
    and b': "hh_head b' = (if hh_head (bs b) = e then nx e else hh_head (bs b))" "bk_count b' = bk_count (bs b) - 1"
  shows "bchains (del_next e nx pv) (del_prev e nx pv) (bs(b := b')) h n (P - {e})"
proof (rule bchains_other [OF c b(2)])
  fix i xs assume i: "i < n" "i \<noteq> b" and xs: "set xs = {e \<in> P. h e = i}" "bchain nx pv (bs i) xs"
  obtain ys where ys: "bchain nx pv (bs b) ys" "set ys = {e \<in> P. h e = b}"
    using c b(2) by (rule bchainsD)
  then obtain us vs where us: "ys = us @ e # vs" using e b(1) split_list [of e ys] by auto
  have l: "links nx pv NULL (us @ e # vs) NULL" using ys(1) us by (simp add: bchain_def)
  have "pv e \<notin> set xs" if "pv e \<noteq> NULL"
    using links_neighbours(1) [OF l that] us ys(2) xs(1) i(2) by auto
  moreover have "nx e \<notin> set xs" if "nx e \<noteq> NULL"
    using links_neighbours(2) [OF l that] us ys(2) xs(1) i(2) by auto
  ultimately have "bchain (del_next e nx pv) (del_prev e nx pv) (bs i) xs = bchain nx pv (bs i) xs"
    by (intro bchain_cong) (auto simp: del_next_def del_prev_def)
  then show "bchain (del_next e nx pv) (del_prev e nx pv) (bs i) xs \<and> {e' \<in> P - {e}. h e' = i} = {e \<in> P. h e = i}"
    using xs i b(1) by auto
next
  fix xs assume xs: "set xs = {e \<in> P. h e = b}" "bchain nx pv (bs b) xs"
  have "bchain (del_next e nx pv) (del_prev e nx pv) b' (remove1 e xs)"
    using xs e b(1) b' by (intro bchain_delete) auto
  moreover have "set (remove1 e xs) = {e' \<in> P - {e}. h e' = b}"
    using xs by (auto simp: bchain_def)
  ultimately show "\<exists>ys. bchain (del_next e nx pv) (del_prev e nx pv) b' ys \<and> set ys = {e' \<in> P - {e}. h e' = b}"
    by blast
qed

section \<open>Tables in order\<close>

definition bucket_of :: "ut_heap \<Rightarrow> ptr \<Rightarrow> u32" where
  "bucket_of t e = HASH_TO_BKT (hh_hashv t e) (num_buckets (ut_tbl t))"

definition tbl_ok :: "ut_heap \<Rightarrow> ptr list \<Rightarrow> bool" where
  "tbl_ok t es \<longleftrightarrow> ut_tail (ut_tbl t) = last es \<and> num_items (ut_tbl t) = of_nat (length es) \<and>
     log2_num_buckets (ut_tbl t) < 32 \<and> num_buckets (ut_tbl t) = 2 ^ unat (log2_num_buckets (ut_tbl t)) \<and>
     bchains (hh_next t) (hh_prev t) (buckets (ut_tbl t)) (bucket_of t) (num_buckets (ut_tbl t)) (set es)"

definition ut_ok :: "(ptr \<Rightarrow> byte list) \<Rightarrow> ut_heap \<Rightarrow> ptr list \<Rightarrow> bool" where
  "ut_ok key t es \<longleftrightarrow> distinct es \<and> NULL \<notin> set es \<and> length es < 2 ^ 32 \<and>
     links (el_next t) (el_prev t) NULL es NULL \<and> ut_head t = first_of es NULL \<and>
     (es \<noteq> [] \<longrightarrow> tbl_ok t es) \<and>
     (\<forall>e \<in> set es. hh_hashv t e = HASH_VALUE (key e) \<and> hh_keylen t e = of_nat (length (key e)) \<and>
        length (key e) < 2 ^ 32)"

lemma tbl_ok_chains:
  "tbl_ok t es \<Longrightarrow>
     bchains (hh_next t) (hh_prev t) (buckets (ut_tbl t)) (bucket_of t) (num_buckets (ut_tbl t)) (set es)"
  unfolding tbl_ok_def by blast

lemma HASH_TO_BKT_less:
  assumes "n \<noteq> 0"
  shows "HASH_TO_BKT h n < n"
proof -
  have "HASH_TO_BKT h n \<le> n - 1"
    unfolding HASH_TO_BKT_def by (rule word_and_le1)
  moreover have "n - 1 < n" using assms by (simp add: word_less_nat_alt unat_minus_one unat_gt_0)
  ultimately show ?thesis by (rule le_less_trans)
qed

lemma num_buckets_nonzero:
  assumes "tbl_ok t es"
  shows "num_buckets (ut_tbl t) \<noteq> 0"
proof -
  have "unat (log2_num_buckets (ut_tbl t)) < 32"
    using assms unat_mono [of "log2_num_buckets (ut_tbl t)" 32] by (simp add: tbl_ok_def)
  then show ?thesis using assms by (simp add: tbl_ok_def)
qed

lemma bchain_count:
  assumes "bchain nx pv b xs" and "set xs \<subseteq> set es" and "distinct es" and "length es < 2 ^ 32"
  shows "unat (bk_count b) = length xs"
proof -
  have "length xs \<le> length es"
    using assms(1,2,3) by (metis bchain_def card_mono distinct_card List.finite_set)
  then have "length xs < 2 ^ 32" using assms(4) by linarith
  moreover have "bk_count b = of_nat (length xs)" using assms(1) by (simp add: bchain_def)
  ultimately show ?thesis by (simp add: unat_of_nat)
qed

section \<open>Lookup\<close>

lemma find_in_bkt_loop_ok:
  assumes "links (hh_next t) pv b xs NULL" and "NULL \<notin> set xs" and "length xs < fuel"
  shows "find_in_bkt_loop key_of fuel key hashval (first_of xs NULL) t =
    Inr (case find (\<lambda>e. hh_hashv t e = hashval \<and> hh_keylen t e = of_nat (length key) \<and>
              take (length key) (key_of e) = key) xs of None \<Rightarrow> NULL | Some e \<Rightarrow> e)"
  using assms
proof (induction xs arbitrary: fuel b)
  case Nil
  then show ?case by (cases fuel) auto
next
  case (Cons x xs)
  then obtain f where "fuel = Suc f" by (cases fuel) auto
  then show ?case using Cons by auto
qed

definition find_elem :: "(ptr \<Rightarrow> 'k) \<Rightarrow> ptr list \<Rightarrow> 'k \<Rightarrow> ptr" where
  "find_elem key es k = (case find (\<lambda>e. key e = k) es of None \<Rightarrow> NULL | Some e \<Rightarrow> e)"

lemma find_elem_simps [simp]:
  "find_elem key [] k = NULL"
  "find_elem key (e # es) k = (if key e = k then e else find_elem key es k)"
  by (simp_all add: find_elem_def)

lemma find_elem_unique:
  "\<lbrakk>inj_on key (set es); e \<in> set es\<rbrakk> \<Longrightarrow> find_elem key es (key e) = e"
  by (induction es) (auto simp: inj_on_def)

lemma find_elem_none: "k \<notin> key ` set es \<Longrightarrow> find_elem key es k = NULL"
  by (induction es) auto

lemma find_elem_eq:
  assumes "\<And>e. e \<in> set xs \<Longrightarrow> Q e \<longleftrightarrow> key e = k"
  shows "(case find Q xs of None \<Rightarrow> NULL | Some e \<Rightarrow> e) = find_elem key xs k"
  using assms by (induction xs) auto

lemma key_match:
  assumes "ut_ok key t es" and "e \<in> set es" and "length k < 2 ^ 32"
  shows "hh_hashv t e = HASH_VALUE k \<and> hh_keylen t e = of_nat (length k) \<and> take (length k) (key e) = k \<longleftrightarrow> key e = k"
proof -
  have e: "hh_hashv t e = HASH_VALUE (key e)" "hh_keylen t e = of_nat (length (key e))" "length (key e) < 2 ^ 32"
    using assms(1,2) by (auto simp: ut_ok_def)
  have "length (key e) = length k" if "(of_nat (length (key e)) :: u32) = of_nat (length k)"
  proof -
    have "unat (of_nat (length (key e)) :: u32) = unat (of_nat (length k) :: u32)" using that by simp
    then show ?thesis using e(3) assms(3) by (simp add: unat_of_nat)
  qed
  then show ?thesis using e by auto
qed

lemma HASH_FIND_ok:
  assumes ok: "ut_ok key t es" and inj: "inj_on key (set es)" and k: "length k < 2 ^ 32"
  shows "HASH_FIND_hh key k t = Inr (find_elem key es k)"
proof (cases "es = []")
  case True
  then show ?thesis using ok by (simp add: HASH_FIND_hh_def ut_ok_def)
next
  case False
  have tb: "tbl_ok t es" and h: "ut_head t \<noteq> NULL" and d: "distinct es" "length es < 2 ^ 32"
    using ok False by (auto simp: ut_ok_def)
  let ?b = "HASH_TO_BKT (HASH_VALUE k) (num_buckets (ut_tbl t))"
  note tbl_ok_chains [OF tb]
  then obtain xs where xs: "bchain (hh_next t) (hh_prev t) (buckets (ut_tbl t) ?b) xs"
    "set xs = {e \<in> set es. bucket_of t e = ?b}"
    using HASH_TO_BKT_less [OF num_buckets_nonzero [OF tb]] by (rule bchainsD)
  have l: "links (hh_next t) (hh_prev t) NULL xs NULL" "NULL \<notin> set xs"
    "hh_head (buckets (ut_tbl t) ?b) = first_of xs NULL"
    using xs(1) by (simp_all add: bchain_def)
  have n: "length xs < Suc (unat (bk_count (buckets (ut_tbl t) ?b)))"
    using bchain_count [OF xs(1) _ d] xs(2) by auto
  have "HASH_FIND_hh key k t = Inr (find_elem key xs k)"
    using h find_in_bkt_loop_ok [OF l(1,2) n, of key k "HASH_VALUE k"] l(3)
      find_elem_eq [of xs _ key k] key_match [OF ok _ k] xs(2)
    by (simp add: HASH_FIND_hh_def HASH_FIND_BYHASHVALUE_def HASH_FIND_IN_BKT_def)
  also have "find_elem key xs k = find_elem key es k"
  proof (cases "k \<in> key ` set es")
    case True
    then obtain e where e: "e \<in> set es" "key e = k" by auto
    then have "e \<in> set xs"
      using ok xs(2) by (auto simp: bucket_of_def ut_ok_def)
    moreover have "inj_on key (set xs)" using inj xs(2) by (auto simp: inj_on_def)
    ultimately show ?thesis
      using e find_elem_unique [of key xs e] find_elem_unique [OF inj e(1)] by simp
  next
    case False
    moreover have "k \<notin> key ` set xs" using False xs(2) by auto
    ultimately show ?thesis by (simp add: find_elem_none)
  qed
  finally show ?thesis .
qed

section \<open>Doubling the buckets\<close>

definition new_bucket_of :: "ut_heap \<Rightarrow> ptr \<Rightarrow> u32" where
  "new_bucket_of t e = HASH_TO_BKT (hh_hashv t e) (num_buckets (ut_tbl t) * 2)"

definition rehash_ok :: "ut_heap \<Rightarrow> rehash \<Rightarrow> ptr set \<Rightarrow> bool" where
  "rehash_ok t r P \<longleftrightarrow>
     bchains (re_next r) (re_prev r) (new_buckets r) (new_bucket_of t) (num_buckets (ut_tbl t) * 2) P \<and>
     (\<forall>e. e \<notin> P \<longrightarrow> re_next r e = hh_next t e)"

lemma rehash_one_ok:
  assumes r: "rehash_ok t r P" and e: "e \<notin> P" "e \<noteq> NULL" and n: "num_buckets (ut_tbl t) * 2 \<noteq> 0"
  shows "rehash_ok t (rehash_one t ideal e r) (insert e P)"
proof -
  let ?b = "new_bucket_of t e" and ?r = "rehash_one t ideal e r"
  have c: "bchains (re_next r) (re_prev r) (new_buckets r) (new_bucket_of t) (num_buckets (ut_tbl t) * 2) P"
    using r by (simp add: rehash_ok_def)
  have b: "new_bucket_of t e = ?b" "?b < num_buckets (ut_tbl t) * 2"
    using HASH_TO_BKT_less [OF n] by (auto simp: new_bucket_of_def)
  have b': "new_buckets ?r = (new_buckets r)(?b := new_buckets ?r ?b)" "hh_head (new_buckets ?r ?b) = e"
    "bk_count (new_buckets ?r ?b) = bk_count (new_buckets r ?b) + 1"
    and "re_next ?r = (re_next r)(e := hh_head (new_buckets r ?b))"
    and "re_prev ?r = push_prev (hh_head (new_buckets r ?b)) e (re_prev r)"
    by (simp_all add: rehash_one_def Let_def new_bucket_of_def push_prev_def)
  then show ?thesis
    using bchains_push [OF c e b b'(2,3)] r b'(1) by (simp add: rehash_ok_def)
qed

lemma rehash_chain_ok:
  assumes "links (hh_next t) pv b xs NULL" and "NULL \<notin> set xs" and "distinct xs" and "length xs < fuel"
    and "rehash_ok t r P" and "P \<inter> set xs = {}" and n: "num_buckets (ut_tbl t) * 2 \<noteq> 0"
  shows "\<exists>r'. rehash_chain t ideal fuel (first_of xs NULL) r = Inr r' \<and> rehash_ok t r' (P \<union> set xs)"
  using assms(1-6)
proof (induction xs arbitrary: fuel b r P)
  case Nil
  then show ?case by (cases fuel) auto
next
  case (Cons x xs)
  then obtain f where f: "fuel = Suc f" by (cases fuel) auto
  have x: "x \<notin> P" "x \<noteq> NULL" "re_next r x = first_of xs NULL"
    using Cons.prems by (auto simp: rehash_ok_def)
  have "\<exists>r'. rehash_chain t ideal f (first_of xs NULL) (rehash_one t ideal x r) = Inr r' \<and> rehash_ok t r' (insert x P \<union> set xs)"
    using Cons.prems f rehash_one_ok [OF Cons.prems(5) x(1,2) n] by (intro Cons.IH) auto
  then show ?case using x f by (auto simp: Let_def)
qed

lemma rehash_buckets_ok:
  assumes tb: "tbl_ok t es" and es: "distinct es" "length es < 2 ^ 32" and n: "num_buckets (ut_tbl t) * 2 \<noteq> 0"
    and "distinct is" and "\<forall>i \<in> set is. i < num_buckets (ut_tbl t)"
    and "rehash_ok t r P" and "P \<inter> {e \<in> set es. bucket_of t e \<in> set is} = {}"
  shows "\<exists>r'. rehash_buckets t ideal is r = Inr r' \<and> rehash_ok t r' (P \<union> {e \<in> set es. bucket_of t e \<in> set is})"
  using assms(5-8)
proof (induction "is" arbitrary: r P)
  case (Cons i "is")
  obtain xs where xs: "bchain (hh_next t) (hh_prev t) (buckets (ut_tbl t) i) xs" "set xs = {e \<in> set es. bucket_of t e = i}"
    using Cons.prems(2) by (auto intro: bchainsD [OF tbl_ok_chains [OF tb], of i])
  have u: "unat (bk_count (buckets (ut_tbl t) i)) = length xs"
    using bchain_count [OF xs(1) _ es] xs(2) by auto
  have l: "links (hh_next t) (hh_prev t) NULL xs NULL" "NULL \<notin> set xs" "distinct xs"
    "hh_head (buckets (ut_tbl t) i) = first_of xs NULL"
    using xs(1) by (simp_all add: bchain_def)
  obtain r' where r': "rehash_chain t ideal (Suc (length xs)) (first_of xs NULL) r = Inr r'" "rehash_ok t r' (P \<union> set xs)"
    using rehash_chain_ok [OF l(1-3) _ Cons.prems(3) _ n, of "Suc (length xs)" ideal] Cons.prems(4) xs(2)
    by (auto simp del: rehash_chain.simps)
  have "\<exists>r''. rehash_buckets t ideal is r' = Inr r'' \<and>
      rehash_ok t r'' ((P \<union> set xs) \<union> {e \<in> set es. bucket_of t e \<in> set is})"
    using Cons.prems r'(2) xs(2) by (intro Cons.IH) auto
  moreover have "(P \<union> set xs) \<union> {e \<in> set es. bucket_of t e \<in> set is} = P \<union> {e \<in> set es. bucket_of t e \<in> set (i # is)}"
    using xs(2) by auto
  ultimately show ?case using r'(1) u l(4) by (simp del: rehash_chain.simps)
qed simp

lemma bucket_indices:
  "distinct (map (of_nat :: nat \<Rightarrow> u32) [0..<unat (n :: u32)])"
  "set (map (of_nat :: nat \<Rightarrow> u32) [0..<unat n]) = {i. i < n}"
proof -
  have "unat n < 2 ^ LENGTH(32)" by (rule unsigned_less)
  then have b: "unat n < 2 ^ 32" by simp
  have "inj_on (of_nat :: nat \<Rightarrow> u32) (set [0..<unat n])"
  proof (rule inj_onI)
    fix i j assume "i \<in> set [0..<unat n]" "j \<in> set [0..<unat n]" and e: "(of_nat i :: u32) = of_nat j"
    then have "i < 2 ^ 32" "j < 2 ^ 32" using b by auto
    moreover have "unat (of_nat i :: u32) = unat (of_nat j :: u32)" using e by simp
    ultimately show "i = j" by (simp add: unat_of_nat)
  qed
  then show "distinct (map (of_nat :: nat \<Rightarrow> u32) [0..<unat n])" by (simp add: distinct_map)
  show "set (map (of_nat :: nat \<Rightarrow> u32) [0..<unat n]) = {i. i < n}"
  proof (intro set_eqI iffI)
    fix i assume "i \<in> set (map (of_nat :: nat \<Rightarrow> u32) [0..<unat n])"
    then obtain k where "i = of_nat k" "k < unat n" by auto
    then show "i \<in> {i. i < n}" using b by (simp add: word_less_nat_alt unat_of_nat)
  next
    fix i assume "i \<in> {i. i < n}"
    then have "unat i < unat n" by (simp add: word_less_nat_alt)
    then show "i \<in> set (map (of_nat :: nat \<Rightarrow> u32) [0..<unat n])"
      by (auto intro!: image_eqI [of _ _ "unat i"])
  qed
qed

lemma log2_double:
  assumes "log2_num_buckets (ut_tbl t) < 31" and "num_buckets (ut_tbl t) = 2 ^ unat (log2_num_buckets (ut_tbl t))"
  shows "log2_num_buckets (ut_tbl t) + 1 < 32"
    and "num_buckets (ut_tbl t) * 2 = 2 ^ unat (log2_num_buckets (ut_tbl t) + 1)"
    and "num_buckets (ut_tbl t) * 2 \<noteq> 0"
proof -
  have u: "unat (log2_num_buckets (ut_tbl t)) < 31"
    using unat_mono [OF assms(1)] by simp
  then have s: "unat (log2_num_buckets (ut_tbl t) + 1) = Suc (unat (log2_num_buckets (ut_tbl t)))"
    by (simp add: unat_word_ariths)
  then show "log2_num_buckets (ut_tbl t) + 1 < 32" using u by (simp add: word_less_nat_alt)
  show m: "num_buckets (ut_tbl t) * 2 = 2 ^ unat (log2_num_buckets (ut_tbl t) + 1)"
    using assms(2) by (simp add: s)
  show "num_buckets (ut_tbl t) * 2 \<noteq> 0" unfolding m using u s by (simp del: power_Suc)
qed

definition rehashed :: "ut_heap \<Rightarrow> ut_heap \<Rightarrow> bool" where
  "rehashed t t' \<longleftrightarrow> ut_head t' = ut_head t \<and> el_next t' = el_next t \<and> el_prev t' = el_prev t \<and>
     hh_hashv t' = hh_hashv t \<and> hh_keylen t' = hh_keylen t"

lemma HASH_EXPAND_BUCKETS_ok:
  assumes tb: "tbl_ok t es" and es: "distinct es" "length es < 2 ^ 32" and lg: "log2_num_buckets (ut_tbl t) < 31"
  shows "\<exists>t'. HASH_EXPAND_BUCKETS True t = Inr t' \<and> tbl_ok t' es \<and> rehashed t t'"
proof -
  let ?r = "\<lparr>new_buckets = (\<lambda>_. zero_bucket), re_nonideal = 0, re_prev = hh_prev t, re_next = hh_next t\<rparr>"
  have nb: "num_buckets (ut_tbl t) = 2 ^ unat (log2_num_buckets (ut_tbl t))"
    using tb by (simp add: tbl_ok_def)
  note d = log2_double [OF lg nb]
  have r0: "rehash_ok t ?r {}" by (simp add: rehash_ok_def bchains_empty)
  have cover: "{e \<in> set es. bucket_of t e \<in> {i. i < num_buckets (ut_tbl t)}} = set es"
    using HASH_TO_BKT_less [OF num_buckets_nonzero [OF tb]] by (auto simp: bucket_of_def)
  define ideal where "ideal = drop_bit (unat (log2_num_buckets (ut_tbl t) + 1)) (num_items (ut_tbl t)) +
      (if num_items (ut_tbl t) AND (num_buckets (ut_tbl t) * 2 - 1) \<noteq> 0 then 1 else 0)"
  obtain r where r: "rehash_buckets t ideal (map of_nat [0..<unat (num_buckets (ut_tbl t))]) ?r = Inr r"
    "rehash_ok t r (set es)"
    using rehash_buckets_ok [OF tb es d(3) bucket_indices(1) _ r0, of "num_buckets (ut_tbl t)" ideal] cover
    unfolding bucket_indices(2) by auto
  obtain t' where t': "HASH_EXPAND_BUCKETS True t = Inr t'" "rehashed t t'" "hh_next t' = re_next r" "hh_prev t' = re_prev r"
    "buckets (ut_tbl t') = new_buckets r" "num_buckets (ut_tbl t') = num_buckets (ut_tbl t) * 2"
    "log2_num_buckets (ut_tbl t') = log2_num_buckets (ut_tbl t) + 1"
    "num_items (ut_tbl t') = num_items (ut_tbl t)" "ut_tail (ut_tbl t') = ut_tail (ut_tbl t)"
    using d(1) r(1) by (auto simp: HASH_EXPAND_BUCKETS_def ideal_def [symmetric] rehashed_def Let_def)
  moreover have "bucket_of t' = new_bucket_of t"
    using t'(2,6) by (simp add: fun_eq_iff bucket_of_def new_bucket_of_def rehashed_def)
  ultimately have "tbl_ok t' es"
    using tb d r(2) by (simp add: tbl_ok_def rehash_ok_def)
  then show ?thesis using t' by blast
qed

section \<open>Insertion\<close>

lemma HASH_ADD_TO_TABLE_ok:
  assumes tl: "ut_tail (ut_tbl t) = e" and ni: "num_items (ut_tbl t) = of_nat (length es)"
    and lg: "log2_num_buckets (ut_tbl t) < 31" and nb: "num_buckets (ut_tbl t) = 2 ^ unat (log2_num_buckets (ut_tbl t))"
    and c: "bchains (hh_next t) (hh_prev t) (buckets (ut_tbl t)) (bucket_of t) (num_buckets (ut_tbl t)) (set es)"
    and e: "e \<notin> set es" "e \<noteq> NULL" "hh_hashv t e = hashval"
    and es: "distinct (es @ [e])" "length (es @ [e]) < 2 ^ 32"
  shows "\<exists>t'. HASH_ADD_TO_TABLE True hashval e t = Inr t' \<and> tbl_ok t' (es @ [e]) \<and> rehashed t t'"
proof -
  let ?b = "HASH_TO_BKT hashval (num_buckets (ut_tbl t))" and ?bs = "buckets (ut_tbl t)"
  let ?b' = "?bs ?b\<lparr>bk_count := bk_count (?bs ?b) + 1, hh_head := e\<rparr>"
  define t1 where "t1 = t\<lparr>hh_next := (hh_next t)(e := hh_head (?bs ?b)),
     hh_prev := push_prev (hh_head (?bs ?b)) e (hh_prev t),
     ut_tbl := (ut_tbl t)\<lparr>num_items := num_items (ut_tbl t) + 1, buckets := ?bs(?b := ?b')\<rparr>\<rparr>"
  have "num_buckets (ut_tbl t) \<noteq> 0" using log2_double(3) [OF lg nb] by auto
  then have b: "bucket_of t e = ?b" "?b < num_buckets (ut_tbl t)"
    using e(3) by (simp_all add: bucket_of_def HASH_TO_BKT_less)
  have "bucket_of t1 = bucket_of t" by (simp add: t1_def bucket_of_def fun_eq_iff)
  then have ok1: "tbl_ok t1 (es @ [e])"
    using bchains_push [OF c e(1,2) b, of ?b'] tl ni nb less_trans [OF lg, of 32] by (simp add: tbl_ok_def t1_def)
  have lg1: "log2_num_buckets (ut_tbl t1) < 31" and r1: "rehashed t t1"
    using lg by (simp_all add: t1_def rehashed_def)
  have "HASH_ADD_TO_TABLE True hashval e t =
      (if bk_count ?b' \<ge> (expand_mult ?b' + 1) * HASH_BKT_CAPACITY_THRESH \<and> noexpand (ut_tbl t) = 0
       then HASH_EXPAND_BUCKETS True t1 else Inr t1)"
    by (simp add: HASH_ADD_TO_TABLE_def HASH_ADD_TO_BKT_def Let_def t1_def push_prev_def)
  moreover obtain t2 where "HASH_EXPAND_BUCKETS True t1 = Inr t2" "tbl_ok t2 (es @ [e])" "rehashed t1 t2"
    using HASH_EXPAND_BUCKETS_ok [OF ok1 es lg1] by blast
  ultimately show ?thesis using ok1 r1 by (auto simp: rehashed_def)
qed

lemma links_snoc:
  assumes l: "links nx pv NULL es NULL" and d: "distinct (es @ [e])" and n: "NULL \<notin> set es" and ne: "es \<noteq> []"
  shows "links (nx(e := NULL, last es := e)) (pv(e := last es)) NULL (es @ [e]) NULL"
proof -
  have "links nx pv NULL (es @ []) NULL" "distinct (es @ e # [])" using l d by simp_all
  then have "links (nx(e := NULL, last es := e)) (pv(e := last es)) NULL (es @ e # []) NULL"
    using d ne by (intro links_splice_in [where nx = nx and pv = pv and xs = es and ys = "[]"])
      (auto simp: fix_next_def fix_prev_def last_of_def)
  then show ?thesis by simp
qed

lemma ut_okI:
  assumes "distinct es" and "NULL \<notin> set es" and "length es < 2 ^ 32" and "links (el_next t) (el_prev t) NULL es NULL"
    and "ut_head t = first_of es NULL" and "es \<noteq> [] \<Longrightarrow> tbl_ok t es"
    and "\<And>e. e \<in> set es \<Longrightarrow> hh_hashv t e = HASH_VALUE (key e) \<and> hh_keylen t e = of_nat (length (key e)) \<and> length (key e) < 2 ^ 32"
  shows "ut_ok key t es"
  using assms by (simp add: ut_ok_def)

lemma HASH_ADD_ok_hh:
  assumes ok: "ut_ok key t es" and e: "e \<notin> set es" "e \<noteq> NULL" "length (key e) < 2 ^ 32"
    and len: "Suc (length es) < 2 ^ 32" and lg: "es \<noteq> [] \<Longrightarrow> log2_num_buckets (ut_tbl t) < 31"
  shows "\<exists>t'. HASH_ADD_hh True (key e) e t = Inr t' \<and> ut_ok key t' (es @ [e])"
proof -
  let ?h = "HASH_VALUE (key e)"
  let ?t = "t\<lparr>hh_hashv := (hh_hashv t)(e := ?h), hh_keylen := (hh_keylen t)(e := of_nat (length (key e)))\<rparr>"
  have keys: "\<forall>x \<in> set (es @ [e]). hh_hashv ?t x = HASH_VALUE (key x) \<and>
      hh_keylen ?t x = of_nat (length (key x)) \<and> length (key x) < 2 ^ 32"
    using ok e by (auto simp: ut_ok_def)
  have es: "distinct (es @ [e])" "length (es @ [e]) < 2 ^ 32" "NULL \<notin> set (es @ [e])"
    using ok e len by (auto simp: ut_ok_def)
  let ?st = "if ut_head ?t = NULL
      then andThen (HASH_MAKE_TABLE True e (?t\<lparr>el_next := (el_next ?t)(e := NULL), el_prev := (el_prev ?t)(e := NULL)\<rparr>))
             (\<lambda>t. Inr (t\<lparr>ut_head := e\<rparr>))
      else Inr (HASH_APPEND_LIST e ?t)"
  have st: "HASH_ADD_hh True (key e) e t = andThen ?st (HASH_ADD_TO_TABLE True ?h e)"
    by (simp only: HASH_ADD_hh_def HASH_ADD_KEYPTR_BYHASHVALUE_def Let_def)
  have "\<exists>t1. ?st = Inr t1 \<and> hh_hashv t1 = hh_hashv ?t \<and> hh_keylen t1 = hh_keylen ?t \<and>
      links (el_next t1) (el_prev t1) NULL (es @ [e]) NULL \<and> ut_head t1 = first_of (es @ [e]) NULL \<and>
      ut_tail (ut_tbl t1) = e \<and> num_items (ut_tbl t1) = of_nat (length es) \<and> log2_num_buckets (ut_tbl t1) < 31 \<and>
      num_buckets (ut_tbl t1) = 2 ^ unat (log2_num_buckets (ut_tbl t1)) \<and>
      bchains (hh_next t1) (hh_prev t1) (buckets (ut_tbl t1)) (bucket_of t1) (num_buckets (ut_tbl t1)) (set es)"
  proof (cases "es = []")
    case True
    then show ?thesis
      using ok by (simp add: ut_ok_def HASH_MAKE_TABLE_def HASH_INITIAL_NUM_BUCKETS_def
          HASH_INITIAL_NUM_BUCKETS_LOG2_def bchains_empty)
  next
    case False
    have tb: "tbl_ok t es" and l: "links (el_next t) (el_prev t) NULL es NULL"
      using ok False by (auto simp: ut_ok_def)
    have l1: "links ((el_next t)(e := NULL, last es := e)) ((el_prev t)(e := last es)) NULL (es @ [e]) NULL"
      using l es False by (intro links_snoc) auto
    have tail: "ut_tail (ut_tbl t) = last es" and h: "ut_head t = first_of es NULL" "ut_head t \<noteq> NULL"
      using ok False tb by (auto simp: ut_ok_def tbl_ok_def)
    have "bchains (hh_next t) (hh_prev t) (buckets (ut_tbl t)) (bucket_of (HASH_APPEND_LIST e ?t)) (num_buckets (ut_tbl t)) (set es) =
        bchains (hh_next t) (hh_prev t) (buckets (ut_tbl t)) (bucket_of t) (num_buckets (ut_tbl t)) (set es)"
      by (rule bchains_cong) (use e(1) in \<open>auto simp: bucket_of_def HASH_APPEND_LIST_def\<close>)
    then show ?thesis
      using tb l1 lg [OF False] h tail False
      by (auto simp: HASH_APPEND_LIST_def tbl_ok_def first_of_append first_of_hd)
  qed
  then obtain t1 where t1: "?st = Inr t1"
      "hh_hashv t1 = hh_hashv ?t" "hh_keylen t1 = hh_keylen ?t"
      "links (el_next t1) (el_prev t1) NULL (es @ [e]) NULL" "ut_head t1 = first_of (es @ [e]) NULL"
    and tb1: "ut_tail (ut_tbl t1) = e" "num_items (ut_tbl t1) = of_nat (length es)" "log2_num_buckets (ut_tbl t1) < 31"
      "num_buckets (ut_tbl t1) = 2 ^ unat (log2_num_buckets (ut_tbl t1))"
      "bchains (hh_next t1) (hh_prev t1) (buckets (ut_tbl t1)) (bucket_of t1) (num_buckets (ut_tbl t1)) (set es)"
    by blast
  obtain t' where t': "HASH_ADD_TO_TABLE True ?h e t1 = Inr t'" "tbl_ok t' (es @ [e])" "rehashed t1 t'"
    using HASH_ADD_TO_TABLE_ok [OF tb1 e(1,2) _ es(1,2), of ?h] t1(2) by auto
  have "ut_ok key t' (es @ [e])"
    using es t'(2,3) t1(2-) keys by (intro ut_okI) (auto simp: rehashed_def)
  then show ?thesis using t'(1) unfolding st t1(1) by simp
qed

section \<open>Deletion\<close>

lemma bchain_next_other:
  assumes "bchains nx pv bs h n P" and "e \<in> P" and "h e < n"
  shows "del_next e nx pv e = nx e"
proof -
  obtain xs where xs: "bchain nx pv (bs (h e)) xs" "set xs = {x \<in> P. h x = h e}"
    using assms(1,3) by (rule bchainsD)
  then obtain us vs where "xs = us @ e # vs" using assms(2) split_list [of e xs] by auto
  then show ?thesis
    using links_delete(2) [of nx pv us e vs] xs(1) by (simp add: bchain_def)
qed

lemma del_in_bkt_fields:
  assumes "del_next e (hh_next t) (hh_prev t) e = hh_next t e"
  shows "hh_next (HASH_DEL_IN_BKT b e t) = del_next e (hh_next t) (hh_prev t)"
    and "hh_prev (HASH_DEL_IN_BKT b e t) = del_prev e (hh_next t) (hh_prev t)"
    and "\<exists>b'. ut_tbl (HASH_DEL_IN_BKT b e t) = (ut_tbl t)\<lparr>buckets := (buckets (ut_tbl t))(b := b')\<rparr> \<and>
      hh_head b' = (if hh_head (buckets (ut_tbl t) b) = e then hh_next t e else hh_head (buckets (ut_tbl t) b)) \<and>
      bk_count b' = bk_count (buckets (ut_tbl t) b) - 1"
    and "ut_head (HASH_DEL_IN_BKT b e t) = ut_head t" and "el_next (HASH_DEL_IN_BKT b e t) = el_next t"
    and "el_prev (HASH_DEL_IN_BKT b e t) = el_prev t" and "hh_hashv (HASH_DEL_IN_BKT b e t) = hh_hashv t"
    and "hh_keylen (HASH_DEL_IN_BKT b e t) = hh_keylen t"
  using assms by (auto simp: HASH_DEL_IN_BKT_def Let_def del_next_def del_prev_def split: if_splits)

lemma HASH_DELETE_fields:
  assumes "el_prev t e \<noteq> NULL \<or> el_next t e \<noteq> NULL" and "ut_head t \<noteq> NULL" and "del_next e (el_next t) (el_prev t) e = el_next t e"
    and "del_next e (hh_next t) (hh_prev t) e = hh_next t e"
  obtains t' b' where "HASH_DELETE_hh e t = Inr t'" "ut_head t' = (if el_prev t e = NULL then el_next t e else ut_head t)"
    "el_next t' = del_next e (el_next t) (el_prev t)" "el_prev t' = del_prev e (el_next t) (el_prev t)"
    "hh_next t' = del_next e (hh_next t) (hh_prev t)" "hh_prev t' = del_prev e (hh_next t) (hh_prev t)"
    "hh_hashv t' = hh_hashv t" "hh_keylen t' = hh_keylen t"
    "buckets (ut_tbl t') = (buckets (ut_tbl t))(bucket_of t e := b')"
    "hh_head b' = (if hh_head (buckets (ut_tbl t) (bucket_of t e)) = e then hh_next t e
       else hh_head (buckets (ut_tbl t) (bucket_of t e)))"
    "bk_count b' = bk_count (buckets (ut_tbl t) (bucket_of t e)) - 1"
    "num_buckets (ut_tbl t') = num_buckets (ut_tbl t)" "log2_num_buckets (ut_tbl t') = log2_num_buckets (ut_tbl t)"
    "num_items (ut_tbl t') = num_items (ut_tbl t) - 1"
    "ut_tail (ut_tbl t') = (if e = ut_tail (ut_tbl t) then el_prev t e else ut_tail (ut_tbl t))"
proof -
  define t1 where "t1 = t\<lparr>ut_tbl := (ut_tbl t)\<lparr>ut_tail := (if e = ut_tail (ut_tbl t) then el_prev t e else ut_tail (ut_tbl t))\<rparr>,
    ut_head := (if el_prev t e = NULL then el_next t e else ut_head t),
    el_next := del_next e (el_next t) (el_prev t), el_prev := del_prev e (el_next t) (el_prev t)\<rparr>"
  let ?t2 = "HASH_DEL_IN_BKT (bucket_of t e) e t1"
  have "HASH_DELETE_hh e t = Inr (?t2\<lparr>ut_tbl := (ut_tbl ?t2)\<lparr>num_items := num_items (ut_tbl ?t2) - 1\<rparr>\<rparr>)"
    using assms(1-3) by (auto simp: HASH_DELETE_hh_def t1_def Let_def del_next_def del_prev_def bucket_of_def split: if_splits)
  moreover have f: "del_next e (hh_next t1) (hh_prev t1) e = hh_next t1 e" using assms(4) by (simp add: t1_def)
  moreover obtain b' where "ut_tbl ?t2 = (ut_tbl t1)\<lparr>buckets := (buckets (ut_tbl t1))(bucket_of t e := b')\<rparr>"
    "hh_head b' = (if hh_head (buckets (ut_tbl t1) (bucket_of t e)) = e then hh_next t1 e else hh_head (buckets (ut_tbl t1) (bucket_of t e)))"
    "bk_count b' = bk_count (buckets (ut_tbl t1) (bucket_of t e)) - 1"
    using del_in_bkt_fields(3) [OF f] by blast
  ultimately show thesis
    using that [of "?t2\<lparr>ut_tbl := (ut_tbl ?t2)\<lparr>num_items := num_items (ut_tbl ?t2) - 1\<rparr>\<rparr>" b'] del_in_bkt_fields [OF f]
    by (simp add: t1_def)
qed

lemma HASH_DELETE_ok_hh:
  assumes ok: "ut_ok key t es" and e: "e \<in> set es"
  shows "\<exists>t'. HASH_DELETE_hh e t = Inr t' \<and> ut_ok key t' (remove1 e es)"
proof -
  have tb: "tbl_ok t es" and h: "ut_head t = first_of es NULL" and d: "distinct es" "NULL \<notin> set es"
    and len: "length es < 2 ^ 32" and l: "links (el_next t) (el_prev t) NULL es NULL"
    using ok e by (auto simp: ut_ok_def)
  obtain xs ys where es: "es = xs @ e # ys" using split_list [OF e] by blast
  have r: "remove1 e es = xs @ ys" using es d by (simp add: remove1_append)
  note ld = links_delete [OF l [unfolded es] d [unfolded es]]
  have hn: "ut_head t \<noteq> NULL" using h d es by (cases xs) auto
  show ?thesis
  proof (cases "xs = [] \<and> ys = []")
    case True
    then show ?thesis using ld hn ok by (simp add: HASH_DELETE_hh_def r ut_ok_def)
  next
    case False
    have nn: "el_prev t e \<noteq> NULL \<or> el_next t e \<noteq> NULL"
      using False ld d es by auto
    have b: "bucket_of t e < num_buckets (ut_tbl t)"
      using HASH_TO_BKT_less [OF num_buckets_nonzero [OF tb]] by (simp add: bucket_of_def)
    note c = tbl_ok_chains [OF tb]
    obtain t' b' where t': "HASH_DELETE_hh e t = Inr t'" "ut_head t' = (if el_prev t e = NULL then el_next t e else ut_head t)"
      "el_next t' = del_next e (el_next t) (el_prev t)" "el_prev t' = del_prev e (el_next t) (el_prev t)"
      "hh_next t' = del_next e (hh_next t) (hh_prev t)" "hh_prev t' = del_prev e (hh_next t) (hh_prev t)"
      "hh_hashv t' = hh_hashv t" "hh_keylen t' = hh_keylen t"
      "buckets (ut_tbl t') = (buckets (ut_tbl t))(bucket_of t e := b')"
      and b': "hh_head b' = (if hh_head (buckets (ut_tbl t) (bucket_of t e)) = e then hh_next t e
         else hh_head (buckets (ut_tbl t) (bucket_of t e)))"
        "bk_count b' = bk_count (buckets (ut_tbl t) (bucket_of t e)) - 1"
      and tbl: "num_buckets (ut_tbl t') = num_buckets (ut_tbl t)" "log2_num_buckets (ut_tbl t') = log2_num_buckets (ut_tbl t)"
        "num_items (ut_tbl t') = num_items (ut_tbl t) - 1"
        "ut_tail (ut_tbl t') = (if e = ut_tail (ut_tbl t) then el_prev t e else ut_tail (ut_tbl t))"
      using nn hn ld(2) bchain_next_other [OF c e b] by (rule HASH_DELETE_fields)
    have "el_prev t e = NULL \<longleftrightarrow> xs = []" using ld(4) d es by auto
    then have head: "ut_head t' = first_of (xs @ ys) NULL"
      using t'(2) ld(3) h es by (cases xs) auto
    have tail: "ut_tail (ut_tbl t') = last (xs @ ys)"
      using tbl(4) tb ld(4) d es False by (cases "ys = []") (auto simp: tbl_ok_def last_of_def)
    have bk: "bucket_of t' = bucket_of t" using t'(7) tbl(1) by (simp add: bucket_of_def fun_eq_iff)
    have "set (xs @ ys) = set es - {e}" using es d by auto
    then have "tbl_ok t' (xs @ ys)"
      using bchains_delete [OF c e refl b b'] t' tbl tail tb es by (simp add: tbl_ok_def bk)
    moreover have "\<forall>x \<in> set (xs @ ys). hh_hashv t' x = HASH_VALUE (key x) \<and>
        hh_keylen t' x = of_nat (length (key x)) \<and> length (key x) < 2 ^ 32"
      using ok es t'(7,8) by (auto simp: ut_ok_def)
    ultimately have "ut_ok key t' (xs @ ys)"
      using ld(1) t'(3,4) head d len es by (auto simp: ut_ok_def)
    then show ?thesis using t'(1) r by auto
  qed
qed

section \<open>The integrity check\<close>

lemma fsck_walk_ok:
  assumes "links nx pv prev xs NULL" and "NULL \<notin> set xs" and "length xs < fuel"
  shows "fsck_walk nx pv fuel prev (first_of xs NULL) n = Inr (n + of_nat (length xs))"
  using assms
proof (induction xs arbitrary: fuel prev n)
  case Nil
  then show ?case by (cases fuel) auto
next
  case (Cons x xs)
  then obtain f where "fuel = Suc f" by (cases fuel) auto
  then show ?case using Cons by (auto simp: algebra_simps)
qed

lemma fsck_buckets_ok:
  assumes tb: "tbl_ok t es" and es: "distinct es" "length es < 2 ^ 32"
    and "distinct is" and "\<forall>i \<in> set is. i < num_buckets (ut_tbl t)"
  shows "fsck_buckets t is n = Inr (n + of_nat (card {e \<in> set es. bucket_of t e \<in> set is}))"
  using assms(4,5)
proof (induction "is" arbitrary: n)
  case (Cons i "is")
  obtain xs where xs: "bchain (hh_next t) (hh_prev t) (buckets (ut_tbl t) i) xs" "set xs = {e \<in> set es. bucket_of t e = i}"
    using Cons.prems(2) by (auto intro: bchainsD [OF tbl_ok_chains [OF tb], of i])
  have l: "links (hh_next t) (hh_prev t) NULL xs NULL" "NULL \<notin> set xs"
    "hh_head (buckets (ut_tbl t) i) = first_of xs NULL" "bk_count (buckets (ut_tbl t) i) = of_nat (length xs)" "distinct xs"
    using xs(1) by (simp_all add: bchain_def)
  have "card (set xs) \<le> card (set es)" using xs(2) by (auto intro: card_mono)
  then have n: "length xs < 2 ^ 32" using l(5) es by (simp add: distinct_card)
  have "{e \<in> set es. bucket_of t e \<in> set (i # is)} = set xs \<union> {e \<in> set es. bucket_of t e \<in> set is}"
    and "set xs \<inter> {e \<in> set es. bucket_of t e \<in> set is} = {}"
    using xs(2) Cons.prems(1) by auto
  then have "card {e \<in> set es. bucket_of t e \<in> set (i # is)} = length xs + card {e \<in> set es. bucket_of t e \<in> set is}"
    using l(5) by (simp add: card_Un_disjoint distinct_card)
  then show ?case
    using fsck_walk_ok [OF l(1,2) n, of 0] l(3,4) Cons by (simp add: algebra_simps)
qed simp

lemma HASH_FSCK_ok:
  assumes ok: "ut_ok key t es"
  shows "HASH_FSCK t = Inr ()"
proof (cases "es = []")
  case True
  then show ?thesis using ok by (simp add: HASH_FSCK_def ut_ok_def)
next
  case False
  have tb: "tbl_ok t es" and h: "ut_head t = first_of es NULL" and d: "distinct es" "NULL \<notin> set es" "length es < 2 ^ 32"
    and l: "links (el_next t) (el_prev t) NULL es NULL"
    using ok False by (auto simp: ut_ok_def)
  have "{e \<in> set es. bucket_of t e \<in> {i. i < num_buckets (ut_tbl t)}} = set es"
    using HASH_TO_BKT_less [OF num_buckets_nonzero [OF tb]] by (auto simp: bucket_of_def)
  then have "fsck_buckets t (map of_nat [0..<unat (num_buckets (ut_tbl t))]) 0 = Inr (of_nat (length es))"
    using fsck_buckets_ok [OF tb d(1,3) bucket_indices(1), of "num_buckets (ut_tbl t)" 0] d(1)
    unfolding bucket_indices(2) by (simp add: distinct_card)
  moreover have "num_items (ut_tbl t) = of_nat (length es)" using tb by (simp add: tbl_ok_def)
  ultimately show ?thesis
    using fsck_walk_ok [OF l d(2,3), of 0] h by (simp add: HASH_FSCK_def)
qed

end
