(* ===== verification/Uthash_Tables.thy ===== *)
theory Uthash_Tables
  imports Uthash_Correct Hash_Tables
begin

text \<open>
  The tables of the manager (\<open>HASH_FIND\<close>, \<open>HASH_ADD\<close> and \<open>HASH_DELETE\<close> of \<open>Ucm_State\<close>, which
  work on association lists) are what the pointer structures of \<open>Uthash\<close> implement: both
  are interpretations of one interface, an index of elements by their keys, and on the
  same elements they give the same answers.
\<close>

section \<open>The interface\<close>

locale key_index =
  fixes ok :: "'t \<Rightarrow> ptr list \<Rightarrow> bool"
    and key :: "ptr \<Rightarrow> 'k"
    and lookup :: "'k \<Rightarrow> 't \<Rightarrow> ptr result"
    and insert_elem :: "ptr \<Rightarrow> 't \<Rightarrow> 't result"
    and delete_elem :: "ptr \<Rightarrow> 't \<Rightarrow> 't result"
    and room :: "'t \<Rightarrow> ptr list \<Rightarrow> bool"
  assumes lookup_law: "\<lbrakk>ok t es; inj_on key (set es)\<rbrakk> \<Longrightarrow> lookup k t = Inr (find_elem key es k)"
    and insert_law: "\<lbrakk>ok t es; e \<notin> set es; e \<noteq> NULL; room t es\<rbrakk> \<Longrightarrow>
      \<exists>t'. insert_elem e t = Inr t' \<and> ok t' (es @ [e])"
    and delete_law: "\<lbrakk>ok t es; e \<in> set es\<rbrakk> \<Longrightarrow> \<exists>t'. delete_elem e t = Inr t' \<and> ok t' (remove1 e es)"
    and order_law: "ok t es \<Longrightarrow> distinct es \<and> NULL \<notin> set es"
begin

lemma lookup_inserted:
  assumes "ok t es" and "e \<notin> set es" and "e \<noteq> NULL" and "room t es" and "inj_on key (insert e (set es))"
  shows "\<exists>t'. insert_elem e t = Inr t' \<and> ok t' (es @ [e]) \<and>
    (\<forall>k. lookup k t' = (if k = key e then Inr e else lookup k t))"
proof -
  obtain t' where t': "insert_elem e t = Inr t'" "ok t' (es @ [e])"
    using insert_law [OF assms(1-4)] by blast
  have inj: "inj_on key (set es)" "inj_on key (set (es @ [e]))"
    using assms(5) by (auto simp: inj_on_def)
  have "lookup k t' = (if k = key e then Inr e else lookup k t)" for k
  proof (cases "k \<in> key ` set es")
    case True
    then obtain x where x: "x \<in> set es" "k = key x" by auto
    then have "key x \<noteq> key e" using assms(2) inj(2) by (auto simp: inj_on_def)
    then show ?thesis
      using x lookup_law [OF t'(2) inj(2)] lookup_law [OF assms(1) inj(1)]
        find_elem_unique [OF inj(2), of x] find_elem_unique [OF inj(1), of x] by simp
  next
    case False
    then show ?thesis
      using lookup_law [OF t'(2) inj(2)] lookup_law [OF assms(1) inj(1)]
        find_elem_unique [OF inj(2), of e] find_elem_none [of k key es] find_elem_none [of k key "es @ [e]"] by auto
  qed
  then show ?thesis using t' by blast
qed

lemma lookup_deleted:
  assumes "ok t es" and "e \<in> set es" and inj: "inj_on key (set es)"
  shows "\<exists>t'. delete_elem e t = Inr t' \<and> ok t' (remove1 e es) \<and>
    (\<forall>k. lookup k t' = (if k = key e then Inr NULL else lookup k t))"
proof -
  obtain t' where t': "delete_elem e t = Inr t'" "ok t' (remove1 e es)"
    using delete_law [OF assms(1,2)] by blast
  have s: "set (remove1 e es) = set es - {e}" using order_law [OF assms(1)] by simp
  have inj': "inj_on key (set (remove1 e es))" using inj unfolding s by (rule inj_on_diff)
  have "lookup k t' = (if k = key e then Inr NULL else lookup k t)" for k
  proof (cases "k \<in> key ` set (remove1 e es)")
    case True
    then obtain x where x: "x \<in> set (remove1 e es)" "k = key x" by auto
    then have "x \<in> set es" "key x \<noteq> key e" using s inj assms(2) by (auto simp: inj_on_def)
    then show ?thesis
      using x lookup_law [OF t'(2) inj'] lookup_law [OF assms(1) inj]
        find_elem_unique [OF inj', of x] find_elem_unique [OF inj, of x] by simp
  next
    case False
    then have "k = key e \<or> k \<notin> key ` set es" using s by auto
    then show ?thesis
      using False lookup_law [OF t'(2) inj'] lookup_law [OF assms(1) inj] assms(2)
        find_elem_none [OF False] find_elem_none [of k key es] by auto
  qed
  then show ?thesis using t' by blast
qed

lemma insert_delete:
  assumes "ok t es" and "e \<notin> set es" and "e \<noteq> NULL" and "room t es"
  shows "\<exists>t' t''. insert_elem e t = Inr t' \<and> delete_elem e t' = Inr t'' \<and> ok t'' es"
proof -
  obtain t' where t': "insert_elem e t = Inr t'" "ok t' (es @ [e])"
    using insert_law [OF assms] by blast
  moreover have "remove1 e (es @ [e]) = es" using assms(2) by (simp add: remove1_append)
  ultimately show ?thesis using delete_law [OF t'(2), of e] by auto
qed

end

section \<open>Association lists\<close>

definition table_of :: "(ptr \<Rightarrow> 'k) \<Rightarrow> ptr list \<Rightarrow> 'k htab" where
  "table_of key es = rev (map (\<lambda>e. (key e, e)) es)"

definition is_table :: "(ptr \<Rightarrow> 'k) \<Rightarrow> 'k htab \<Rightarrow> ptr list \<Rightarrow> bool" where
  "is_table key t es \<longleftrightarrow> t = table_of key es \<and> distinct es \<and> NULL \<notin> set es"

lemma table_elems [simp]: "snd ` set (table_of key es) = set es"
  by (force simp: table_of_def)

lemma find_table:
  "inj_on key (set es) \<Longrightarrow> HASH_FIND key (table_of key es) k = find_elem key es k"
proof (induction es rule: rev_induct)
  case (snoc e es)
  then have "inj_on key (set es)" by (auto simp: inj_on_def)
  then have "HASH_FIND key (table_of key es) k = find_elem key es k" by (rule snoc.IH)
  moreover have "find_elem key (es @ [e]) k = (if key e = k then e else find_elem key es k)"
    using snoc.prems find_elem_unique [OF snoc.prems, of e] find_elem_none [of k key es]
      find_elem_none [of k key "es @ [e]"] find_elem_unique [OF snoc.prems] find_elem_unique [OF \<open>inj_on key (set es)\<close>]
    by (cases "k \<in> key ` set es") auto
  ultimately show ?case by (simp add: table_of_def)
qed (simp add: table_of_def)

lemma filter_table:
  assumes "distinct es"
  shows "filter (\<lambda>(k, e'). e' \<noteq> e) (table_of key es) = table_of key (remove1 e es)"
proof -
  have "filter (\<lambda>(k, e'). e' \<noteq> e) (table_of key es) = table_of key (removeAll e es)"
    by (induction es) (auto simp: table_of_def)
  then show ?thesis using assms by (simp add: distinct_remove1_removeAll)
qed

interpretation assoc: key_index "is_table key" key "\<lambda>k t. Inr (HASH_FIND key t k)" "\<lambda>e. HASH_ADD (key e) e" HASH_DELETE "\<lambda>_ _. True"
  by unfold_locales (auto simp: is_table_def find_table HASH_ADD_def HASH_DELETE_def filter_table, simp add: table_of_def)

section \<open>Pointer structures\<close>

definition u64_bytes :: "u64 \<Rightarrow> byte list" where
  "u64_bytes x = map (\<lambda>i. ucast (drop_bit (8 * i) x)) [0..<8]"

definition ut_room :: "ut_heap \<Rightarrow> ptr list \<Rightarrow> bool" where
  "ut_room t es \<longleftrightarrow> Suc (length es) < 2 ^ 32 \<and> (es \<noteq> [] \<longrightarrow> log2_num_buckets (ut_tbl t) < 31)"

lemma u64_bytes_length [simp]: "length (u64_bytes x) = 8"
  by (simp add: u64_bytes_def)

lemma u64_bytes_inj: "u64_bytes x = u64_bytes y \<longleftrightarrow> x = y"
proof
  assume eq: "u64_bytes x = u64_bytes y"
  show "x = y"
  proof (rule bit_word_eqI)
    fix n assume "n < LENGTH(64)"
    then have n: "n div 8 < 8" by simp
    have "u64_bytes x ! (n div 8) = u64_bytes y ! (n div 8)" using eq by simp
    then have "bit (ucast (drop_bit (8 * (n div 8)) x) :: byte) (n mod 8) =
        bit (ucast (drop_bit (8 * (n div 8)) y) :: byte) (n mod 8)"
      using n by (simp add: u64_bytes_def)
    then show "bit x n = bit y n" by (simp add: bit_simps)
  qed
qed simp

lemma find_elem_bytes: "find_elem (u64_bytes \<circ> key) es (u64_bytes k) = find_elem key es k"
  by (induction es) (auto simp: u64_bytes_inj)

interpretation ut: key_index "ut_ok (u64_bytes \<circ> key)" key "\<lambda>k. HASH_FIND_hh (u64_bytes \<circ> key) (u64_bytes k)"
  "\<lambda>e. HASH_ADD_hh True (u64_bytes (key e)) e" HASH_DELETE_hh ut_room
proof unfold_locales
  fix t es k assume "ut_ok (u64_bytes \<circ> key) t es" "inj_on key (set es)"
  then show "HASH_FIND_hh (u64_bytes \<circ> key) (u64_bytes k) t = Inr (find_elem key es k)"
    using HASH_FIND_ok [of "u64_bytes \<circ> key" t es "u64_bytes k"]
    by (simp add: find_elem_bytes inj_on_def u64_bytes_inj)
next
  fix t es e assume "ut_ok (u64_bytes \<circ> key) t es" "e \<notin> set es" "e \<noteq> NULL" "ut_room t es"
  then show "\<exists>t'. HASH_ADD_hh True (u64_bytes (key e)) e t = Inr t' \<and> ut_ok (u64_bytes \<circ> key) t' (es @ [e])"
    using HASH_ADD_ok_hh [of "u64_bytes \<circ> key" t es e] by (simp add: ut_room_def)
next
  fix t es e assume "ut_ok (u64_bytes \<circ> key) t es" "e \<in> set es"
  then show "\<exists>t'. HASH_DELETE_hh e t = Inr t' \<and> ut_ok (u64_bytes \<circ> key) t' (remove1 e es)"
    by (rule HASH_DELETE_ok_hh)
next
  fix t es assume "ut_ok (u64_bytes \<circ> key) t es"
  then show "distinct es \<and> NULL \<notin> set es" by (simp add: ut_ok_def)
qed

section \<open>Properties\<close>

text \<open>
  C33: The pointer-level hash table implements the association list the manager's model
  uses. On a table in order that holds the elements \<open>es\<close>, with distinct keys, every lookup
  gives the same element as the association list; adding an element and deleting one
  succeed, lead to a table in order that corresponds to the association list after the
  same operation, also when the addition doubles the buckets, and the table passes the
  library's own integrity check.
\<close>

theorem uthash_implements_tables:
  assumes "ut_ok (u64_bytes \<circ> key) t es" and "inj_on key (set es)"
  shows "(\<forall>k. HASH_FIND_hh (u64_bytes \<circ> key) (u64_bytes k) t = Inr (HASH_FIND key (table_of key es) k)) \<and>
    (\<forall>e. e \<notin> set es \<and> e \<noteq> NULL \<and> ut_room t es \<longrightarrow> (\<exists>t'. HASH_ADD_hh True (u64_bytes (key e)) e t = Inr t' \<and>
       HASH_ADD (key e) e (table_of key es) = Inr (table_of key (es @ [e])) \<and>
       ut_ok (u64_bytes \<circ> key) t' (es @ [e]) \<and> HASH_FSCK t' = Inr ())) \<and>
    (\<forall>e \<in> set es. \<exists>t'. HASH_DELETE_hh e t = Inr t' \<and>
       HASH_DELETE e (table_of key es) = Inr (table_of key (remove1 e es)) \<and>
       ut_ok (u64_bytes \<circ> key) t' (remove1 e es) \<and> HASH_FSCK t' = Inr ())"
proof (intro conjI allI impI ballI)
  have tab: "is_table key (table_of key es) es"
    using ut.order_law [OF assms(1)] by (simp add: is_table_def)
  show "HASH_FIND_hh (u64_bytes \<circ> key) (u64_bytes k) t = Inr (HASH_FIND key (table_of key es) k)" for k
    using ut.lookup_law [OF assms, of k] by (simp add: find_table [OF assms(2)])
  show "\<exists>t'. HASH_ADD_hh True (u64_bytes (key e)) e t = Inr t' \<and>
       HASH_ADD (key e) e (table_of key es) = Inr (table_of key (es @ [e])) \<and>
       ut_ok (u64_bytes \<circ> key) t' (es @ [e]) \<and> HASH_FSCK t' = Inr ()"
    if "e \<notin> set es \<and> e \<noteq> NULL \<and> ut_room t es" for e
    using ut.insert_law [OF assms(1), of e] assoc.insert_law [OF tab, of e] that HASH_FSCK_ok
    by (auto simp: is_table_def)
  show "\<exists>t'. HASH_DELETE_hh e t = Inr t' \<and> HASH_DELETE e (table_of key es) = Inr (table_of key (remove1 e es)) \<and>
       ut_ok (u64_bytes \<circ> key) t' (remove1 e es) \<and> HASH_FSCK t' = Inr ()" if "e \<in> set es" for e
    using ut.delete_law [OF assms(1) that] assoc.delete_law [OF tab that] HASH_FSCK_ok
    by (auto simp: is_table_def)
qed

definition empty_heap :: ut_heap where
  "empty_heap = \<lparr>ut_head = NULL, ut_tbl = \<lparr>buckets = (\<lambda>_. zero_bucket), num_buckets = 0, log2_num_buckets = 0,
     num_items = 0, ut_tail = NULL, ideal_chain_maxlen = 0, nonideal_items = 0, ineff_expands = 0, noexpand = 0\<rparr>,
     el_prev = (\<lambda>_. NULL), el_next = (\<lambda>_. NULL), hh_prev = (\<lambda>_. NULL), hh_next = (\<lambda>_. NULL),
     hh_keylen = (\<lambda>_. 0), hh_hashv = (\<lambda>_. 0)\<rparr>"

lemma empty_heap_ok: "ut_ok key empty_heap []"
  by (simp add: ut_ok_def empty_heap_def)

theorem uthash_implements_tables_witness:
  "\<exists>t t'. HASH_ADD_hh True (u64_bytes 0x200000) 3 empty_heap = Inr t \<and> HASH_FSCK t = Inr () \<and>
     HASH_FIND_hh (u64_bytes \<circ> (\<lambda>e. 0x200000)) (u64_bytes 0x200000) t = Inr 3 \<and>
     HASH_FIND_hh (u64_bytes \<circ> (\<lambda>e. 0x200000)) (u64_bytes 0x400000) t = Inr NULL \<and>
     HASH_DELETE_hh 3 t = Inr t' \<and> HASH_FSCK t' = Inr ()"
proof -
  let ?key = "\<lambda>e :: ptr. 0x200000 :: u64"
  obtain t where t: "HASH_ADD_hh True (u64_bytes 0x200000) 3 empty_heap = Inr t" "ut_ok (u64_bytes \<circ> ?key) t [3]" "HASH_FSCK t = Inr ()"
    using uthash_implements_tables [OF empty_heap_ok, of ?key, THEN conjunct2, THEN conjunct1, rule_format, of 3]
    by (auto simp: ut_room_def)
  show ?thesis
    using t uthash_implements_tables [OF t(2)] by (auto simp: table_of_def u64_bytes_inj)
qed



end
