(* ===== verification/Bitops.thy ===== *)
theory Bitops
  imports Nemo_Shared
begin

text \<open>
  Operations on single bits, bit fields and arrays of bits: \<open>libs/util/include/util/bitops.h\<close>
  and \<open>libs/util/bitops.c\<close>. An array of \<open>unsigned long\<close> is a list of 64-bit words and an
  access outside of it is a fault; bit numbers and sizes, which count the bits of an
  object in memory, are natural numbers.
\<close>

type_synonym bitmap = "u64 list"

section \<open>Counting\<close>

text \<open>\<open>__builtin_ctzll\<close> counts the zeros below the lowest set bit.\<close>

definition builtin_ctzll :: "u64 \<Rightarrow> nat" where
  "builtin_ctzll w = length (takeWhile (\<lambda>i. \<not> bit w i) [0..<64])"

definition clz64 :: "u64 \<Rightarrow> nat" where
  "clz64 w = (if w \<noteq> 0 then 64 - bit_length (unat w) else 64)"

definition ctz64 :: "u64 \<Rightarrow> nat" where
  "ctz64 w = (if w \<noteq> 0 then builtin_ctzll w else 64)"

definition ctpop64 :: "u64 \<Rightarrow> nat" where
  "ctpop64 w = length (filter (bit w) [0..<64])"

section \<open>Single bits of an array\<close>

definition BITS_PER_LONG :: nat where "BITS_PER_LONG = 64"

definition BITS_TO_LONGS :: "nat \<Rightarrow> nat" where
  "BITS_TO_LONGS nr = (nr + BITS_PER_LONG - 1) div BITS_PER_LONG"

definition BIT_MASK :: "nat \<Rightarrow> u64" where
  "BIT_MASK nr = push_bit (nr mod BITS_PER_LONG) 1"

definition BIT_WORD :: "nat \<Rightarrow> nat" where
  "BIT_WORD nr = nr div BITS_PER_LONG"

definition word_at :: "bitmap \<Rightarrow> nat \<Rightarrow> u64 result" where
  "word_at bm i = check Out_Of_Bounds (i < length bm) (Inr (bm ! i))"

definition put_word :: "nat \<Rightarrow> u64 \<Rightarrow> bitmap \<Rightarrow> bitmap result" where
  "put_word i w bm = check Out_Of_Bounds (i < length bm) (Inr (bm[i := w]))"

definition set_bit_arr :: "nat \<Rightarrow> bitmap \<Rightarrow> bitmap result" where
  "set_bit_arr nr bm = andThen (word_at bm (BIT_WORD nr)) (\<lambda>w. put_word (BIT_WORD nr) (w OR BIT_MASK nr) bm)"

definition clear_bit :: "nat \<Rightarrow> bitmap \<Rightarrow> bitmap result" where
  "clear_bit nr bm = andThen (word_at bm (BIT_WORD nr)) (\<lambda>w. put_word (BIT_WORD nr) (w AND NOT (BIT_MASK nr)) bm)"

definition change_bit :: "nat \<Rightarrow> bitmap \<Rightarrow> bitmap result" where
  "change_bit nr bm = andThen (word_at bm (BIT_WORD nr)) (\<lambda>w. put_word (BIT_WORD nr) (w XOR BIT_MASK nr) bm)"

definition test_and_set_bit :: "nat \<Rightarrow> bitmap \<Rightarrow> (bool \<times> bitmap) result" where
  "test_and_set_bit nr bm =
     andThen (word_at bm (BIT_WORD nr)) (\<lambda>old.
     andThen (put_word (BIT_WORD nr) (old OR BIT_MASK nr) bm) (\<lambda>bm. Inr (old AND BIT_MASK nr \<noteq> 0, bm)))"

definition test_and_clear_bit :: "nat \<Rightarrow> bitmap \<Rightarrow> (bool \<times> bitmap) result" where
  "test_and_clear_bit nr bm =
     andThen (word_at bm (BIT_WORD nr)) (\<lambda>old.
     andThen (put_word (BIT_WORD nr) (old AND NOT (BIT_MASK nr)) bm) (\<lambda>bm. Inr (old AND BIT_MASK nr \<noteq> 0, bm)))"

definition test_and_change_bit :: "nat \<Rightarrow> bitmap \<Rightarrow> (bool \<times> bitmap) result" where
  "test_and_change_bit nr bm =
     andThen (word_at bm (BIT_WORD nr)) (\<lambda>old.
     andThen (put_word (BIT_WORD nr) (old XOR BIT_MASK nr) bm) (\<lambda>bm. Inr (old AND BIT_MASK nr \<noteq> 0, bm)))"

definition test_bit_arr :: "nat \<Rightarrow> bitmap \<Rightarrow> u64 result" where
  "test_bit_arr nr bm = andThen (word_at bm (BIT_WORD nr)) (\<lambda>w. Inr (1 AND drop_bit (nr mod BITS_PER_LONG) w))"

section \<open>Searching\<close>

definition found_middle :: "u64 \<Rightarrow> nat \<Rightarrow> nat result" where
  "found_middle tmp res = Inr (res + ctz64 tmp)"

definition found_first :: "u64 \<Rightarrow> nat \<Rightarrow> nat \<Rightarrow> nat result" where
  "found_first tmp res sz =
     (let tmp = tmp AND drop_bit (BITS_PER_LONG - sz) (-1)
      in if tmp = 0 then Inr (res + sz) else found_middle tmp res)"

function next_word :: "bitmap \<Rightarrow> nat \<Rightarrow> nat \<Rightarrow> nat \<Rightarrow> nat result" where
  "next_word bm p res sz =
     (if BITS_PER_LONG \<le> sz
      then andThen (word_at bm p) (\<lambda>tmp.
           if tmp \<noteq> 0 then found_middle tmp res
           else next_word bm (p + 1) (res + BITS_PER_LONG) (sz - BITS_PER_LONG))
      else if sz = 0 then Inr res
      else andThen (word_at bm p) (\<lambda>tmp. found_first tmp res sz))"
  by pat_completeness auto
termination by (relation "measure (\<lambda>(_, _, _, sz). sz)") (auto simp: BITS_PER_LONG_def)

function next_four_words :: "bitmap \<Rightarrow> nat \<Rightarrow> nat \<Rightarrow> nat \<Rightarrow> nat result" where
  "next_four_words bm p res sz =
     (if 4 * BITS_PER_LONG \<le> sz
      then andThen (word_at bm p) (\<lambda>tmp.
           andThen (word_at bm (p + 1)) (\<lambda>d1.
           andThen (word_at bm (p + 2)) (\<lambda>d2.
           andThen (word_at bm (p + 3)) (\<lambda>d3.
           if tmp \<noteq> 0 then found_middle tmp res
           else if d1 OR d2 OR d3 \<noteq> 0 then next_word bm p res sz
           else next_four_words bm (p + 4) (res + 4 * BITS_PER_LONG) (sz - 4 * BITS_PER_LONG)))))
      else next_word bm p res sz)"
  by pat_completeness auto
termination by (relation "measure (\<lambda>(_, _, _, sz). sz)") (auto simp: BITS_PER_LONG_def)

definition find_next_bit :: "bitmap \<Rightarrow> nat \<Rightarrow> nat \<Rightarrow> nat result" where
  "find_next_bit bm sz offset =
     (let p = BIT_WORD offset; res = offset - offset mod BITS_PER_LONG
      in if sz \<le> offset then Inr sz
         else let sz = sz - res; offset = offset mod BITS_PER_LONG
              in if offset \<noteq> 0
                 then andThen (word_at bm p) (\<lambda>tmp.
                      let tmp = tmp AND push_bit offset (-1)
                      in if sz < BITS_PER_LONG then found_first tmp res sz
                         else if tmp \<noteq> 0 then found_middle tmp res
                         else next_four_words bm (p + 1) (res + BITS_PER_LONG) (sz - BITS_PER_LONG))
                 else next_four_words bm p res sz)"

definition found_first_zero :: "u64 \<Rightarrow> nat \<Rightarrow> nat \<Rightarrow> nat result" where
  "found_first_zero tmp res sz =
     (let tmp = tmp OR push_bit sz (-1)
      in if tmp = -1 then Inr (res + sz) else found_middle (NOT tmp) res)"

function next_zero_word :: "bitmap \<Rightarrow> nat \<Rightarrow> nat \<Rightarrow> nat \<Rightarrow> nat result" where
  "next_zero_word bm p res sz =
     (if BITS_PER_LONG \<le> sz
      then andThen (word_at bm p) (\<lambda>tmp.
           if NOT tmp \<noteq> 0 then found_middle (NOT tmp) res
           else next_zero_word bm (p + 1) (res + BITS_PER_LONG) (sz - BITS_PER_LONG))
      else if sz = 0 then Inr res
      else andThen (word_at bm p) (\<lambda>tmp. found_first_zero tmp res sz))"
  by pat_completeness auto
termination by (relation "measure (\<lambda>(_, _, _, sz). sz)") (auto simp: BITS_PER_LONG_def)

definition find_next_zero_bit :: "bitmap \<Rightarrow> nat \<Rightarrow> nat \<Rightarrow> nat result" where
  "find_next_zero_bit bm sz offset =
     (let p = BIT_WORD offset; res = offset - offset mod BITS_PER_LONG
      in if sz \<le> offset then Inr sz
         else let sz = sz - res; offset = offset mod BITS_PER_LONG
              in if offset \<noteq> 0
                 then andThen (word_at bm p) (\<lambda>tmp.
                      let tmp = tmp OR drop_bit (BITS_PER_LONG - offset) (-1)
                      in if sz < BITS_PER_LONG then found_first_zero tmp res sz
                         else if NOT tmp \<noteq> 0 then found_middle (NOT tmp) res
                         else next_zero_word bm (p + 1) (res + BITS_PER_LONG) (sz - BITS_PER_LONG))
                 else next_zero_word bm p res sz)"

definition last_found :: "nat \<Rightarrow> u64 \<Rightarrow> nat" where
  "last_found words tmp = words * BITS_PER_LONG + BITS_PER_LONG - 1 - clz64 tmp"

fun last_word :: "bitmap \<Rightarrow> nat \<Rightarrow> nat \<Rightarrow> nat result" where
  "last_word bm 0 sz = Inr sz"
| "last_word bm (Suc words) sz =
     andThen (word_at bm words) (\<lambda>tmp. if tmp \<noteq> 0 then Inr (last_found words tmp) else last_word bm words sz)"

definition find_last_bit :: "bitmap \<Rightarrow> nat \<Rightarrow> nat result" where
  "find_last_bit bm sz =
     (let words = sz div BITS_PER_LONG
      in if sz mod BITS_PER_LONG \<noteq> 0
         then andThen (word_at bm words) (\<lambda>w.
              let tmp = w AND drop_bit (BITS_PER_LONG - sz mod BITS_PER_LONG) (-1)
              in if tmp \<noteq> 0 then Inr (last_found words tmp) else last_word bm words sz)
         else last_word bm words sz)"

function first_word :: "bitmap \<Rightarrow> nat \<Rightarrow> nat \<Rightarrow> nat \<Rightarrow> nat result" where
  "first_word bm p res sz =
     (if res < sz
      then andThen (word_at bm p) (\<lambda>tmp.
           if tmp \<noteq> 0 then Inr (let r = res + ctz64 tmp in if r < sz then r else sz)
           else first_word bm (p + 1) (res + BITS_PER_LONG) sz)
      else Inr sz)"
  by pat_completeness auto
termination by (relation "measure (\<lambda>(_, _, res, sz). sz - res)") (auto simp: BITS_PER_LONG_def)

definition find_first_bit :: "bitmap \<Rightarrow> nat \<Rightarrow> nat result" where
  "find_first_bit bm sz = first_word bm 0 0 sz"

definition find_first_zero_bit :: "bitmap \<Rightarrow> nat \<Rightarrow> nat result" where
  "find_first_zero_bit bm sz = find_next_zero_bit bm sz 0"

declare next_word.simps [simp del] next_four_words.simps [simp del] next_zero_word.simps [simp del]
  first_word.simps [simp del]

section \<open>Rotations and fields of one word\<close>

text \<open>The amount of the second shift, \<open>(width - shift) & (width - 1)\<close> in unsigned arithmetic.\<close>

definition back_shift :: "nat \<Rightarrow> nat \<Rightarrow> nat" where
  "back_shift width sh = (width - sh mod width) mod width"

definition rol64 :: "64 word \<Rightarrow> nat \<Rightarrow> 64 word result" where
  "rol64 w sh = check Undefined (sh < 64) (Inr (push_bit sh w OR drop_bit (back_shift 64 sh) w))"

definition ror64 :: "64 word \<Rightarrow> nat \<Rightarrow> 64 word result" where
  "ror64 w sh = check Undefined (sh < 64) (Inr (drop_bit sh w OR push_bit (back_shift 64 sh) w))"

definition rol32 :: "32 word \<Rightarrow> nat \<Rightarrow> 32 word result" where
  "rol32 w sh = check Undefined (sh < 32) (Inr (push_bit sh w OR drop_bit (back_shift 32 sh) w))"

definition ror32 :: "32 word \<Rightarrow> nat \<Rightarrow> 32 word result" where
  "ror32 w sh = check Undefined (sh < 32) (Inr (drop_bit sh w OR push_bit (back_shift 32 sh) w))"

definition extract64 :: "64 word \<Rightarrow> int \<Rightarrow> int \<Rightarrow> 64 word result" where
  "extract64 v start len = assertC (0 \<le> start \<and> 0 < len \<and> len \<le> 64 - start)
     (Inr (drop_bit (nat start) v AND drop_bit (nat (64 - len)) (-1)))"

definition extract32 :: "32 word \<Rightarrow> int \<Rightarrow> int \<Rightarrow> 32 word result" where
  "extract32 v start len = assertC (0 \<le> start \<and> 0 < len \<and> len \<le> 32 - start)
     (Inr (drop_bit (nat start) v AND drop_bit (nat (32 - len)) (-1)))"

definition deposit64 :: "64 word \<Rightarrow> int \<Rightarrow> int \<Rightarrow> 64 word \<Rightarrow> 64 word result" where
  "deposit64 v start len fieldval = assertC (0 \<le> start \<and> 0 < len \<and> len \<le> 64 - start)
     (let m = push_bit (nat start) (drop_bit (nat (64 - len)) (-1))
      in Inr (v AND NOT m OR push_bit (nat start) fieldval AND m))"

definition deposit32 :: "32 word \<Rightarrow> int \<Rightarrow> int \<Rightarrow> 32 word \<Rightarrow> 32 word result" where
  "deposit32 v start len fieldval = assertC (0 \<le> start \<and> 0 < len \<and> len \<le> 32 - start)
     (let m = push_bit (nat start) (drop_bit (nat (32 - len)) (-1))
      in Inr (v AND NOT m OR push_bit (nat start) fieldval AND m))"

definition sextract64 :: "64 word \<Rightarrow> int \<Rightarrow> int \<Rightarrow> int result" where
  "sextract64 v start len = assertC (0 \<le> start \<and> 0 < len \<and> len \<le> 64 - start)
     (Inr (sint (signed_drop_bit (nat (64 - len)) (push_bit (nat (64 - len - start)) v))))"

definition sextract32 :: "32 word \<Rightarrow> int \<Rightarrow> int \<Rightarrow> int result" where
  "sextract32 v start len = assertC (0 \<le> start \<and> 0 < len \<and> len \<le> 32 - start)
     (Inr (sint (signed_drop_bit (nat (32 - len)) (push_bit (nat (32 - len - start)) v))))"

definition half_shuffle32 :: "32 word \<Rightarrow> 32 word" where
  "half_shuffle32 x =
     (let x = push_bit 8 (x AND 0xFF00) OR (x AND 0xFF);
          x = (push_bit 4 x OR x) AND 0x0F0F0F0F;
          x = (push_bit 2 x OR x) AND 0x33333333;
          x = (push_bit 1 x OR x) AND 0x55555555
      in x)"

definition half_unshuffle32 :: "32 word \<Rightarrow> 32 word" where
  "half_unshuffle32 x =
     (let x = x AND 0x55555555;
          x = (drop_bit 1 x OR x) AND 0x33333333;
          x = (drop_bit 2 x OR x) AND 0x0F0F0F0F;
          x = (drop_bit 4 x OR x) AND 0x00FF00FF;
          x = (drop_bit 8 x OR x) AND 0x0000FFFF
      in x)"

definition half_shuffle64 :: "64 word \<Rightarrow> 64 word" where
  "half_shuffle64 x =
     (let x = push_bit 16 (x AND 0xFFFF0000) OR (x AND 0xFFFF);
          x = (push_bit 8 x OR x) AND 0x00FF00FF00FF00FF;
          x = (push_bit 4 x OR x) AND 0x0F0F0F0F0F0F0F0F;
          x = (push_bit 2 x OR x) AND 0x3333333333333333;
          x = (push_bit 1 x OR x) AND 0x5555555555555555
      in x)"

definition half_unshuffle64 :: "64 word \<Rightarrow> 64 word" where
  "half_unshuffle64 x =
     (let x = x AND 0x5555555555555555;
          x = (drop_bit 1 x OR x) AND 0x3333333333333333;
          x = (drop_bit 2 x OR x) AND 0x0F0F0F0F0F0F0F0F;
          x = (drop_bit 4 x OR x) AND 0x00FF00FF00FF00FF;
          x = (drop_bit 8 x OR x) AND 0x0000FFFF0000FFFF;
          x = (drop_bit 16 x OR x) AND 0x00000000FFFFFFFF
      in x)"

end
