(* ===== verification/Bitops_Correct.thy ===== *)
theory Bitops_Correct
  imports Bitops
begin

text \<open>
  Correctness of the bit operations of \<open>Bitops\<close>: an array of words is a sequence of bits,
  the operations on single bits read and change one of them, and the searches, which work
  word by word and four words at a time, agree with looking at the bits one after the
  other.
\<close>

section \<open>The bits of an array\<close>

definition bit_at :: "bitmap \<Rightarrow> nat \<Rightarrow> bool" where
  "bit_at bm n \<longleftrightarrow> bit (bm ! (n div 64)) (n mod 64)"

definition bit_count :: "bitmap \<Rightarrow> nat" where
  "bit_count bm = 64 * length bm"

lemma bit_at_word: "i < 64 \<Longrightarrow> bit_at bm (64 * p + i) = bit (bm ! p) i"
  by (simp add: bit_at_def)

lemma bitmap_eqI:
  assumes "length bm = length bm'" and "\<And>n. n < bit_count bm \<Longrightarrow> bit_at bm n = bit_at bm' n"
  shows "bm = bm'"
proof (rule nth_equalityI [OF assms(1)])
  fix p assume p: "p < length bm"
  show "bm ! p = bm' ! p"
  proof (rule bit_word_eqI)
    fix i assume "i < LENGTH(64)"
    then show "bit (bm ! p) i = bit (bm' ! p) i"
      using assms(2) [of "64 * p + i"] p bit_at_word [of i] by (simp add: bit_count_def)
  qed
qed

lemma bit_at_update:
  assumes "p < length bm" and "\<And>i. i < 64 \<Longrightarrow> bit w i = f (64 * p + i)"
  shows "bit_at (bm[p := w]) n = (if n div 64 = p then f n else bit_at bm n)"
proof (cases "n div 64 = p")
  case True
  have "64 * p + n mod 64 = n" using True by (metis mult_div_mod_eq)
  then show ?thesis using assms assms(2) [of "n mod 64"] True by (simp add: bit_at_def)
qed (use assms in \<open>simp add: bit_at_def\<close>)

lemma index_less: "n < bit_count bm \<Longrightarrow> n div 64 < length bm"
  by (simp add: bit_count_def less_mult_imp_div_less mult.commute)

section \<open>Single bits\<close>

lemma BIT_MASK_bit: "i < 64 \<Longrightarrow> bit (BIT_MASK nr) i \<longleftrightarrow> i = nr mod 64"
  by (auto simp: BIT_MASK_def BITS_PER_LONG_def bit_simps)

lemma bit_index_eq: "i < 64 \<Longrightarrow> (64 * ((nr :: nat) div 64) + i = nr) = (i = nr mod 64)"
  using mult_div_mod_eq [of 64 nr] by linarith

lemma word_zero_bits: "(w :: u64) = 0 \<longleftrightarrow> (\<forall>i < 64. \<not> bit w i)"
proof
  assume a: "\<forall>i < 64. \<not> bit w i"
  show "w = 0"
  proof (rule bit_word_eqI)
    show "bit w i = bit 0 i" if "i < LENGTH(64)" for i
      using spec [OF a, of i] that by simp
  qed
qed simp

lemma mask_test: "w AND BIT_MASK nr \<noteq> 0 \<longleftrightarrow> bit w (nr mod 64)"
proof -
  have "bit (w AND BIT_MASK nr) i \<longleftrightarrow> i = nr mod 64 \<and> bit w (nr mod 64)" if "i < 64" for i
    using that by (auto simp: bit_and_iff BIT_MASK_bit)
  moreover have "nr mod 64 < 64" by simp
  ultimately show ?thesis unfolding word_zero_bits by blast
qed

definition put_bit :: "nat \<Rightarrow> bool \<Rightarrow> bitmap \<Rightarrow> bitmap" where
  "put_bit nr b bm = bm[nr div 64 := (if b then bm ! (nr div 64) OR BIT_MASK nr else bm ! (nr div 64) AND NOT (BIT_MASK nr))]"

lemma put_bit_at:
  assumes "nr < bit_count bm"
  shows "bit_at (put_bit nr b bm) n = (if n = nr then b else bit_at bm n)" and "length (put_bit nr b bm) = length bm"
proof -
  let ?w = "if b then bm ! (nr div 64) OR BIT_MASK nr else bm ! (nr div 64) AND NOT (BIT_MASK nr)"
  have "bit ?w i = (if 64 * (nr div 64) + i = nr then b else bit_at bm (64 * (nr div 64) + i))" if "i < 64" for i
    by (simp only: bit_index_eq [OF that] bit_at_word [OF that] bit_or_iff bit_and_iff bit_not_iff BIT_MASK_bit [OF that]
        split: if_splits) (simp add: that)
  then have "bit_at (put_bit nr b bm) n = (if n div 64 = nr div 64 then if n = nr then b else bit_at bm n else bit_at bm n)"
    unfolding put_bit_def by (rule bit_at_update [OF index_less [OF assms]])
  then show "bit_at (put_bit nr b bm) n = (if n = nr then b else bit_at bm n)" by auto
  show "length (put_bit nr b bm) = length bm" by (simp add: put_bit_def)
qed

lemmas bit_arr_defs = word_at_def put_word_def BIT_WORD_def BITS_PER_LONG_def

lemma single_bit_ops:
  assumes "nr < bit_count bm"
  shows "set_bit_arr nr bm = Inr (put_bit nr True bm)"
    and "clear_bit nr bm = Inr (put_bit nr False bm)"
    and "change_bit nr bm = Inr (put_bit nr (\<not> bit_at bm nr) bm)"
    and "test_and_set_bit nr bm = Inr (bit_at bm nr, put_bit nr True bm)"
    and "test_and_clear_bit nr bm = Inr (bit_at bm nr, put_bit nr False bm)"
    and "test_and_change_bit nr bm = Inr (bit_at bm nr, put_bit nr (\<not> bit_at bm nr) bm)"
    and "test_bit_arr nr bm = Inr (if bit_at bm nr then 1 else 0)"
proof -
  note i = index_less [OF assms]
  have x: "bm ! (nr div 64) XOR BIT_MASK nr =
      (if bit_at bm nr then bm ! (nr div 64) AND NOT (BIT_MASK nr) else bm ! (nr div 64) OR BIT_MASK nr)"
    by (rule bit_word_eqI) (auto simp: bit_simps BIT_MASK_bit bit_at_def)
  show "set_bit_arr nr bm = Inr (put_bit nr True bm)" "clear_bit nr bm = Inr (put_bit nr False bm)"
    "test_and_set_bit nr bm = Inr (bit_at bm nr, put_bit nr True bm)"
    "test_and_clear_bit nr bm = Inr (bit_at bm nr, put_bit nr False bm)"
    using i by (simp_all add: set_bit_arr_def clear_bit_def test_and_set_bit_def test_and_clear_bit_def
        bit_arr_defs put_bit_def mask_test bit_at_def)
  show "change_bit nr bm = Inr (put_bit nr (\<not> bit_at bm nr) bm)"
    "test_and_change_bit nr bm = Inr (bit_at bm nr, put_bit nr (\<not> bit_at bm nr) bm)"
    using i x by (simp_all add: change_bit_def test_and_change_bit_def bit_arr_defs put_bit_def mask_test)
      (simp_all add: bit_at_def)
  have "1 AND drop_bit (nr mod 64) (bm ! (nr div 64)) = (if bit_at bm nr then 1 else 0)"
    by (rule bit_word_eqI) (auto simp: bit_simps bit_at_def)
  then show "test_bit_arr nr bm = Inr (if bit_at bm nr then 1 else 0)"
    using i by (simp add: test_bit_arr_def bit_arr_defs)
qed

section \<open>Searching\<close>

definition next_bit :: "(nat \<Rightarrow> bool) \<Rightarrow> nat \<Rightarrow> nat \<Rightarrow> nat" where
  "next_bit P sz off = (case find P [off..<sz] of None \<Rightarrow> sz | Some n \<Rightarrow> n)"

definition is_next :: "(nat \<Rightarrow> bool) \<Rightarrow> nat \<Rightarrow> nat \<Rightarrow> nat \<Rightarrow> bool" where
  "is_next P sz off r \<longleftrightarrow> off \<le> r \<and> r \<le> sz \<and> (\<forall>n. off \<le> n \<and> n < r \<longrightarrow> \<not> P n) \<and> (r < sz \<longrightarrow> P r)"

lemma next_bit_is_next:
  assumes "off \<le> sz"
  shows "is_next P sz off (next_bit P sz off)"
proof (cases "find P [off..<sz]")
  case None
  then have "\<forall>n. off \<le> n \<and> n < sz \<longrightarrow> \<not> P n" by (simp add: find_None_iff)
  then show ?thesis using assms None by (simp add: next_bit_def is_next_def)
next
  case (Some n)
  then obtain i where i: "i < sz - off" "P (off + i)" "n = off + i" "\<forall>j < i. \<not> P (off + j)"
    by (auto simp: find_Some_iff)
  have "\<not> P k" if "off \<le> k" "k < n" for k
    using i(4) that i(3) by (auto dest!: spec [of _ "k - off"])
  then show ?thesis
    using Some i(1-3) by (simp add: next_bit_def is_next_def)
qed

lemma is_next_unique: "\<lbrakk>is_next P sz off r; is_next P sz off r'\<rbrakk> \<Longrightarrow> r = r'"
  by (metis is_next_def linorder_less_linear order_less_le_trans)

lemma is_next_eq: "is_next P sz off r \<Longrightarrow> r = next_bit P sz off"
  by (rule is_next_unique, assumption, rule next_bit_is_next) (simp add: is_next_def)

lemma is_next_end [simp]: "is_next P sz sz sz"
  by (auto simp: is_next_def)

lemma is_next_skip:
  assumes "is_next P sz off' r" and "off \<le> off'" and "\<And>n. \<lbrakk>off \<le> n; n < off'\<rbrakk> \<Longrightarrow> \<not> P n"
  shows "is_next P sz off r"
  unfolding is_next_def
proof (intro conjI allI impI)
  fix n assume "off \<le> n \<and> n < r"
  then show "\<not> P n" using assms by (cases "n < off'") (auto simp: is_next_def)
qed (use assms in \<open>auto simp: is_next_def\<close>)

lemma ctz64_ok:
  assumes "w \<noteq> 0"
  shows "bit w (ctz64 w)" and "ctz64 w < 64" and "\<And>i. i < ctz64 w \<Longrightarrow> \<not> bit w i"
proof -
  let ?k = "length (takeWhile (\<lambda>i. \<not> bit w i) [0..<64])"
  obtain j where j: "j < 64" "bit w j" using assms word_zero_bits [of w] by auto
  have k: "?k < length [0..<64]"
  proof (rule ccontr)
    assume "\<not> ?k < length [0..<64]"
    then have "takeWhile (\<lambda>i. \<not> bit w i) [0..<64] = [0..<64]"
      by (metis length_takeWhile_le le_neq_implies_less takeWhile_eq_take take_all_iff not_less)
    then have "\<forall>i \<in> set [0..<64]. \<not> bit w i" by (simp add: takeWhile_eq_all_conv)
    then show False using j by auto
  qed
  have e: "ctz64 w = ?k" using assms by (simp add: ctz64_def builtin_ctzll_def)
  show "ctz64 w < 64" using k e by simp
  show "bit w (ctz64 w)" using nth_length_takeWhile [OF k] k e by simp
  show "\<not> bit w i" if "i < ctz64 w" for i
    using takeWhile_nth [of i "\<lambda>i. \<not> bit w i" "[0..<64]"] nth_mem [of i "takeWhile (\<lambda>i. \<not> bit w i) [0..<64]"]
      set_takeWhileD [of _ "\<lambda>i. \<not> bit w i" "[0..<64]"] that e k by fastforce
qed

text \<open>One word of a search: \<open>w\<close> shows the bits of interest of the \<open>p\<close>-th word.\<close>

definition word_view :: "(nat \<Rightarrow> bool) \<Rightarrow> nat \<Rightarrow> nat \<Rightarrow> nat \<Rightarrow> u64 \<Rightarrow> bool" where
  "word_view P sz off p w \<longleftrightarrow>
     64 * p \<le> off \<and> off \<le> sz \<and> (\<forall>i < 64. bit w i \<longleftrightarrow> off \<le> 64 * p + i \<and> 64 * p + i < sz \<and> P (64 * p + i))"

lemma word_view_found:
  assumes "word_view P sz off p w" and "w \<noteq> 0"
  shows "is_next P sz off (64 * p + ctz64 w)"
  unfolding is_next_def
proof (intro conjI allI impI)
  have b: "off \<le> 64 * p + ctz64 w \<and> 64 * p + ctz64 w < sz \<and> P (64 * p + ctz64 w)"
    using assms ctz64_ok(1,2) [OF assms(2)] by (auto simp: word_view_def)
  then show "off \<le> 64 * p + ctz64 w" "64 * p + ctz64 w \<le> sz" "P (64 * p + ctz64 w)" by auto
  fix n assume n: "off \<le> n \<and> n < 64 * p + ctz64 w"
  then obtain i where i: "n = 64 * p + i" using assms(1) le_Suc_ex [of "64 * p" n] by (auto simp: word_view_def)
  have "i < ctz64 w" using n i by simp
  then have "\<not> bit w i" "i < 64" using ctz64_ok(2,3) [OF assms(2)] by auto
  then show "\<not> P n" using assms(1) n i b by (auto simp: word_view_def)
qed

lemma word_view_none:
  assumes "word_view P sz off p 0" and "off \<le> n" and "n < sz" and "n < 64 * p + 64"
  shows "\<not> P n"
proof -
  have "64 * p \<le> n" using assms(1,2) by (auto simp: word_view_def)
  then obtain i where i: "n = 64 * p + i" using le_Suc_ex by blast
  then show ?thesis using assms by (auto simp: word_view_def)
qed

lemma word_view_end:
  assumes "word_view P sz off p 0" and "sz \<le> 64 * p + 64"
  shows "is_next P sz off sz"
proof -
  have "\<not> P n" if "off \<le> n" "n < sz" for n
    using word_view_none [OF assms(1) that] that assms(2) by simp
  moreover have "off \<le> sz" using assms(1) by (simp add: word_view_def)
  ultimately show ?thesis by (simp add: is_next_def)
qed

lemma word_view_skip:
  assumes "word_view P sz off p 0" and "off \<le> 64 * p + 64" and "64 * p + 64 \<le> sz" and "is_next P sz (64 * p + 64) r"
  shows "is_next P sz off r"
  using assms(4,2)
proof (rule is_next_skip)
  show "\<not> P n" if "off \<le> n" "n < 64 * p + 64" for n
    using word_view_none [OF assms(1) that(1)] that assms(3) by simp
qed

text \<open>The answer a search gives from one word, last word or not.\<close>

lemma word_view_answer:
  assumes "word_view P sz off p w" and "sz \<le> 64 * p + 64" and "res = (if w = 0 then Inr sz else Inr (64 * p + ctz64 w))"
  shows "\<exists>r. res = Inr r \<and> is_next P sz off r"
  using assms word_view_found [OF assms(1)] word_view_end [of P sz off p] by (cases "w = 0") simp_all

lemma word_view_answer_rest:
  assumes "word_view P sz off p w" and "off \<le> 64 * p + 64" and "64 * p + 64 \<le> sz" and "is_next P sz (64 * p + 64) r"
    and "res = (if w = 0 then Inr r else Inr (64 * p + ctz64 w))"
  shows "\<exists>r. res = Inr r \<and> is_next P sz off r"
  using assms word_view_found [OF assms(1)] word_view_skip [of P sz off p r] by (cases "w = 0") simp_all

lemma word_view_full:
  "\<lbrakk>64 * p + 64 \<le> sz; \<And>i. i < 64 \<Longrightarrow> bit w i = P (64 * p + i)\<rbrakk> \<Longrightarrow> word_view P sz (64 * p) p w"
  by (auto simp: word_view_def)

lemma next_word_ok:
  assumes "64 * p + sz \<le> bit_count bm"
  shows "\<exists>r. next_word bm p (64 * p) sz = Inr r \<and> is_next (bit_at bm) (64 * p + sz) (64 * p) r"
  using assms
proof (induction sz arbitrary: p rule: less_induct)
  case (less sz)
  note step = next_word.simps [of bm p "64 * p" sz]
  show ?case
  proof (cases "sz = 0")
    case True
    then show ?thesis using step by (simp add: BITS_PER_LONG_def)
  next
    case nz: False
    have p: "p < length bm" using less.prems nz by (simp add: bit_count_def)
    show ?thesis
    proof (cases "64 \<le> sz")
      case True
      have v: "word_view (bit_at bm) (64 * p + sz) (64 * p) p (bm ! p)"
        by (rule word_view_full) (use True in \<open>simp_all add: bit_at_word\<close>)
      have "64 * (p + 1) + (sz - 64) = 64 * p + sz" "64 * (p + 1) = 64 * p + 64" using True by simp_all
      then obtain r where r: "next_word bm (p + 1) (64 * p + 64) (sz - 64) = Inr r" "is_next (bit_at bm) (64 * p + sz) (64 * p + 64) r"
        using less.IH [of "sz - 64" "p + 1"] less.prems True by (auto simp: add.commute)
      show ?thesis
        by (rule word_view_answer_rest [OF v _ _ r(2)])
          (use step True p r in \<open>simp_all add: BITS_PER_LONG_def word_at_def found_middle_def\<close>)
    next
      case False
      let ?w = "bm ! p AND drop_bit (64 - sz) (-1)"
      have v: "word_view (bit_at bm) (64 * p + sz) (64 * p) p ?w"
        using False by (auto simp: word_view_def bit_simps bit_at_word)
      show ?thesis
        by (rule word_view_answer [OF v])
          (use step False nz p in \<open>simp_all add: BITS_PER_LONG_def word_at_def found_first_def found_middle_def Let_def\<close>)
    qed
  qed
qed

lemma next_four_words_ok:
  assumes "64 * p + sz \<le> bit_count bm"
  shows "\<exists>r. next_four_words bm p (64 * p) sz = Inr r \<and> is_next (bit_at bm) (64 * p + sz) (64 * p) r"
  using assms
proof (induction sz arbitrary: p rule: less_induct)
  case (less sz)
  note step = next_four_words.simps [of bm p "64 * p" sz]
  show ?case
  proof (cases "256 \<le> sz")
    case False
    then show ?thesis using step next_word_ok [OF less.prems] by (simp add: BITS_PER_LONG_def)
  next
    case True
    have p: "p + 3 < length bm" using less.prems True by (simp add: bit_count_def)
    have v: "word_view (bit_at bm) (64 * p + sz) (64 * p) p (bm ! p)"
      by (rule word_view_full) (use True in \<open>simp_all add: bit_at_word\<close>)
    have "64 * (p + 4) + (sz - 256) = 64 * p + sz" "64 * (p + 4) = 64 * p + 256" using True by simp_all
    then obtain r where r: "next_four_words bm (p + 4) (64 * p + 256) (sz - 256) = Inr r"
        "is_next (bit_at bm) (64 * p + sz) (64 * p + 256) r"
      using less.IH [of "sz - 256" "p + 4"] less.prems True by auto
    have skip: "is_next (bit_at bm) (64 * p + sz) (64 * p) r"
      if z: "bm ! p = 0" "bm ! (p + 1) = 0" "bm ! (p + 2) = 0" "bm ! (p + 3) = 0"
    proof (rule is_next_skip [OF r(2)])
      fix n assume "64 * p \<le> n" "n < 64 * p + 256"
      then have "n div 64 = p \<or> n div 64 = p + 1 \<or> n div 64 = p + 2 \<or> n div 64 = p + 3" by linarith
      then show "\<not> bit_at bm n" using z by (auto simp: bit_at_def)
    qed simp
    show ?thesis
      using step True p r skip word_view_found [OF v] next_word_ok [OF less.prems]
      by (simp add: BITS_PER_LONG_def word_at_def found_middle_def or_eq_0_iff)
  qed
qed

lemma not_zero_iff: "NOT (w :: u64) = 0 \<longleftrightarrow> w = -1"
  by (metis bit.compl_one bit.double_compl)

lemma next_zero_word_ok:
  assumes "64 * p + sz \<le> bit_count bm"
  shows "\<exists>r. next_zero_word bm p (64 * p) sz = Inr r \<and> is_next (\<lambda>n. \<not> bit_at bm n) (64 * p + sz) (64 * p) r"
  using assms
proof (induction sz arbitrary: p rule: less_induct)
  case (less sz)
  let ?P = "\<lambda>n. \<not> bit_at bm n"
  note step = next_zero_word.simps [of bm p "64 * p" sz]
  show ?case
  proof (cases "sz = 0")
    case True
    then show ?thesis using step by (simp add: BITS_PER_LONG_def)
  next
    case nz: False
    have p: "p < length bm" using less.prems nz by (simp add: bit_count_def)
    show ?thesis
    proof (cases "64 \<le> sz")
      case True
      have v: "word_view ?P (64 * p + sz) (64 * p) p (NOT (bm ! p))"
        by (rule word_view_full) (use True in \<open>simp_all add: bit_at_word bit_not_iff\<close>)
      have "64 * (p + 1) + (sz - 64) = 64 * p + sz" "64 * (p + 1) = 64 * p + 64" using True by simp_all
      then obtain r where r: "next_zero_word bm (p + 1) (64 * p + 64) (sz - 64) = Inr r" "is_next ?P (64 * p + sz) (64 * p + 64) r"
        using less.IH [of "sz - 64" "p + 1"] less.prems True by (auto simp: add.commute)
      show ?thesis
        by (rule word_view_answer_rest [OF v _ _ r(2)])
          (use step True p r in \<open>simp_all add: BITS_PER_LONG_def word_at_def found_middle_def\<close>)
    next
      case False
      let ?w = "bm ! p OR push_bit sz (-1)"
      have v: "word_view ?P (64 * p + sz) (64 * p) p (NOT ?w)"
        using False by (auto simp: word_view_def bit_simps bit_at_word)
      show ?thesis
        by (rule word_view_answer [OF v])
          (use step False nz p not_zero_iff [of ?w] in
            \<open>simp_all add: BITS_PER_LONG_def word_at_def found_first_zero_def found_middle_def Let_def\<close>)
    qed
  qed
qed

lemma split_offset:
  fixes offset sz :: nat
  assumes "offset < sz"
  obtains p j where "offset = 64 * p + j" and "j < 64" and "offset div 64 = p" and "offset mod 64 = j" and "64 * p + (sz - 64 * p) = sz"
proof -
  have "64 * (offset div 64) \<le> offset" by simp
  then show ?thesis
    using that [of "offset div 64" "offset mod 64"] assms by simp
qed

lemma find_next_bit_next:
  assumes "offset < sz" and "sz \<le> bit_count bm"
  shows "\<exists>r. find_next_bit bm sz offset = Inr r \<and> is_next (bit_at bm) sz offset r"
proof -
  obtain p j where o: "offset = 64 * p + j" "j < 64" "offset div 64 = p" "offset mod 64 = j" "64 * p + (sz - 64 * p) = sz"
    using split_offset [OF assms(1)] .
  have p: "p < length bm" using o(3) assms index_less [of offset bm] by simp
  let ?w = "bm ! p AND push_bit j (-1)"
  note e = find_next_bit_def [of bm sz offset, unfolded BIT_WORD_def BITS_PER_LONG_def o(3,4) Let_def]
  have four: "\<exists>r. next_four_words bm q (64 * q) (sz - 64 * q) = Inr r \<and> is_next (bit_at bm) sz (64 * q) r" if "64 * q \<le> sz" for q
    using next_four_words_ok [of q "sz - 64 * q" bm] that assms(2) by simp
  consider "j = 0" | "j \<noteq> 0" "sz - 64 * p < 64" | "j \<noteq> 0" "64 \<le> sz - 64 * p" by linarith
  then show ?thesis
  proof cases
    case 1
    then show ?thesis using e four [of p] o assms(1) by simp
  next
    case 2
    let ?v = "?w AND drop_bit (64 - (sz - 64 * p)) (-1)"
    have v: "word_view (bit_at bm) sz offset p ?v"
      using 2 o assms(1) by (auto simp: word_view_def bit_simps bit_at_word)
    show ?thesis
      by (rule word_view_answer [OF v])
        (use e 2 o p assms(1) in \<open>simp_all add: word_at_def found_first_def found_middle_def BITS_PER_LONG_def Let_def\<close>)
  next
    case 3
    then have l: "64 + 64 * p \<le> sz" by linarith
    have v: "word_view (bit_at bm) sz offset p ?w"
      using 3 o assms(1) by (auto simp: word_view_def bit_simps bit_at_word)
    obtain r where r: "next_four_words bm (Suc p) (64 * p + 64) (sz - 64 * p - 64) = Inr r" "is_next (bit_at bm) sz (64 * p + 64) r"
      using four [of "Suc p"] l by (auto simp: add.commute)
    show ?thesis
      by (rule word_view_answer_rest [OF v _ _ r(2)]) (use e 3 o p r assms(1) in \<open>simp_all add: word_at_def found_middle_def\<close>)
  qed
qed

lemma find_next_zero_bit_next:
  assumes "offset < sz" and "sz \<le> bit_count bm"
  shows "\<exists>r. find_next_zero_bit bm sz offset = Inr r \<and> is_next (\<lambda>n. \<not> bit_at bm n) sz offset r"
proof -
  let ?P = "\<lambda>n. \<not> bit_at bm n"
  obtain p j where o: "offset = 64 * p + j" "j < 64" "offset div 64 = p" "offset mod 64 = j" "64 * p + (sz - 64 * p) = sz"
    using split_offset [OF assms(1)] .
  have p: "p < length bm" using o(3) assms index_less [of offset bm] by simp
  let ?w = "bm ! p OR drop_bit (64 - j) (-1)"
  note e = find_next_zero_bit_def [of bm sz offset, unfolded BIT_WORD_def BITS_PER_LONG_def o(3,4) Let_def]
  have rest: "\<exists>r. next_zero_word bm q (64 * q) (sz - 64 * q) = Inr r \<and> is_next ?P sz (64 * q) r" if "64 * q \<le> sz" for q
    using next_zero_word_ok [of q "sz - 64 * q" bm] that assms(2) by simp
  consider "j = 0" | "j \<noteq> 0" "sz - 64 * p < 64" | "j \<noteq> 0" "64 \<le> sz - 64 * p" by linarith
  then show ?thesis
  proof cases
    case 1
    then show ?thesis using e rest [of p] o assms(1) by simp
  next
    case 2
    let ?v = "?w OR push_bit (sz - 64 * p) (-1)"
    have v: "word_view ?P sz offset p (NOT ?v)"
      using 2 o assms(1) by (auto simp: word_view_def bit_simps bit_at_word)
    show ?thesis
      by (rule word_view_answer [OF v])
        (use e 2 o p assms(1) not_zero_iff [of ?v] in
          \<open>simp_all add: word_at_def found_first_zero_def found_middle_def Let_def\<close>)
  next
    case 3
    then have l: "64 + 64 * p \<le> sz" by linarith
    have v: "word_view ?P sz offset p (NOT ?w)"
      using 3 o assms(1) by (auto simp: word_view_def bit_simps bit_at_word)
    obtain r where r: "next_zero_word bm (Suc p) (64 * p + 64) (sz - 64 * p - 64) = Inr r" "is_next ?P sz (64 * p + 64) r"
      using rest [of "Suc p"] l by (auto simp: add.commute)
    show ?thesis
      by (rule word_view_answer_rest [OF v _ _ r(2)]) (use e 3 o p r assms(1) in \<open>simp_all add: word_at_def found_middle_def\<close>)
  qed
qed

lemma first_word_next:
  assumes "64 * p \<le> sz + 63" and "sz \<le> bit_count bm"
  shows "first_word bm p (64 * p) sz = Inr (next_bit (bit_at bm) sz (64 * p))"
  using assms(1)
proof (induction "sz - 64 * p" arbitrary: p rule: less_induct)
  case less
  note step = first_word.simps [of bm p "64 * p" sz, unfolded BITS_PER_LONG_def]
  show ?case
  proof (cases "64 * p < sz")
    case False
    then show ?thesis using step by (simp add: next_bit_def)
  next
    case True
    then have p: "p < length bm" using assms(2) by (simp add: bit_count_def)
    let ?P = "\<lambda>n. bit_at bm n"
    have v: "word_view ?P (max sz (64 * p + 64)) (64 * p) p (bm ! p)"
      by (rule word_view_full) (simp_all add: bit_at_word)
    show ?thesis
    proof (cases "bm ! p = 0")
      case z: True
      have "first_word bm (Suc p) (64 * p + 64) sz = Inr (next_bit ?P sz (64 * p + 64))"
        using less(1) [of "Suc p"] True less.prems by (auto simp: add.commute)
      moreover have "next_bit ?P sz (64 * p + 64) = next_bit ?P sz (64 * p)"
      proof (cases "64 * p + 64 \<le> sz")
        case t: True
        have "is_next ?P sz (64 * p) (next_bit ?P sz (64 * p + 64))"
          by (rule word_view_skip [OF v [unfolded z max_absorb1 [OF t]] _ t next_bit_is_next [OF t]]) simp
        then show ?thesis by (rule is_next_eq)
      next
        case False
        have "is_next ?P sz (64 * p) sz"
          using word_view_none [OF v [unfolded z]] True False by (auto simp: is_next_def)
        then have "sz = next_bit ?P sz (64 * p)" by (rule is_next_eq)
        then show ?thesis using False by (simp add: next_bit_def [of ?P sz "64 * p + 64"])
      qed
      ultimately show ?thesis using step True p z by (simp add: word_at_def)
    next
      case nz: False
      have n: "is_next ?P (max sz (64 * p + 64)) (64 * p) (64 * p + ctz64 (bm ! p))" by (rule word_view_found [OF v nz])
      then have "is_next ?P sz (64 * p) (if 64 * p + ctz64 (bm ! p) < sz then 64 * p + ctz64 (bm ! p) else sz)"
        using True by (auto simp: is_next_def)
      then have "(if 64 * p + ctz64 (bm ! p) < sz then 64 * p + ctz64 (bm ! p) else sz) = next_bit ?P sz (64 * p)"
        by (rule is_next_eq)
      then show ?thesis using step True p nz by (simp add: word_at_def Let_def)
    qed
  qed
qed

definition last_bit :: "(nat \<Rightarrow> bool) \<Rightarrow> nat \<Rightarrow> nat" where
  "last_bit P sz = (case find P (rev [0..<sz]) of None \<Rightarrow> sz | Some n \<Rightarrow> n)"

lemma last_bit_unfold:
  "\<lbrakk>n < sz; P n; \<And>k. \<lbrakk>n < k; k < sz\<rbrakk> \<Longrightarrow> \<not> P k\<rbrakk> \<Longrightarrow> last_bit P sz = n"
  "(\<And>k. k < sz \<Longrightarrow> \<not> P k) \<Longrightarrow> last_bit P sz = sz"
proof -
  assume n: "n < sz" "P n" and a: "\<And>k. \<lbrakk>n < k; k < sz\<rbrakk> \<Longrightarrow> \<not> P k"
  have "find P (rev [0..<sz]) = Some n"
    unfolding find_Some_iff using n a by (intro exI [of _ "sz - Suc n"]) (auto simp: rev_nth)
  then show "last_bit P sz = n" by (simp add: last_bit_def)
next
  assume "\<And>k. k < sz \<Longrightarrow> \<not> P k"
  then have "find P (rev [0..<sz]) = None" by (simp add: find_None_iff)
  then show "last_bit P sz = sz" by (simp add: last_bit_def)
qed

lemma bit_length_top: "n \<noteq> 0 \<Longrightarrow> bit n (bit_length n - 1)"
proof (induction n rule: bit_length.induct)
  case (1 n)
  show ?case
  proof (cases "n div 2 = 0")
    case True
    then have "n = 1" using 1(2) by linarith
    then show ?thesis by (simp add: bit_length.simps bit_0)
  next
    case False
    then have "bit_length (n div 2) \<noteq> 0" by (simp add: bit_length.simps)
    then show ?thesis using 1 False by (simp add: bit_length.simps [of n] bit_Suc [symmetric])
  qed
qed

lemma bit_length_above: "bit_length n \<le> i \<Longrightarrow> \<not> bit n i"
  by (simp add: bit_length_iff bit_iff_odd)

lemma clz64_ok:
  assumes "w \<noteq> 0"
  shows "clz64 w < 64" and "bit w (63 - clz64 w)" and "\<And>i. 63 - clz64 w < i \<Longrightarrow> \<not> bit w i"
proof -
  have n: "unat w \<noteq> 0" using assms by (simp add: unat_eq_0)
  then have b: "0 < bit_length (unat w)" "bit_length (unat w) \<le> 64"
    using bit_length_iff [of "unat w" 64] unat_u64_less [of w] by (simp_all add: bit_length.simps)
  have e: "63 - clz64 w = bit_length (unat w) - 1" using assms b by (simp add: clz64_def)
  show "clz64 w < 64" using assms b by (simp add: clz64_def)
  show "bit w (63 - clz64 w)" using bit_length_top [OF n] e by (simp add: bit_unsigned_iff)
  show "\<not> bit w i" if "63 - clz64 w < i" for i
    using bit_length_above [of "unat w" i] e b that by (auto simp: bit_unsigned_iff bit_word.rep_eq dest: bit_imp_le_length)
qed

end
